(* ===== verification/Prelude.thy ===== *)
theory Prelude
  imports Main "HOL-Library.Word"
begin

unbundle bit_operations_syntax

text \<open>
  What every other theory shares: bytes, faults as values, the result type with its
  composition \<open>bindE\<close> and its total-correctness predicate \<open>returns\<close>, C arrays (a list of
  fixed length, read and written with bounds), C strings (the bytes before the first NUL),
  \<open>snprintf\<close> into an array and the decimal numerals it prints.

  A C program goes wrong where the language leaves the behaviour undefined (a read outside
  an array, a call through a NULL function pointer, an access to freed memory) and where it
  stops itself (\<open>assert\<close>, \<open>abort\<close>). Each of these is a value of type \<open>fault\<close>; a function
  of the model that can go wrong returns a \<open>result\<close>, \<open>Inl\<close> of the fault or \<open>Inr\<close> of the
  value, and \<open>returns r Q\<close> says that \<open>r\<close> is no fault and its value satisfies \<open>Q\<close>.
\<close>

section \<open>Bytes, faults and results\<close>

type_synonym byte = "8 word"

datatype fault =
    OutOfBounds \<comment> \<open>an access outside an array or outside its initialised part\<close>
  | AssertFailed \<comment> \<open>a failed \<open>assert\<close>\<close>
  | Aborted \<comment> \<open>a call of \<open>abort\<close>\<close>
  | NullCall \<comment> \<open>a call through a NULL function pointer, or a NULL dereference\<close>
  | UseAfterFree \<comment> \<open>a dereference of an object that is not allocated\<close>
  | StackDepth \<comment> \<open>callbacks nested deeper than the bound the model follows\<close>
  | LoopBound \<comment> \<open>a loop that runs longer than the bound the model follows\<close>

type_synonym 'a result = "fault + 'a"

definition bindE :: "'a result \<Rightarrow> ('a \<Rightarrow> 'b result) \<Rightarrow> 'b result" where
  "bindE r f = (case r of Inl e \<Rightarrow> Inl e | Inr x \<Rightarrow> f x)"

definition returns :: "'a result \<Rightarrow> ('a \<Rightarrow> bool) \<Rightarrow> bool" where
  "returns r Q = (case r of Inl e \<Rightarrow> False | Inr x \<Rightarrow> Q x)"

lemma bindE_simps [simp]:
  "bindE (Inl e) f = Inl e"
  "bindE (Inr x) f = f x"
  by (simp_all add: bindE_def)

lemma bindE_assoc: "bindE (bindE r f) g = bindE r (\<lambda>x. bindE (f x) g)"
  by (cases r) simp_all

lemma bindE_eq_Inr: "bindE r f = Inr y \<longleftrightarrow> (\<exists>x. r = Inr x \<and> f x = Inr y)"
  by (cases r) simp_all

lemma returns_simps [simp]:
  "returns (Inl e) Q = False"
  "returns (Inr x) Q = Q x"
  "returns (bindE r f) Q = returns r (\<lambda>x. returns (f x) Q)"
  by (cases r; simp add: returns_def)+

lemma returns_if: "returns (if b then r else s) Q = (if b then returns r Q else returns s Q)"
  by simp

lemma returns_mono: "returns r P \<Longrightarrow> (\<And>x. r = Inr x \<Longrightarrow> P x \<Longrightarrow> Q x) \<Longrightarrow> returns r Q"
  by (cases r) simp_all

lemma returns_conj: "returns r P \<Longrightarrow> returns r Q \<Longrightarrow> returns r (\<lambda>x. P x \<and> Q x)"
  by (cases r) simp_all

lemma returnsE:
  assumes "returns r Q"
  obtains x where "r = Inr x" "Q x"
  using assms by (cases r) simp_all

lemma returns_iff: "returns r Q \<longleftrightarrow> (\<exists>x. r = Inr x \<and> Q x)"
  by (cases r) simp_all

section \<open>Arrays\<close>

text \<open>
  A C array is a list whose length is the array's size. \<open>array_get\<close> and \<open>array_put\<close> are
  one element, \<open>array_read\<close> is the region \<open>[off, off + n)\<close> and \<open>array_write\<close> copies a block
  of bytes to an offset (\<open>memcpy\<close>); outside the array each is a fault.
\<close>

definition array_get :: "'a list \<Rightarrow> nat \<Rightarrow> 'a result" where
  "array_get xs i = (if i < length xs then Inr (xs ! i) else Inl OutOfBounds)"

definition array_put :: "'a list \<Rightarrow> nat \<Rightarrow> 'a \<Rightarrow> 'a list result" where
  "array_put xs i x = (if i < length xs then Inr (xs[i := x]) else Inl OutOfBounds)"

definition array_read :: "'a list \<Rightarrow> nat \<Rightarrow> nat \<Rightarrow> 'a list result" where
  "array_read xs off n =
     (if off + n \<le> length xs then Inr (take n (drop off xs)) else Inl OutOfBounds)"

definition overwrite :: "'a list \<Rightarrow> nat \<Rightarrow> 'a list \<Rightarrow> 'a list" where
  "overwrite xs off ys = take off xs @ ys @ drop (off + length ys) xs"

definition array_write :: "'a list \<Rightarrow> nat \<Rightarrow> 'a list \<Rightarrow> 'a list result" where
  "array_write xs off ys =
     (if off + length ys \<le> length xs then Inr (overwrite xs off ys) else Inl OutOfBounds)"

lemma returns_array_get [simp]:
  "i < length xs \<Longrightarrow> array_get xs i = Inr (xs ! i)"
  by (simp add: array_get_def)

lemma returns_array_put [simp]:
  "i < length xs \<Longrightarrow> array_put xs i x = Inr (xs[i := x])"
  by (simp add: array_put_def)

lemma returns_array_read [simp]:
  "off + n \<le> length xs \<Longrightarrow> array_read xs off n = Inr (take n (drop off xs))"
  by (simp add: array_read_def)

lemma returns_array_write [simp]:
  "off + length ys \<le> length xs \<Longrightarrow> array_write xs off ys = Inr (overwrite xs off ys)"
  by (simp add: array_write_def)

lemma length_overwrite [simp]:
  "off + length ys \<le> length xs \<Longrightarrow> length (overwrite xs off ys) = length xs"
  by (simp add: overwrite_def)

lemma take_overwrite [simp]: "off \<le> length xs \<Longrightarrow> take off (overwrite xs off ys) = take off xs"
  by (simp add: overwrite_def)

lemma take_overwrite_all:
  "off \<le> length xs \<Longrightarrow> take (off + length ys) (overwrite xs off ys) = take off xs @ ys"
  by (simp add: overwrite_def)

lemma overwrite_nth:
  assumes "off \<le> length xs" "i < length ys"
  shows "overwrite xs off ys ! (off + i) = ys ! i"
  using assms by (simp add: overwrite_def nth_append min_def)

section \<open>C strings\<close>

text \<open>
  \<open>cstr xs\<close> is the string a \<open>char *\<close> to the array \<open>xs\<close> denotes: the bytes before the first
  NUL. \<open>terminated xs\<close> says that the array holds a NUL, without which reading the string
  runs past the array.
\<close>

definition cstr :: "byte list \<Rightarrow> byte list" where
  "cstr xs = takeWhile (\<lambda>b. b \<noteq> 0) xs"

definition terminated :: "byte list \<Rightarrow> bool" where
  "terminated xs \<longleftrightarrow> 0 \<in> set xs"

definition bytes :: "string \<Rightarrow> byte list" where
  "bytes s = map (\<lambda>c. of_nat (of_char c)) s"

definition strlen :: "byte list \<Rightarrow> nat result" where
  "strlen s = (if terminated s then Inr (length (cstr s)) else Inl OutOfBounds)"

lemma cstr_simps [simp]:
  "cstr [] = []"
  "cstr (b # bs) = (if b = 0 then [] else b # cstr bs)"
  by (simp_all add: cstr_def)

lemma cstr_no_nul [simp]: "0 \<notin> set (cstr xs)"
  by (auto simp: cstr_def dest: set_takeWhileD)

lemma cstr_id: "0 \<notin> set xs \<Longrightarrow> cstr xs = xs"
  by (induction xs) auto

lemma cstr_append_nul: "0 \<notin> set xs \<Longrightarrow> cstr (xs @ 0 # ys) = xs"
  by (induction xs) auto

lemma length_cstr_le: "length (cstr xs) \<le> length xs"
  by (simp add: cstr_def length_takeWhile_le)

lemma length_cstr_terminated: "terminated xs \<Longrightarrow> length (cstr xs) < length xs"
  by (induction xs) (auto simp: terminated_def)

lemma terminatedI: "length (cstr xs) < length xs \<Longrightarrow> terminated xs"
  by (metis cstr_id less_irrefl terminated_def)

lemma length_bytes [simp]: "length (bytes s) = length s"
  by (simp add: bytes_def)

text \<open>
  \<open>snprintf (buf + off, size, ...)\<close> where the format prints the bytes \<open>s\<close>: at most \<open>size - 1\<close>
  bytes and a NUL are written, nothing when \<open>size\<close> is 0. The value the call returns is
  \<open>length s\<close>, whatever was written.
\<close>

definition c_snprintf :: "byte list \<Rightarrow> nat \<Rightarrow> nat \<Rightarrow> byte list \<Rightarrow> byte list result" where
  "c_snprintf buf off sz s =
     (if sz = 0 then Inr buf else array_write buf off (take (sz - 1) s @ [0]))"

lemma returns_c_snprintf:
  assumes "off + sz \<le> length buf"
  shows "returns (c_snprintf buf off sz s)
           (\<lambda>b. length b = length buf \<and> take off b = take off buf)"
  using assms by (auto simp: c_snprintf_def)

lemma c_snprintf_string:
  assumes "0 < sz" "sz \<le> length buf" "0 \<notin> set s"
  shows "returns (c_snprintf buf 0 sz s) (\<lambda>b. cstr b = take (sz - 1) s)"
proof -
  have "min (length s) (sz - 1) + 1 \<le> length buf" using assms by simp
  moreover have "0 \<notin> set (take (sz - 1) s)" using assms(3) by (meson in_set_takeD)
  ultimately show ?thesis
    using assms by (simp add: c_snprintf_def overwrite_def cstr_append_nul)
qed

lemma take_length_cstr: "take (length (cstr xs)) xs = cstr xs"
  unfolding cstr_def by (metis takeWhile_eq_take)

text \<open>Printing behind a string that is already in the array, as a loop of \<open>snprintf\<close> calls does.\<close>

lemma c_snprintf_append:
  assumes "cstr buf = p" "length p < sz" "sz \<le> length buf" "0 \<notin> set s"
  shows "returns (c_snprintf buf (length p) (sz - length p) s)
           (\<lambda>b. length b = length buf \<and> cstr b = take (sz - 1) (p @ s))"
proof -
  let ?t = "take (sz - length p - 1) s"
  have len: "length p + length (?t @ [0]) \<le> length buf" using assms by simp
  have "take (length p) buf = p" using assms(1) take_length_cstr [of buf] by simp
  then have "overwrite buf (length p) (?t @ [0]) = (p @ ?t) @ 0 # drop (length p + length (?t @ [0])) buf"
    by (simp add: overwrite_def)
  moreover have "0 \<notin> set (p @ ?t)"
    using assms cstr_no_nul [of buf] by (auto dest: in_set_takeD)
  ultimately have "cstr (overwrite buf (length p) (?t @ [0])) = p @ ?t"
    by (metis cstr_append_nul)
  then show ?thesis using assms len by (simp add: c_snprintf_def take_append)
qed

text \<open>The decimal numeral of a natural number, as \<open>%zu\<close>, \<open>%hu\<close> and \<open>PRIu64\<close> print it.\<close>

fun dec :: "nat \<Rightarrow> byte list" where
  "dec n = (if n < 10 then [of_nat (48 + n)] else dec (n div 10) @ [of_nat (48 + n mod 10)])"

declare dec.simps [simp del]

lemma digit_nonzero: "d < 10 \<Longrightarrow> (of_nat (48 + d) :: byte) \<noteq> 0"
proof
  assume d: "d < 10" "(of_nat (48 + d) :: byte) = 0"
  have "unat (of_nat (48 + d) :: byte) = (48 + d) mod 2 ^ LENGTH(8)"
    by (rule unat_of_nat)
  with d show False by simp
qed

lemma dec_no_nul [simp]: "0 \<notin> set (dec n)"
proof (induction n rule: dec.induct)
  case (1 n)
  show ?case
  proof (cases "n < 10")
    case True
    then show ?thesis using digit_nonzero [of n] by (subst dec.simps) simp
  next
    case False
    with 1 have "0 \<notin> set (dec (n div 10))" by simp
    with False show ?thesis using digit_nonzero [of "n mod 10"] by (subst dec.simps) simp
  qed
qed

end
