(* ===== verification/Buffer.thy ===== *)
theory Buffer
  imports Prelude
begin

text \<open>
  \<^verbatim>\<open>src/src/utils/buffer.c\<close>: a byte buffer over a caller's array, with a read and a write
  pointer. The pointers are offsets from \<open>data\<close>, so \<open>b->data\<close> is offset 0; each \<open>assert\<close> is
  a fault. The invariant \<open>R <= W <= limit\<close> of the header is \<open>buffer_wf\<close>, the bytes waiting
  to be read are \<open>buffer_content\<close>, and the locale \<open>byte_queue\<close> is the contract the
  clients of a byte queue rely on.
\<close>

section \<open>State and operations\<close>

record buffer =
  buf_data :: "byte list"
  buf_limit :: nat
  buf_read :: nat
  buf_write :: nat

definition buffer_reset :: "buffer \<Rightarrow> buffer" where
  "buffer_reset b = b\<lparr>buf_read := 0, buf_write := 0\<rparr>"




text \<open>The pointer the call returns, and \<open>*nbyte\<close>.\<close>

definition buffer_write_ptr :: "buffer \<Rightarrow> (nat \<times> nat) result" where
  "buffer_write_ptr b =
     (if buf_write b \<le> buf_limit b then Inr (buf_write b, buf_limit b - buf_write b)
      else Inl AssertFailed)"

definition buffer_read_ptr :: "buffer \<Rightarrow> (nat \<times> nat) result" where
  "buffer_read_ptr b =
     (if buf_read b \<le> buf_write b then Inr (buf_read b, buf_write b - buf_read b)
      else Inl AssertFailed)"


text \<open>\<open>memmove (data, read, n)\<close> copies the region at \<open>read\<close> to the front; the regions may overlap.\<close>

definition buffer_compact :: "buffer \<Rightarrow> buffer result" where
  "buffer_compact b =
     (if buf_read b = 0 then Inr b
      else if buf_read b = buf_write b then Inr (b\<lparr>buf_read := 0, buf_write := 0\<rparr>)
      else
        let n = buf_write b - buf_read b
        in bindE (array_read (buf_data b) (buf_read b) n) (\<lambda>region.
           bindE (array_write (buf_data b) 0 region) (\<lambda>d.
           Inr (b\<lparr>buf_data := d, buf_read := 0, buf_write := n\<rparr>))))"




section \<open>Invariant and content\<close>

definition buffer_wf :: "buffer \<Rightarrow> bool" where
  "buffer_wf b \<longleftrightarrow> buf_read b \<le> buf_write b \<and> buf_write b \<le> buf_limit b
     \<and> buf_limit b \<le> length (buf_data b)"

definition buffer_content :: "buffer \<Rightarrow> byte list" where
  "buffer_content b = take (buf_write b - buf_read b) (drop (buf_read b) (buf_data b))"

lemma length_buffer_content:
  "buffer_wf b \<Longrightarrow> length (buffer_content b) = buf_write b - buf_read b"
  unfolding buffer_wf_def buffer_content_def by (simp add: min_def) linarith



lemma buffer_reset_wf: "buffer_wf b \<Longrightarrow> buffer_wf (buffer_reset b) \<and> buffer_content (buffer_reset b) = []"
  by (auto simp: buffer_wf_def buffer_reset_def buffer_content_def)

lemma buffer_compact_wf:
  assumes "buffer_wf b"
  shows "returns (buffer_compact b) (\<lambda>b'. buffer_wf b' \<and> buf_read b' = 0
           \<and> buffer_content b' = buffer_content b \<and> buf_limit b' = buf_limit b)"
proof -
  let ?n = "buf_write b - buf_read b"
  have "buf_read b + ?n \<le> length (buf_data b)"
    using assms by (simp add: buffer_wf_def)
  then show ?thesis
    using assms
    by (auto simp: buffer_compact_def buffer_wf_def buffer_content_def Let_def overwrite_def)
qed




section \<open>The contract of a byte queue\<close>





section \<open>Properties\<close>



text \<open>
  C27. Compacting moves the pending bytes to the front of the array, overlapping or not: the
  content is unchanged, the whole of the array behind it becomes writable, and no well-formed
  buffer makes it fault.
\<close>

theorem buffer_compact_content:
  assumes "buffer_wf b"
  shows "returns (buffer_compact b) (\<lambda>b'. buffer_wf b' \<and> buffer_content b' = buffer_content b
           \<and> buf_read b' = 0 \<and> buf_limit b' - buf_write b' = buf_limit b - length (buffer_content b))"
proof (rule returns_mono [OF buffer_compact_wf [OF assms]])
  fix b' assume *: "buffer_wf b' \<and> buf_read b' = 0 \<and> buffer_content b' = buffer_content b
    \<and> buf_limit b' = buf_limit b"
  then have "length (buffer_content b') = buf_write b'"
    using length_buffer_content [of b'] by simp
  with * show "buffer_wf b' \<and> buffer_content b' = buffer_content b \<and> buf_read b' = 0
      \<and> buf_limit b' - buf_write b' = buf_limit b - length (buffer_content b)" by simp
qed

theorem buffer_compact_content_witness:
  "returns (buffer_compact \<lparr>buf_data = [72,79,76,65,32,77], buf_limit = 6, buf_read = 3, buf_write = 6\<rparr>)
     (\<lambda>b'. buffer_content b' = [65,32,77] \<and> buf_write b' = 3)"
  using buffer_compact_content
    [of "\<lparr>buf_data = [72,79,76,65,32,77], buf_limit = 6, buf_read = 3, buf_write = 6\<rparr>"]
  by (simp add: buffer_wf_def buffer_compact_def array_read_def array_write_def overwrite_def
      buffer_content_def)

end
