(* ===== verification/Selector.thy ===== *)
theory Selector
  imports Prelude
begin

text \<open>
  \<^verbatim>\<open>src/src/utils/selector.c\<close>: the input/output multiplexer. A selector is a jump table
  \<open>fds\<close> indexed by file descriptor, the maximal descriptor in use, the two descriptor sets
  handed to \<open>pselect\<close> and the list of finished blocking jobs. The record is extensible: the
  server's state extends it, and the callbacks of a handler are functions on the extended
  state, as the C callbacks reach the selector and everything else through their key. The
  type \<open>'h\<close> stands for \<open>fd_handler *\<close>, \<open>'d\<close> for what a \<open>data\<close> pointer refers to.

  \<open>registered\<close> is the abstract view, a map from descriptors to their registration, and
  \<open>selector_wf\<close> the invariant that ties the table, the maximum and the two sets together.
\<close>

section \<open>Data\<close>

type_synonym fd_interest = "32 word"

definition OP_NOOP :: fd_interest where "OP_NOOP = 0"
definition OP_READ :: fd_interest where "OP_READ = push_bit 0 1"
definition OP_WRITE :: fd_interest where "OP_WRITE = push_bit 2 1"

definition wants :: "fd_interest \<Rightarrow> fd_interest \<Rightarrow> bool" where
  "wants i flag \<longleftrightarrow> i AND flag \<noteq> 0"

datatype selector_status =
    SELECTOR_SUCCESS | SELECTOR_ENOMEM | SELECTOR_MAXFD | SELECTOR_IARGS
  | SELECTOR_FDINUSE | SELECTOR_IO

record ('h, 'd) item =
  item_fd :: int
  item_interest :: fd_interest
  item_handler :: "'h option"
  item_data :: "'d option"

record ('h, 'd) fdselector =
  fds :: "('h, 'd) item list" \<comment> \<open>its length is \<open>fd_size\<close>; \<open>[]\<close> is the NULL pointer\<close>
  max_fd :: int
  master_r :: "int set"
  master_w :: "int set"
  slave_r :: "int set"
  slave_w :: "int set"
  resolution_jobs :: "int list" \<comment> \<open>the descriptors of the list's jobs, head first\<close>

record 'd selector_key =
  key_fd :: int
  key_data :: "'d option"

definition FD_SETSIZE :: nat where "FD_SETSIZE = 1024"
definition FD_UNUSED :: int where "FD_UNUSED = -1"

definition ITEM_USED :: "('h, 'd) item \<Rightarrow> bool" where
  "ITEM_USED it \<longleftrightarrow> item_fd it \<noteq> FD_UNUSED"

definition INVALID_FD :: "int \<Rightarrow> bool" where
  "INVALID_FD fd \<longleftrightarrow> fd < 0 \<or> fd \<ge> int FD_SETSIZE"

definition zero_item :: "('h, 'd) item" where
  "zero_item = \<lparr>item_fd = 0, item_interest = 0, item_handler = None, item_data = None\<rparr>"

definition item_init :: "('h, 'd) item \<Rightarrow> ('h, 'd) item" where
  "item_init it = it\<lparr>item_fd := FD_UNUSED\<rparr>"

section \<open>Messages\<close>

fun selector_error :: "selector_status \<Rightarrow> string" where
  "selector_error SELECTOR_SUCCESS = ''Success''"
| "selector_error SELECTOR_ENOMEM = ''Not enough memory''"
| "selector_error SELECTOR_MAXFD = ''Can't handle any more file descriptors''"
| "selector_error SELECTOR_IARGS = ''Illegal argument''"
| "selector_error SELECTOR_IO = ''I/O error''"
| "selector_error _ = ''something failed''"

section \<open>Capacity\<close>

fun shift_count :: "nat \<Rightarrow> nat" where
  "shift_count tmp = (if tmp = 0 then 0 else Suc (shift_count (tmp div 2)))"

declare shift_count.simps [simp del]

text \<open>Shifting \<open>1UL\<close> by 64 bits or more is undefined; the model makes it a fault.\<close>

definition next_capacity :: "nat \<Rightarrow> nat result" where
  "next_capacity n =
     (let bits = shift_count n in
      if bits \<ge> 64 then Inl OutOfBounds
      else
        let tmp = 2 ^ bits in
        if tmp \<ge> n then Inr ((if tmp > FD_SETSIZE then FD_SETSIZE else tmp) + 1)
        else Inl AssertFailed)"

text \<open>
  The allocator is an argument: \<open>ok n\<close> says whether a request for \<open>n\<close> items succeeds, and
  \<open>junk\<close> is the content of the items that \<open>realloc\<close> adds, which it does not clear.
\<close>

definition element_size :: nat where "element_size = 32"
definition SIZE_MAX :: nat where "SIZE_MAX = 2 ^ 64 - 1"

definition ensure_capacity ::
  "(nat \<Rightarrow> bool) \<Rightarrow> ('h, 'd) item \<Rightarrow> nat \<Rightarrow> ('h, 'd, 'z) fdselector_scheme
     \<Rightarrow> (selector_status \<times> ('h, 'd, 'z) fdselector_scheme) result" where
  "ensure_capacity ok junk n s =
     (if n < length (fds s) then Inr (SELECTOR_SUCCESS, s)
      else if n > FD_SETSIZE then Inr (SELECTOR_MAXFD, s)
      else if fds s = [] then
        bindE (next_capacity n) (\<lambda>new_size.
        if \<not> ok new_size then Inr (SELECTOR_ENOMEM, s)
        else Inr (SELECTOR_SUCCESS, s\<lparr>fds := replicate new_size (item_init zero_item)\<rparr>))
      else
        bindE (next_capacity n) (\<lambda>new_size.
        if new_size > SIZE_MAX div element_size then Inr (SELECTOR_ENOMEM, s)
        else if \<not> ok new_size then Inr (SELECTOR_ENOMEM, s)
        else Inr (SELECTOR_SUCCESS,
          s\<lparr>fds := take new_size (fds s) @ replicate (new_size - length (fds s)) (item_init junk)\<rparr>)))"

definition selector_new ::
  "(nat \<Rightarrow> bool) \<Rightarrow> ('h, 'd) item \<Rightarrow> bool \<Rightarrow> nat \<Rightarrow> ('h, 'd) fdselector option result" where
  "selector_new ok junk malloc_ok initial_elements =
     (if \<not> malloc_ok then Inr None
      else
        let s = \<lparr>fds = [], max_fd = 0, master_r = {}, master_w = {}, slave_r = {}, slave_w = {},
                 resolution_jobs = []\<rparr>
        in bindE (ensure_capacity ok junk initial_elements s) (\<lambda>(ret, s').
           Inr (if ret \<noteq> SELECTOR_SUCCESS then None else Some s')))"

section \<open>Descriptor sets and the maximal descriptor\<close>

definition items_max_fd :: "('h, 'd, 'z) fdselector_scheme \<Rightarrow> int result" where
  "items_max_fd s =
     bindE (array_read (fds s) 0 (nat (max_fd s + 1))) (\<lambda>items.
     Inr (fold (\<lambda>it m. if ITEM_USED it \<and> item_fd it > m then item_fd it else m) items 0))"

text \<open>\<open>FD_CLR\<close> and \<open>FD_SET\<close> of a descriptor outside \<open>[0, FD_SETSIZE)\<close> write outside the set.\<close>

definition items_update_fdset_for_fd ::
  "('h, 'd) item \<Rightarrow> ('h, 'd, 'z) fdselector_scheme \<Rightarrow> ('h, 'd, 'z) fdselector_scheme result" where
  "items_update_fdset_for_fd it s =
     (if INVALID_FD (item_fd it) then Inl OutOfBounds
      else
        let r = master_r s - {item_fd it};
            w = master_w s - {item_fd it}
        in Inr (s\<lparr>
             master_r := (if ITEM_USED it \<and> wants (item_interest it) OP_READ
                          then insert (item_fd it) r else r),
             master_w := (if ITEM_USED it \<and> wants (item_interest it) OP_WRITE
                          then insert (item_fd it) w else w)\<rparr>))"

section \<open>Registering, unregistering and changing interests\<close>

definition selector_register ::
  "(nat \<Rightarrow> bool) \<Rightarrow> ('h, 'd) item \<Rightarrow> int \<Rightarrow> 'h option \<Rightarrow> fd_interest \<Rightarrow> 'd option
     \<Rightarrow> ('h, 'd, 'z) fdselector_scheme
     \<Rightarrow> (selector_status \<times> ('h, 'd, 'z) fdselector_scheme) result" where
  "selector_register ok junk fd handler interest data s =
     (if INVALID_FD fd \<or> handler = None then Inr (SELECTOR_IARGS, s)
      else
        let ufd = nat fd in
        bindE (if ufd > length (fds s) then ensure_capacity ok junk ufd s
               else Inr (SELECTOR_SUCCESS, s)) (\<lambda>(ret, s).
        if ret \<noteq> SELECTOR_SUCCESS then Inr (ret, s)
        else
          bindE (array_get (fds s) ufd) (\<lambda>it.
          if ITEM_USED it then Inr (SELECTOR_FDINUSE, s)
          else
            let it' = \<lparr>item_fd = fd, item_interest = interest, item_handler = handler,
                       item_data = data\<rparr>;
                s' = s\<lparr>fds := (fds s)[ufd := it'],
                       max_fd := (if fd > max_fd s then fd else max_fd s)\<rparr>
            in bindE (items_update_fdset_for_fd it' s') (\<lambda>s''. Inr (SELECTOR_SUCCESS, s'')))))"

text \<open>
  \<open>close_cb h\<close> is the \<open>handle_close\<close> member of the handler \<open>h\<close>, \<open>None\<close> where it is NULL. The
  callback runs on the whole state and may call the selector again.
\<close>

definition selector_unregister_fd ::
  "('h \<Rightarrow> ('d selector_key \<Rightarrow> ('h, 'd, 'z) fdselector_scheme
             \<Rightarrow> ('h, 'd, 'z) fdselector_scheme result) option)
     \<Rightarrow> int \<Rightarrow> ('h, 'd, 'z) fdselector_scheme
     \<Rightarrow> (selector_status \<times> ('h, 'd, 'z) fdselector_scheme) result" where
  "selector_unregister_fd close_cb fd s =
     (if INVALID_FD fd then Inr (SELECTOR_IARGS, s)
      else
        bindE (array_get (fds s) (nat fd)) (\<lambda>it.
        if \<not> ITEM_USED it then Inr (SELECTOR_IARGS, s)
        else
          bindE (case item_handler it of
                   None \<Rightarrow> Inl NullCall
                 | Some h \<Rightarrow>
                     (case close_cb h of
                        None \<Rightarrow> Inr s
                      | Some cb \<Rightarrow> cb \<lparr>key_fd = item_fd it, key_data = item_data it\<rparr> s)) (\<lambda>s.
          bindE (array_get (fds s) (nat fd)) (\<lambda>it.
          let it' = it\<lparr>item_interest := OP_NOOP\<rparr>;
              s = s\<lparr>fds := (fds s)[nat fd := it']\<rparr>
          in bindE (items_update_fdset_for_fd it' s) (\<lambda>s.
             let s = s\<lparr>fds := (fds s)[nat fd := item_init zero_item]\<rparr>
             in bindE (items_max_fd s) (\<lambda>m. Inr (SELECTOR_SUCCESS, s\<lparr>max_fd := m\<rparr>)))))))"

definition selector_set_interest ::
  "int \<Rightarrow> fd_interest \<Rightarrow> ('h, 'd, 'z) fdselector_scheme
     \<Rightarrow> (selector_status \<times> ('h, 'd, 'z) fdselector_scheme) result" where
  "selector_set_interest fd i s =
     (if INVALID_FD fd then Inr (SELECTOR_IARGS, s)
      else
        bindE (array_get (fds s) (nat fd)) (\<lambda>it.
        if \<not> ITEM_USED it then Inr (SELECTOR_IARGS, s)
        else
          let it' = it\<lparr>item_interest := i\<rparr>;
              s = s\<lparr>fds := (fds s)[nat fd := it']\<rparr>
          in bindE (items_update_fdset_for_fd it' s) (\<lambda>s. Inr (SELECTOR_SUCCESS, s))))"

definition selector_set_interest_key ::
  "'d selector_key \<Rightarrow> fd_interest \<Rightarrow> ('h, 'd, 'z) fdselector_scheme
     \<Rightarrow> (selector_status \<times> ('h, 'd, 'z) fdselector_scheme) result" where
  "selector_set_interest_key key i s =
     (if INVALID_FD (key_fd key) then Inr (SELECTOR_IARGS, s)
      else selector_set_interest (key_fd key) i s)"

section \<open>The iteration\<close>

type_synonym ('h, 'd, 'z) callbacks =
  "'h \<Rightarrow> ('d selector_key \<Rightarrow> ('h, 'd, 'z) fdselector_scheme
           \<Rightarrow> ('h, 'd, 'z) fdselector_scheme result) option"

text \<open>
  A member of the item's handler, called through its pointer: a NULL handler is a fault of
  its own, what a NULL member means is up to the caller.
\<close>

definition item_callback ::
  "('h, 'd, 'z) callbacks \<Rightarrow> ('h, 'd) item \<Rightarrow> fault
     \<Rightarrow> ('d selector_key \<Rightarrow> ('h, 'd, 'z) fdselector_scheme \<Rightarrow> ('h, 'd, 'z) fdselector_scheme result)" where
  "item_callback cbs it missing key s =
     (case item_handler it of
        None \<Rightarrow> Inl NullCall
      | Some h \<Rightarrow> (case cbs h of None \<Rightarrow> Inl missing | Some cb \<Rightarrow> cb key s))"

text \<open>
  One turn of the loop of \<open>handle_iteration\<close>. The item is a pointer into the table, so its
  interest is read again after the read handler ran, and a handler that unregistered the
  descriptor leaves \<open>OP_NOOP\<close> there; the key still holds what it held before.
\<close>

definition handle_item ::
  "('h, 'd, 'z) callbacks \<Rightarrow> ('h, 'd, 'z) callbacks \<Rightarrow> nat
     \<Rightarrow> ('h, 'd, 'z) fdselector_scheme \<Rightarrow> ('h, 'd, 'z) fdselector_scheme result" where
  "handle_item read_cb write_cb i s =
     bindE (array_get (fds s) i) (\<lambda>it.
     if \<not> ITEM_USED it then Inr s
     else
       let key = \<lparr>key_fd = item_fd it, key_data = item_data it\<rparr> in
       bindE (if item_fd it \<in> slave_r s \<and> wants OP_READ (item_interest it)
              then item_callback read_cb it AssertFailed key s else Inr s) (\<lambda>s.
       bindE (array_get (fds s) i) (\<lambda>it.
       if int i \<in> slave_w s \<and> wants OP_WRITE (item_interest it)
       then item_callback write_cb it AssertFailed key s else Inr s)))"

fun handle_items ::
  "('h, 'd, 'z) callbacks \<Rightarrow> ('h, 'd, 'z) callbacks \<Rightarrow> nat list
     \<Rightarrow> ('h, 'd, 'z) fdselector_scheme \<Rightarrow> ('h, 'd, 'z) fdselector_scheme result" where
  "handle_items read_cb write_cb [] s = Inr s"
| "handle_items read_cb write_cb (i # is) s =
     bindE (handle_item read_cb write_cb i s) (\<lambda>s. handle_items read_cb write_cb is s)"

definition handle_iteration ::
  "('h, 'd, 'z) callbacks \<Rightarrow> ('h, 'd, 'z) callbacks
     \<Rightarrow> ('h, 'd, 'z) fdselector_scheme \<Rightarrow> ('h, 'd, 'z) fdselector_scheme result" where
  "handle_iteration read_cb write_cb s =
     handle_items read_cb write_cb [0..<nat (max_fd s + 1)] s"

text \<open>
  \<open>handle_block_notifications\<close>: the list is detached only after the walk; \<open>handle_block\<close> is
  called without a check that the handler has one.
\<close>

fun handle_jobs ::
  "('h, 'd, 'z) callbacks \<Rightarrow> int list
     \<Rightarrow> ('h, 'd, 'z) fdselector_scheme \<Rightarrow> ('h, 'd, 'z) fdselector_scheme result" where
  "handle_jobs block_cb [] s = Inr s"
| "handle_jobs block_cb (j # js) s =
     (if j < 0 then Inl OutOfBounds
      else
        bindE (array_get (fds s) (nat j)) (\<lambda>it.
        bindE (if ITEM_USED it
               then item_callback block_cb it NullCall
                      \<lparr>key_fd = item_fd it, key_data = item_data it\<rparr> s
               else Inr s) (\<lambda>s.
        handle_jobs block_cb js s)))"

definition handle_block_notifications ::
  "('h, 'd, 'z) callbacks \<Rightarrow> ('h, 'd, 'z) fdselector_scheme \<Rightarrow> ('h, 'd, 'z) fdselector_scheme result" where
  "handle_block_notifications block_cb s =
     bindE (handle_jobs block_cb (resolution_jobs s) s) (\<lambda>s. Inr (s\<lparr>resolution_jobs := []\<rparr>))"

definition selector_notify_block ::
  "bool \<Rightarrow> int \<Rightarrow> ('h, 'd, 'z) fdselector_scheme
     \<Rightarrow> selector_status \<times> ('h, 'd, 'z) fdselector_scheme" where
  "selector_notify_block malloc_ok fd s =
     (if \<not> malloc_ok then (SELECTOR_ENOMEM, s)
      else (SELECTOR_SUCCESS, s\<lparr>resolution_jobs := fd # resolution_jobs s\<rparr>))"

text \<open>
  \<open>pselect\<close> is the operating system's: what it returns is an argument, an \<open>errno\<close> or the two
  ready sets, which replace the slave sets.
\<close>

definition EAGAIN :: int where "EAGAIN = 11"
definition EWOULDBLOCK :: int where "EWOULDBLOCK = 11"
definition EINTR :: int where "EINTR = 4"
definition EBADF :: int where "EBADF = 9"

definition selector_select ::
  "('h, 'd, 'z) callbacks \<Rightarrow> ('h, 'd, 'z) callbacks \<Rightarrow> ('h, 'd, 'z) callbacks
     \<Rightarrow> int + (int set \<times> int set) \<Rightarrow> ('h, 'd, 'z) fdselector_scheme
     \<Rightarrow> (selector_status \<times> ('h, 'd, 'z) fdselector_scheme) result" where
  "selector_select read_cb write_cb block_cb ready s =
     (let s = s\<lparr>slave_r := master_r s, slave_w := master_w s\<rparr> in
      case ready of
        Inl err \<Rightarrow>
          if err = EAGAIN \<or> err = EINTR
          then bindE (handle_block_notifications block_cb s) (\<lambda>s. Inr (SELECTOR_SUCCESS, s))
          else Inr (SELECTOR_IO, s)
      | Inr (rs, ws) \<Rightarrow>
          bindE (handle_iteration read_cb write_cb (s\<lparr>slave_r := rs, slave_w := ws\<rparr>)) (\<lambda>s.
          bindE (handle_block_notifications block_cb s) (\<lambda>s. Inr (SELECTOR_SUCCESS, s))))"

text \<open>\<open>selector_destroy\<close> unregisters every used item and frees the table and the job list.\<close>

fun destroy_items ::
  "('h, 'd, 'z) callbacks \<Rightarrow> nat list \<Rightarrow> ('h, 'd, 'z) fdselector_scheme
     \<Rightarrow> ('h, 'd, 'z) fdselector_scheme result" where
  "destroy_items close_cb [] s = Inr s"
| "destroy_items close_cb (i # is) s =
     bindE (array_get (fds s) i) (\<lambda>it.
     bindE (if ITEM_USED it
            then bindE (selector_unregister_fd close_cb (int i) s) (\<lambda>(ret, s). Inr s)
            else Inr s) (\<lambda>s.
     destroy_items close_cb is s))"

definition selector_destroy ::
  "('h, 'd, 'z) callbacks \<Rightarrow> ('h, 'd, 'z) fdselector_scheme
     \<Rightarrow> ('h, 'd, 'z) fdselector_scheme result" where
  "selector_destroy close_cb s =
     (if fds s = [] then Inr s
      else bindE (destroy_items close_cb [0..<length (fds s)] s) (\<lambda>s.
           Inr (s\<lparr>fds := [], resolution_jobs := []\<rparr>)))"

section \<open>The abstract view and the invariant\<close>

type_synonym ('h, 'd) registration = "fd_interest \<times> 'h \<times> 'd option"

definition registered ::
  "('h, 'd, 'z) fdselector_scheme \<Rightarrow> int \<Rightarrow> ('h, 'd) registration option" where
  "registered s fd =
     (if 0 \<le> fd \<and> nat fd < length (fds s) \<and> ITEM_USED (fds s ! nat fd)
      then Some (item_interest (fds s ! nat fd), the (item_handler (fds s ! nat fd)),
                 item_data (fds s ! nat fd))
      else None)"

definition interested :: "('h, 'd, 'z) fdselector_scheme \<Rightarrow> fd_interest \<Rightarrow> int set" where
  "interested s flag = {fd. \<exists>i h d. registered s fd = Some (i, h, d) \<and> wants i flag}"

definition selector_wf :: "('h, 'd, 'z) fdselector_scheme \<Rightarrow> bool" where
  "selector_wf s \<longleftrightarrow>
     length (fds s) \<le> FD_SETSIZE + 1
     \<and> (\<forall>i < length (fds s). if ITEM_USED (fds s ! i)
          then item_fd (fds s ! i) = int i \<and> i < FD_SETSIZE \<and> item_handler (fds s ! i) \<noteq> None
          else item_interest (fds s ! i) = OP_NOOP)
     \<and> max_fd s = Max (insert 0 (dom (registered s)))
     \<and> max_fd s < int (length (fds s))
     \<and> master_r s = interested s OP_READ
     \<and> master_w s = interested s OP_WRITE"

lemma selector_wf_item:
  "selector_wf s \<Longrightarrow> i < length (fds s) \<Longrightarrow> ITEM_USED (fds s ! i) \<Longrightarrow>
     item_fd (fds s ! i) = int i \<and> i < FD_SETSIZE \<and> item_handler (fds s ! i) \<noteq> None"
  by (simp add: selector_wf_def)

lemma selector_wf_unused:
  "selector_wf s \<Longrightarrow> i < length (fds s) \<Longrightarrow> \<not> ITEM_USED (fds s ! i) \<Longrightarrow> item_interest (fds s ! i) = OP_NOOP"
  by (simp add: selector_wf_def)

lemma selector_wf_sets:
  "selector_wf s \<Longrightarrow> master_r s = interested s OP_READ"
  "selector_wf s \<Longrightarrow> master_w s = interested s OP_WRITE"
  by (simp_all add: selector_wf_def)

lemma registeredD:
  assumes "selector_wf s" "registered s fd = Some (i, h, d)"
  shows "0 \<le> fd" "fd < int FD_SETSIZE" "nat fd < length (fds s)" "ITEM_USED (fds s ! nat fd)"
    "item_fd (fds s ! nat fd) = fd" "item_handler (fds s ! nat fd) = Some h"
    "item_interest (fds s ! nat fd) = i" "item_data (fds s ! nat fd) = d" "\<not> INVALID_FD fd"
proof -
  show r: "0 \<le> fd" "nat fd < length (fds s)" "ITEM_USED (fds s ! nat fd)"
    "item_interest (fds s ! nat fd) = i" "item_data (fds s ! nat fd) = d"
    using assms(2) by (simp_all add: registered_def split: if_splits)
  from selector_wf_item [OF assms(1) r(2,3)] r(1) assms(2)
  show "fd < int FD_SETSIZE" "item_fd (fds s ! nat fd) = fd"
    "item_handler (fds s ! nat fd) = Some h" "\<not> INVALID_FD fd"
    by (auto simp: registered_def INVALID_FD_def split: if_splits)
qed

lemma finite_registered: "finite (dom (registered s))"
proof (rule finite_subset)
  show "dom (registered s) \<subseteq> {0 .. int (length (fds s))}"
    by (auto simp: registered_def split: if_splits)
qed simp

lemma registered_update:
  assumes "0 \<le> fd" "nat fd < length (fds s)" "fds s' = (fds s)[nat fd := it]"
  shows "registered s' = (registered s)(fd := if ITEM_USED it
           then Some (item_interest it, the (item_handler it), item_data it) else None)"
proof
  fix x
  show "registered s' x = ((registered s)(fd := if ITEM_USED it
      then Some (item_interest it, the (item_handler it), item_data it) else None)) x"
    using assms by (cases "x = fd") (auto simp: registered_def nth_list_update eq_nat_nat_iff)
qed

lemma interested_update:
  assumes "registered s' = (registered s)(fd := r)"
  shows "interested s' flag = interested s flag - {fd} \<union>
           {x. x = fd \<and> (\<exists>i h d. r = Some (i, h, d) \<and> wants i flag)}"
  using assms by (auto simp: interested_def)

lemma wants_simps [simp]:
  "\<not> wants OP_NOOP flag"
  "wants OP_READ OP_READ" "wants OP_WRITE OP_WRITE" "\<not> wants OP_READ OP_WRITE" "\<not> wants OP_WRITE OP_READ"
  by (simp_all add: wants_def OP_NOOP_def OP_READ_def OP_WRITE_def)

lemma Max_insert2:
  "finite A \<Longrightarrow> Max (insert m (insert x A)) = Max (insert (max m x) (A :: int set))"
  by (cases "A = {}") (simp_all add: max.assoc)

lemma fold_max:
  "fold (\<lambda>x m. if P x \<and> f x > m then f x else m) xs (m :: int) = Max (insert m (f ` {x \<in> set xs. P x}))"
proof (induction xs arbitrary: m)
  case Nil
  then show ?case by simp
next
  case (Cons x xs)
  let ?A = "f ` {y \<in> set xs. P y}"
  have fin: "finite ?A" by simp
  have *: "f ` {y \<in> set (x # xs). P y} = (if P x then insert (f x) ?A else ?A)" by auto
  show ?case
  proof (cases "P x")
    case False
    then show ?thesis unfolding * using Cons.IH [of m] by simp
  next
    case True
    with Cons.IH [of "max m (f x)"] Max_insert2 [OF fin, of m "f x"]
    show ?thesis unfolding * by (auto simp: max_def)
  qed
qed

text \<open>The scan of \<open>items_max_fd\<close> only goes up to the old maximum, and that is enough.\<close>

lemma items_max_fd_Max:
  assumes items: "\<And>i. i < length (fds s) \<Longrightarrow> ITEM_USED (fds s ! i) \<Longrightarrow> item_fd (fds s ! i) = int i"
    and upper: "\<And>fd. fd \<in> dom (registered s) \<Longrightarrow> fd \<le> max_fd s"
    and range: "0 \<le> max_fd s" "max_fd s < int (length (fds s))"
  shows "items_max_fd s = Inr (Max (insert 0 (dom (registered s))))"
proof -
  let ?n = "nat (max_fd s + 1)"
  have n: "?n \<le> length (fds s)" using range by simp
  have "item_fd ` {it \<in> set (take ?n (fds s)). ITEM_USED it} = dom (registered s)"
  proof
    show "item_fd ` {it \<in> set (take ?n (fds s)). ITEM_USED it} \<subseteq> dom (registered s)"
    proof
      fix x assume "x \<in> item_fd ` {it \<in> set (take ?n (fds s)). ITEM_USED it}"
      then obtain i where "i < ?n" "i < length (fds s)" "ITEM_USED (fds s ! i)" "x = item_fd (fds s ! i)"
        using n by (auto simp: in_set_conv_nth)
      with items [of i] show "x \<in> dom (registered s)" by (auto simp: registered_def)
    qed
    show "dom (registered s) \<subseteq> item_fd ` {it \<in> set (take ?n (fds s)). ITEM_USED it}"
    proof
      fix x assume x: "x \<in> dom (registered s)"
      then have r: "0 \<le> x" "nat x < length (fds s)" "ITEM_USED (fds s ! nat x)"
        by (auto simp: registered_def split: if_splits)
      moreover have "nat x < ?n" using upper [OF x] r(1) by simp
      ultimately have "fds s ! nat x \<in> set (take ?n (fds s))"
        using n by (auto simp: in_set_conv_nth intro!: exI [of _ "nat x"])
      with r items [of "nat x"] show "x \<in> item_fd ` {it \<in> set (take ?n (fds s)). ITEM_USED it}"
        by (auto intro!: image_eqI [of _ _ "fds s ! nat x"])
    qed
  qed
  then show ?thesis using n by (simp add: items_max_fd_def fold_max)
qed

section \<open>What each operation does to the registrations\<close>

text \<open>What no operation of this section touches: the rest of the state, the slave sets, the jobs.\<close>

definition sel_frame :: "('h, 'd, 'z) fdselector_scheme \<Rightarrow> ('h, 'd, 'z) fdselector_scheme \<Rightarrow> bool" where
  "sel_frame s s' \<longleftrightarrow> fdselector.more s' = fdselector.more s \<and> slave_r s' = slave_r s
     \<and> slave_w s' = slave_w s \<and> resolution_jobs s' = resolution_jobs s
     \<and> length (fds s') = length (fds s)"

lemma selector_wf_put:
  assumes wf: "selector_wf s" and fd: "0 \<le> fd" "fd < int FD_SETSIZE" "nat fd < length (fds s)"
    and fds: "fds s' = (fds s)[nat fd := it]"
    and it: "ITEM_USED it \<Longrightarrow> item_fd it = fd \<and> item_handler it \<noteq> None"
      "\<not> ITEM_USED it \<Longrightarrow> item_interest it = OP_NOOP"
    and max: "max_fd s' = Max (insert 0 (dom (registered s')))"
    and r: "master_r s' = master_r s - {fd} \<union> {x. x = fd \<and> ITEM_USED it \<and> wants (item_interest it) OP_READ}"
    and w: "master_w s' = master_w s - {fd} \<union> {x. x = fd \<and> ITEM_USED it \<and> wants (item_interest it) OP_WRITE}"
  shows "selector_wf s'"
proof -
  note reg = registered_update [OF fd(1,3) fds]
  have "max_fd s' < int (length (fds s'))"
  proof -
    have "Max (insert 0 (dom (registered s'))) < int (length (fds s'))"
      using fd by (subst Max_less_iff) (auto simp: finite_registered fds registered_def split: if_splits)
    then show ?thesis by (simp add: max)
  qed
  moreover have "\<forall>i < length (fds s'). if ITEM_USED (fds s' ! i)
      then item_fd (fds s' ! i) = int i \<and> i < FD_SETSIZE \<and> item_handler (fds s' ! i) \<noteq> None
      else item_interest (fds s' ! i) = OP_NOOP"
    using selector_wf_item [OF wf] selector_wf_unused [OF wf] it fd by (auto simp: fds nth_list_update)
  moreover have "master_r s' = interested s' OP_READ" "master_w s' = interested s' OP_WRITE"
    using interested_update [OF reg] selector_wf_sets [OF wf] r w by auto
  ultimately show ?thesis
    using wf max by (simp add: selector_wf_def fds)
qed

lemma items_update_fdset_for_fd_returns:
  assumes "\<not> INVALID_FD (item_fd it)"
  shows "returns (items_update_fdset_for_fd it s) (\<lambda>s'. fds s' = fds s \<and> max_fd s' = max_fd s
     \<and> fdselector.more s' = fdselector.more s \<and> slave_r s' = slave_r s \<and> slave_w s' = slave_w s
     \<and> resolution_jobs s' = resolution_jobs s
     \<and> master_r s' = master_r s - {item_fd it} \<union>
         {x. x = item_fd it \<and> ITEM_USED it \<and> wants (item_interest it) OP_READ}
     \<and> master_w s' = master_w s - {item_fd it} \<union>
         {x. x = item_fd it \<and> ITEM_USED it \<and> wants (item_interest it) OP_WRITE})"
  using assms by (auto simp: items_update_fdset_for_fd_def Let_def)

lemma selector_set_interest_registered:
  assumes wf: "selector_wf s" and reg: "registered s fd = Some (i0, h, d)"
  shows "returns (selector_set_interest fd i s) (\<lambda>(ret, s'). ret = SELECTOR_SUCCESS
           \<and> selector_wf s' \<and> registered s' = (registered s)(fd \<mapsto> (i, h, d)) \<and> sel_frame s s')"
proof -
  note fd = registeredD [OF wf reg]
  let ?it = "(fds s ! nat fd)\<lparr>item_interest := i\<rparr>"
  let ?s1 = "s\<lparr>fds := (fds s)[nat fd := ?it]\<rparr>"
  have it: "ITEM_USED ?it" "item_fd ?it = fd" "item_handler ?it = Some h" "\<not> INVALID_FD (item_fd ?it)"
    using fd by (simp_all add: ITEM_USED_def)
  obtain s2 where s2: "items_update_fdset_for_fd ?it ?s1 = Inr s2"
    and f: "fds s2 = (fds s)[nat fd := ?it]" "max_fd s2 = max_fd s" "sel_frame s s2"
    and m: "master_r s2 = master_r s - {fd} \<union> {x. x = fd \<and> ITEM_USED ?it \<and> wants (item_interest ?it) OP_READ}"
      "master_w s2 = master_w s - {fd} \<union> {x. x = fd \<and> ITEM_USED ?it \<and> wants (item_interest ?it) OP_WRITE}"
    by (rule returnsE [OF items_update_fdset_for_fd_returns [OF it(4), of ?s1]])
      (rule that, assumption, simp_all add: sel_frame_def it)
  have r: "registered s2 = (registered s)(fd \<mapsto> (i, h, d))"
    using registered_update [OF fd(1,3) f(1)] it fd by simp
  then have "dom (registered s2) = dom (registered s)" using reg by auto
  then have "selector_wf s2"
    using fd it f wf by (intro selector_wf_put [OF wf _ _ _ f(1) _ _ _ m]) (simp_all add: selector_wf_def)
  then show ?thesis
    using fd s2 r f(3) by (simp add: selector_set_interest_def Let_def)
qed

lemma selector_set_interest_unregistered:
  assumes "selector_wf s" "registered s fd = None" "length (fds s) \<ge> FD_SETSIZE"
  shows "selector_set_interest fd i s = Inr (SELECTOR_IARGS, s)"
  using assms by (auto simp: selector_set_interest_def INVALID_FD_def registered_def split: if_splits)

lemma selector_set_interest_key_eq [simp]:
  "selector_set_interest_key key i s = selector_set_interest (key_fd key) i s"
  by (simp add: selector_set_interest_key_def selector_set_interest_def)

lemma selector_register_new:
  assumes wf: "selector_wf s" and fd: "\<not> INVALID_FD fd" "nat fd < length (fds s)"
    and free: "registered s fd = None"
  shows "returns (selector_register ok junk fd (Some h) i d s) (\<lambda>(ret, s'). ret = SELECTOR_SUCCESS
           \<and> selector_wf s' \<and> registered s' = (registered s)(fd \<mapsto> (i, h, d)) \<and> sel_frame s s')"
proof -
  have fd': "0 \<le> fd" "fd < int FD_SETSIZE" using fd(1) by (simp_all add: INVALID_FD_def)
  have unused: "\<not> ITEM_USED (fds s ! nat fd)"
    using free fd' fd(2) by (simp add: registered_def split: if_splits)
  let ?it = "\<lparr>item_fd = fd, item_interest = i, item_handler = Some h, item_data = d\<rparr>"
  let ?s1 = "s\<lparr>fds := (fds s)[nat fd := ?it], max_fd := (if fd > max_fd s then fd else max_fd s)\<rparr>"
  have it: "ITEM_USED ?it" "\<not> INVALID_FD (item_fd ?it)"
    using fd' fd(1) by (simp_all add: ITEM_USED_def FD_UNUSED_def)
  obtain s2 where s2: "items_update_fdset_for_fd ?it ?s1 = Inr s2"
    and f: "fds s2 = (fds s)[nat fd := ?it]"
      "max_fd s2 = (if fd > max_fd s then fd else max_fd s)" "sel_frame s s2"
    and m: "master_r s2 = master_r s - {fd} \<union> {x. x = fd \<and> ITEM_USED ?it \<and> wants (item_interest ?it) OP_READ}"
      "master_w s2 = master_w s - {fd} \<union> {x. x = fd \<and> ITEM_USED ?it \<and> wants (item_interest ?it) OP_WRITE}"
    by (rule returnsE [OF items_update_fdset_for_fd_returns [OF it(2), of ?s1]])
      (rule that, assumption, simp_all add: sel_frame_def)
  have r: "registered s2 = (registered s)(fd \<mapsto> (i, h, d))"
    using registered_update [OF fd'(1) fd(2) f(1)] it by simp
  have "max_fd s2 = Max (insert 0 (dom (registered s2)))"
  proof -
    have "insert 0 (dom (registered s2)) = insert fd (insert 0 (dom (registered s)))"
      by (auto simp: r)
    then have "Max (insert 0 (dom (registered s2))) = max fd (Max (insert 0 (dom (registered s))))"
      using finite_registered [of s] by simp
    then show ?thesis using f(2) wf by (simp add: selector_wf_def max_def)
  qed
  then have "selector_wf s2"
    using fd' fd it f by (intro selector_wf_put [OF wf _ _ _ f(1) _ _ _ m]) simp_all
  then show ?thesis
    using fd s2 r f(3) unused by (simp add: selector_register_def Let_def)
qed

lemma selector_register_used:
  assumes "\<not> INVALID_FD fd" "registered s fd \<noteq> None"
  shows "selector_register ok junk fd (Some h) i d s = Inr (SELECTOR_FDINUSE, s)"
  using assms by (auto simp: selector_register_def registered_def Let_def split: if_splits)

lemma selector_register_invalid:
  "INVALID_FD fd \<Longrightarrow> selector_register ok junk fd h i d s = Inr (SELECTOR_IARGS, s)"
  by (simp add: selector_register_def)

text \<open>
  Unregistering. The callback may change everything, the selector included; what it must keep
  is the invariant and the registration of the descriptor it is called for.
\<close>

lemma selector_wf_max:
  assumes "selector_wf s"
  shows "0 \<le> max_fd s" "max_fd s < int (length (fds s))" "fd \<in> dom (registered s) \<Longrightarrow> fd \<le> max_fd s"
proof -
  have m: "max_fd s = Max (insert 0 (dom (registered s)))" and lt: "max_fd s < int (length (fds s))"
    using assms unfolding selector_wf_def by blast+
  show "0 \<le> max_fd s" "fd \<in> dom (registered s) \<Longrightarrow> fd \<le> max_fd s"
    unfolding m using finite_registered [of s] by (simp_all add: Max_ge)
  show "max_fd s < int (length (fds s))" by (rule lt)
qed

lemma items_wf_max:
  assumes wf: "selector_wf s" and fds: "fds s' = (fds s)[n := it]" and unused: "\<not> ITEM_USED it"
    and max: "max_fd s' = max_fd s"
  shows "items_max_fd s' = Inr (Max (insert 0 (dom (registered s'))))"
proof (rule items_max_fd_Max)
  fix i assume i: "i < length (fds s')" "ITEM_USED (fds s' ! i)"
  then have "i \<noteq> n" using unused by (auto simp: fds)
  with i show "item_fd (fds s' ! i) = int i" using selector_wf_item [OF wf, of i] by (simp add: fds)
next
  have "dom (registered s') \<subseteq> dom (registered s)"
    using unused
    by (auto simp: fds registered_def split: if_splits) (metis nth_list_update_eq nth_list_update_neq)
  then show "\<And>x. x \<in> dom (registered s') \<Longrightarrow> x \<le> max_fd s'"
    using selector_wf_max(3) [OF wf] by (metis max subsetD)
  show "0 \<le> max_fd s'" "max_fd s' < int (length (fds s'))"
    using selector_wf_max(1,2) [OF wf] by (simp_all add: max fds)
qed

text \<open>What \<open>selector_unregister_fd\<close> does after the callback, as one function.\<close>

definition selector_clear :: "int \<Rightarrow> ('h, 'd, 'z) fdselector_scheme \<Rightarrow> ('h, 'd, 'z) fdselector_scheme result" where
  "selector_clear fd s =
     bindE (array_get (fds s) (nat fd)) (\<lambda>it.
     let it' = it\<lparr>item_interest := OP_NOOP\<rparr>;
         s = s\<lparr>fds := (fds s)[nat fd := it']\<rparr>
     in bindE (items_update_fdset_for_fd it' s) (\<lambda>s.
        let s = s\<lparr>fds := (fds s)[nat fd := item_init zero_item]\<rparr>
        in bindE (items_max_fd s) (\<lambda>m. Inr (s\<lparr>max_fd := m\<rparr>))))"

lemma selector_clear_registered:
  assumes wf: "selector_wf s" and reg: "registered s fd \<noteq> None"
  shows "returns (selector_clear fd s)
           (\<lambda>s'. selector_wf s' \<and> registered s' = (registered s)(fd := None) \<and> sel_frame s s')"
proof -
  from reg obtain i h d where reg': "registered s fd = Some (i, h, d)" by (cases "registered s fd") auto
  note fd = registeredD [OF wf reg']
  let ?it = "(fds s ! nat fd)\<lparr>item_interest := OP_NOOP\<rparr>"
  let ?s1 = "s\<lparr>fds := (fds s)[nat fd := ?it]\<rparr>"
  have it: "\<not> INVALID_FD (item_fd ?it)" "item_fd ?it = fd" using fd by simp_all
  obtain s2 where s2: "items_update_fdset_for_fd ?it ?s1 = Inr s2"
    and f: "fds s2 = (fds s)[nat fd := ?it]" "max_fd s2 = max_fd s" "sel_frame s s2"
    and m: "master_r s2 = master_r s - {fd}" "master_w s2 = master_w s - {fd}"
    by (rule returnsE [OF items_update_fdset_for_fd_returns [OF it(1), of ?s1]])
      (rule that, assumption, simp_all add: sel_frame_def it)
  let ?blank = "item_init zero_item :: ('a, 'b) item"
  let ?s3 = "s2\<lparr>fds := (fds s2)[nat fd := ?blank]\<rparr>"
  have blank: "\<not> ITEM_USED ?blank" "item_interest ?blank = OP_NOOP"
    by (simp_all add: item_init_def zero_item_def OP_NOOP_def ITEM_USED_def)
  have f3: "fds ?s3 = (fds s)[nat fd := ?blank]" using f(1) by simp
  have max: "items_max_fd ?s3 = Inr (Max (insert 0 (dom (registered ?s3))))"
    using items_wf_max [OF wf f3 blank(1)] f(2) by simp
  define s4 where "s4 = ?s3\<lparr>max_fd := Max (insert 0 (dom (registered ?s3)))\<rparr>"
  have f4: "fds s4 = (fds s)[nat fd := ?blank]" using f3 by (simp add: s4_def)
  have r: "registered s4 = (registered s)(fd := None)"
    using registered_update [OF fd(1,3) f4] blank by simp
  have "registered ?s3 = registered s4" by (rule ext) (simp add: s4_def registered_def)
  then have "max_fd s4 = Max (insert 0 (dom (registered s4)))" by (simp add: s4_def)
  then have "selector_wf s4"
    using fd blank m by (intro selector_wf_put [OF wf _ _ _ f4]) (auto simp: s4_def)
  moreover have "sel_frame s s4" using f(1,3) by (simp add: s4_def sel_frame_def)
  moreover have "selector_clear fd s = Inr s4"
    using fd s2 max by (simp add: selector_clear_def s4_def Let_def)
  ultimately show ?thesis using r by simp
qed

lemma selector_unregister_fd_eq:
  assumes "selector_wf s" "registered s fd = Some (i, h, d)"
  shows "selector_unregister_fd close_cb fd s =
    bindE (case close_cb h of None \<Rightarrow> Inr s | Some cb \<Rightarrow> cb \<lparr>key_fd = fd, key_data = d\<rparr> s) (\<lambda>s.
    bindE (selector_clear fd s) (\<lambda>s. Inr (SELECTOR_SUCCESS, s)))"
  using registeredD [OF assms]
  by (cases "close_cb h") (simp_all add: selector_unregister_fd_def selector_clear_def Let_def bindE_assoc)

lemma selector_unregister_fd_unused:
  assumes "registered s fd = None" "length (fds s) \<ge> FD_SETSIZE"
  shows "selector_unregister_fd close_cb fd s = Inr (SELECTOR_IARGS, s)"
  using assms by (auto simp: selector_unregister_fd_def INVALID_FD_def registered_def split: if_splits)

end
