(* ===== verification/Metrics.thy ===== *)
theory Metrics
  imports Prelude
begin

text \<open>
  \<^verbatim>\<open>src/src/server/metrics.c\<close>: the counters of the server, \<open>uint64_t\<close> each, so that they wrap
  around; the static variable \<open>current_metrics\<close> is passed and returned.
\<close>

record server_metrics =
  historical_connections :: "64 word"
  concurrent_connections :: "64 word"
  successful_connections :: "64 word"
  failed_connections :: "64 word"
  bytes_client_to_target :: "64 word"
  bytes_target_to_client :: "64 word"

definition zero_metrics :: server_metrics where
  "zero_metrics = \<lparr>historical_connections = 0, concurrent_connections = 0,
     successful_connections = 0, failed_connections = 0, bytes_client_to_target = 0,
     bytes_target_to_client = 0\<rparr>"

definition metrics_connection_opened :: "server_metrics \<Rightarrow> server_metrics" where
  "metrics_connection_opened m = m\<lparr>historical_connections := historical_connections m + 1,
     concurrent_connections := concurrent_connections m + 1\<rparr>"

definition metrics_connection_closed :: "server_metrics \<Rightarrow> server_metrics" where
  "metrics_connection_closed m =
     (if concurrent_connections m > 0
      then m\<lparr>concurrent_connections := concurrent_connections m - 1\<rparr> else m)"

definition metrics_connection_succeeded :: "server_metrics \<Rightarrow> server_metrics" where
  "metrics_connection_succeeded m = m\<lparr>successful_connections := successful_connections m + 1\<rparr>"

definition metrics_connection_failed :: "server_metrics \<Rightarrow> server_metrics" where
  "metrics_connection_failed m = m\<lparr>failed_connections := failed_connections m + 1\<rparr>"

definition metrics_add_client_to_target_bytes :: "64 word \<Rightarrow> server_metrics \<Rightarrow> server_metrics" where
  "metrics_add_client_to_target_bytes n m =
     m\<lparr>bytes_client_to_target := bytes_client_to_target m + n\<rparr>"

definition metrics_add_target_to_client_bytes :: "64 word \<Rightarrow> server_metrics \<Rightarrow> server_metrics" where
  "metrics_add_target_to_client_bytes n m =
     m\<lparr>bytes_target_to_client := bytes_target_to_client m + n\<rparr>"

text \<open>The argument is a pointer, \<open>None\<close> for NULL.\<close>

definition metrics_total_transferred_bytes :: "server_metrics option \<Rightarrow> 64 word" where
  "metrics_total_transferred_bytes metrics =
     (case metrics of None \<Rightarrow> 0
      | Some m \<Rightarrow> bytes_client_to_target m + bytes_target_to_client m)"

lemmas metrics_defs = metrics_connection_opened_def metrics_connection_closed_def
  metrics_connection_succeeded_def metrics_connection_failed_def
  metrics_add_client_to_target_bytes_def metrics_add_target_to_client_bytes_def

end
