(* ===== verification/Users.thy ===== *)
theory Users
  imports Prelude
begin

text \<open>
  \<^verbatim>\<open>src/src/server/users.c\<close>: the table of at most ten users, the static array
  \<open>managed_users\<close>, passed and returned. A user's name and password are arrays of 256 bytes
  read as C strings; a \<open>const char *\<close> argument is the byte list it points to, read as a C
  string, \<open>None\<close> for NULL.

  \<open>users_wf\<close> is the invariant of the table and \<open>users_map\<close> its abstract value, the map from
  user names to passwords; the locale \<open>credential_store\<close> is what authentication and
  management rely on.
\<close>

section \<open>Data and operations\<close>

definition USERS_MAX :: nat where "USERS_MAX = 10"
definition USERS_FIELD_MAX :: nat where "USERS_FIELD_MAX = 255"

record managed_user =
  mu_username :: "byte list"
  mu_password :: "byte list"
  in_use :: bool

datatype users_result =
    USERS_RESULT_OK | USERS_RESULT_EXISTS | USERS_RESULT_NOT_FOUND
  | USERS_RESULT_FULL | USERS_RESULT_INVALID

definition zero_user :: managed_user where
  "zero_user = \<lparr>mu_username = replicate (USERS_FIELD_MAX + 1) 0,
                mu_password = replicate (USERS_FIELD_MAX + 1) 0, in_use = False\<rparr>"

definition zero_users :: "managed_user list" where
  "zero_users = replicate USERS_MAX zero_user"

definition field_is_valid :: "byte list option \<Rightarrow> bool" where
  "field_is_valid field =
     (case field of None \<Rightarrow> False
      | Some s \<Rightarrow> 0 < length (cstr s) \<and> length (cstr s) \<le> USERS_FIELD_MAX)"

fun find_index_from :: "(managed_user \<Rightarrow> bool) \<Rightarrow> nat \<Rightarrow> managed_user list \<Rightarrow> int" where
  "find_index_from P i [] = -1"
| "find_index_from P i (u # us) = (if P u then int i else find_index_from P (Suc i) us)"

definition find_user_index :: "byte list \<Rightarrow> managed_user list \<Rightarrow> int" where
  "find_user_index username us =
     find_index_from (\<lambda>u. in_use u \<and> cstr (mu_username u) = cstr username) 0 us"

definition find_free_index :: "managed_user list \<Rightarrow> int" where
  "find_free_index us = find_index_from (\<lambda>u. \<not> in_use u) 0 us"

definition users_count :: "managed_user list \<Rightarrow> nat" where
  "users_count us = length (filter in_use us)"

definition users_are_configured :: "managed_user list \<Rightarrow> bool" where
  "users_are_configured us \<longleftrightarrow> users_count us > 0"

text \<open>A pointer with its length is the list of the bytes it covers.\<close>

fun users_credentials_are_valid :: "byte list \<Rightarrow> byte list \<Rightarrow> managed_user list \<Rightarrow> bool" where
  "users_credentials_are_valid username password [] = False"
| "users_credentials_are_valid username password (u # us) =
     (if \<not> in_use u then users_credentials_are_valid username password us
      else if length (cstr (mu_username u)) = length username
           \<and> length (cstr (mu_password u)) = length password
           \<and> take (length username) (mu_username u) = username
           \<and> take (length password) (mu_password u) = password
      then True
      else users_credentials_are_valid username password us)"

definition users_add ::
  "byte list option \<Rightarrow> byte list option \<Rightarrow> managed_user list
     \<Rightarrow> (users_result \<times> managed_user list) result" where
  "users_add username password us =
     (if \<not> field_is_valid username \<or> \<not> field_is_valid password then Inr (USERS_RESULT_INVALID, us)
      else if find_user_index (the username) us \<noteq> -1 then Inr (USERS_RESULT_EXISTS, us)
      else
        let index = find_free_index us in
        if index = -1 then Inr (USERS_RESULT_FULL, us)
        else
          bindE (array_get us (nat index)) (\<lambda>u.
          bindE (c_snprintf (mu_username u) 0 (length (mu_username u)) (cstr (the username))) (\<lambda>n.
          bindE (c_snprintf (mu_password u) 0 (length (mu_password u)) (cstr (the password))) (\<lambda>p.
          Inr (USERS_RESULT_OK,
            us[nat index := u\<lparr>mu_username := n, mu_password := p, in_use := True\<rparr>])))))"

definition users_remove ::
  "byte list option \<Rightarrow> managed_user list \<Rightarrow> (users_result \<times> managed_user list) result" where
  "users_remove username us =
     (if \<not> field_is_valid username then Inr (USERS_RESULT_INVALID, us)
      else
        let index = find_user_index (the username) us in
        if index = -1 then Inr (USERS_RESULT_NOT_FOUND, us)
        else bindE (array_put us (nat index) zero_user) (\<lambda>us'. Inr (USERS_RESULT_OK, us')))"

text \<open>
  \<open>users_init_from_args\<close>: the table is cleared, then the first \<open>count\<close> entries are added; what
  \<open>users_add\<close> returns is dropped. \<open>initial_users\<close> is NULL or the array of (name, password).
\<close>

fun add_each ::
  "(byte list option \<times> byte list option) list \<Rightarrow> managed_user list \<Rightarrow> managed_user list result" where
  "add_each [] us = Inr us"
| "add_each ((name, pass) # rest) us =
     bindE (users_add name pass us) (\<lambda>(ret, us'). add_each rest us')"

definition users_init_from_args ::
  "(byte list option \<times> byte list option) list option \<Rightarrow> nat \<Rightarrow> managed_user list result" where
  "users_init_from_args initial_users count =
     (case initial_users of
        None \<Rightarrow> Inr zero_users
      | Some entries \<Rightarrow>
          if min count USERS_MAX \<le> length entries
          then add_each (take (min count USERS_MAX) entries) zero_users
          else Inl OutOfBounds)"

fun format_users :: "managed_user list \<Rightarrow> nat \<Rightarrow> nat \<Rightarrow> byte list \<Rightarrow> byte list result" where
  "format_users [] buffer_size written buffer = Inr buffer"
| "format_users (u # us) buffer_size written buffer =
     (if written < buffer_size then
        if \<not> in_use u then format_users us buffer_size written buffer
        else
          let line = bytes ''user='' @ cstr (mu_username u) @ [10] in
          bindE (c_snprintf buffer written (buffer_size - written) line) (\<lambda>buffer.
          format_users us buffer_size (written + length line) buffer)
      else Inr buffer)"

definition users_format_list :: "byte list \<Rightarrow> nat \<Rightarrow> managed_user list \<Rightarrow> byte list result" where
  "users_format_list buffer buffer_size us =
     (if buffer_size = 0 then Inr buffer
      else
        let line = bytes ''users_count='' @ dec (users_count us) @ [10] in
        bindE (c_snprintf buffer 0 buffer_size line) (\<lambda>buffer.
        format_users us buffer_size (length line) buffer))"

fun users_result_name :: "users_result \<Rightarrow> string" where
  "users_result_name USERS_RESULT_OK = ''ok''"
| "users_result_name USERS_RESULT_EXISTS = ''exists''"
| "users_result_name USERS_RESULT_NOT_FOUND = ''not_found''"
| "users_result_name USERS_RESULT_FULL = ''full''"
| "users_result_name USERS_RESULT_INVALID = ''invalid''"

section \<open>The invariant and the abstract value\<close>

definition user_wf :: "managed_user \<Rightarrow> bool" where
  "user_wf u \<longleftrightarrow> length (mu_username u) = USERS_FIELD_MAX + 1
     \<and> length (mu_password u) = USERS_FIELD_MAX + 1
     \<and> terminated (mu_username u) \<and> terminated (mu_password u)
     \<and> (in_use u \<longrightarrow> cstr (mu_username u) \<noteq> [] \<and> cstr (mu_password u) \<noteq> [])"

definition user_names :: "managed_user list \<Rightarrow> byte list list" where
  "user_names us = map (\<lambda>u. cstr (mu_username u)) (filter in_use us)"

definition users_wf :: "managed_user list \<Rightarrow> bool" where
  "users_wf us \<longleftrightarrow> length us = USERS_MAX \<and> (\<forall>u \<in> set us. user_wf u) \<and> distinct (user_names us)"

definition users_map :: "managed_user list \<Rightarrow> byte list \<Rightarrow> byte list option" where
  "users_map us = map_of (map (\<lambda>u. (cstr (mu_username u), cstr (mu_password u))) (filter in_use us))"

lemma find_index_from_none: "find_index_from P k us = -1 \<longleftrightarrow> (\<forall>u \<in> set us. \<not> P u)"
  by (induction us arbitrary: k) auto

lemma find_index_from_some:
  "find_index_from P k us \<noteq> -1 \<Longrightarrow>
     \<exists>i. find_index_from P k us = int (k + i) \<and> i < length us \<and> P (us ! i)"
proof (induction us arbitrary: k)
  case Nil
  then show ?case by simp
next
  case (Cons u us)
  show ?case
  proof (cases "P u")
    case True
    then show ?thesis by (intro exI [of _ 0]) simp
  next
    case False
    with Cons.prems have "find_index_from P (Suc k) us \<noteq> -1" by simp
    from Cons.IH [OF this] obtain i where
      "find_index_from P (Suc k) us = int (Suc k + i)" "i < length us" "P (us ! i)" by blast
    with False show ?thesis by (intro exI [of _ "Suc i"]) simp
  qed
qed

lemma find_user_index_none:
  "find_user_index n us = -1 \<longleftrightarrow> cstr n \<notin> set (user_names us)"
  by (force simp: find_user_index_def find_index_from_none user_names_def)

lemma dom_users_map: "dom (users_map us) = set (user_names us)"
  by (force simp: users_map_def user_names_def dom_map_of_conv_image_fst)

lemma users_count_card: "users_wf us \<Longrightarrow> users_count us = card (dom (users_map us))"
  by (metis dom_users_map distinct_card length_map user_names_def users_count_def users_wf_def)

lemma users_count_le: "users_wf us \<Longrightarrow> users_count us \<le> USERS_MAX"
  unfolding users_count_def users_wf_def by (metis length_filter_le)

lemma find_free_index_full:
  assumes "users_wf us"
  shows "find_free_index us = -1 \<longleftrightarrow> card (dom (users_map us)) = USERS_MAX"
proof -
  have "find_free_index us = -1 \<longleftrightarrow> filter in_use us = us"
    by (auto simp: find_free_index_def find_index_from_none filter_id_conv)
  also have "\<dots> \<longleftrightarrow> length (filter in_use us) = length us"
    by (metis length_filter_less filter_id_conv nat_neq_iff)
  finally show ?thesis
    using users_count_card [OF assms] assms by (simp add: users_count_def users_wf_def)
qed

lemma credentials_iff:
  "users_credentials_are_valid n p us \<longleftrightarrow>
     (\<exists>u \<in> set us. in_use u \<and> cstr (mu_username u) = n \<and> cstr (mu_password u) = p)"
  by (induction us) (auto, (metis take_length_cstr)+)

lemma credentials_users_map:
  assumes "users_wf us"
  shows "users_credentials_are_valid n p us \<longleftrightarrow> users_map us n = Some p"
proof -
  let ?entries = "map (\<lambda>u. (cstr (mu_username u), cstr (mu_password u))) (filter in_use us)"
  have "map fst ?entries = user_names us" by (simp add: user_names_def)
  with assms have "distinct (map fst ?entries)" by (simp add: users_wf_def)
  then have "users_map us n = Some p \<longleftrightarrow> (n, p) \<in> set ?entries"
    by (simp only: users_map_def map_of_eq_Some_iff)
  then show ?thesis by (auto simp: credentials_iff)
qed

lemma users_map_split:
  assumes "i < length us"
  shows "filter in_use us = filter in_use (take i us) @ (if in_use (us ! i) then [us ! i] else [])
           @ filter in_use (drop (Suc i) us)"
    and "filter in_use (us[i := v]) = filter in_use (take i us) @ (if in_use v then [v] else [])
           @ filter in_use (drop (Suc i) us)"
proof -
  have "us = take i us @ us ! i # drop (Suc i) us" using assms by (rule id_take_nth_drop)
  then have "filter in_use us = filter in_use (take i us @ us ! i # drop (Suc i) us)" by simp
  then show "filter in_use us = filter in_use (take i us) @ (if in_use (us ! i) then [us ! i] else [])
           @ filter in_use (drop (Suc i) us)" by simp
  show "filter in_use (us[i := v]) = filter in_use (take i us) @ (if in_use v then [v] else [])
           @ filter in_use (drop (Suc i) us)"
    using assms by (simp add: upd_conv_take_nth_drop)
qed

lemma user_wf_zero: "user_wf zero_user \<and> \<not> in_use zero_user"
  by (simp add: user_wf_def zero_user_def terminated_def)

lemma users_wf_zero [simp]: "users_wf zero_users" "users_map zero_users = Map.empty"
  using user_wf_zero by (auto simp: users_wf_def zero_users_def users_map_def user_names_def)

text \<open>A free slot filled with a new name adds one entry; a slot cleared takes its entry away.\<close>

lemma users_fill:
  assumes wf: "users_wf us" and i: "i < length us" "\<not> in_use (us ! i)"
    and v: "user_wf v" "in_use v" "cstr (mu_username v) \<notin> set (user_names us)"
  shows "users_wf (us[i := v])"
    and "users_map (us[i := v]) = (users_map us)(cstr (mu_username v) \<mapsto> cstr (mu_password v))"
proof -
  let ?A = "filter in_use (take i us)" and ?B = "filter in_use (drop (Suc i) us)"
  have f: "filter in_use us = ?A @ ?B" "filter in_use (us[i := v]) = ?A @ v # ?B"
    using users_map_split(1) [OF i(1)] users_map_split(2) [OF i(1), of v] i(2) v(2) by auto
  have "distinct (user_names (us[i := v]))"
    using wf v(3) by (auto simp: users_wf_def user_names_def f)
  moreover have "\<forall>u \<in> set (us[i := v]). user_wf u"
    using wf v(1) by (auto simp: users_wf_def dest: set_update_subset_insert [THEN subsetD])
  ultimately show "users_wf (us[i := v])"
    using wf by (simp add: users_wf_def)
  have "cstr (mu_username v) \<notin> (\<lambda>u. cstr (mu_username u)) ` set ?A"
    using v(3) by (auto simp: user_names_def f)
  then have none: "map_of (map (\<lambda>u. (cstr (mu_username u), cstr (mu_password u))) ?A) (cstr (mu_username v)) = None"
    by (force simp: map_of_eq_None_iff)
  show "users_map (us[i := v]) = (users_map us)(cstr (mu_username v) \<mapsto> cstr (mu_password v))"
    unfolding users_map_def f
    by (rule ext) (simp add: map_add_def none split: option.splits)
qed

lemma users_clear:
  assumes wf: "users_wf us" and i: "i < length us" "in_use (us ! i)"
  shows "users_wf (us[i := zero_user])"
    and "users_map (us[i := zero_user]) = (users_map us)(cstr (mu_username (us ! i)) := None)"
proof -
  let ?A = "filter in_use (take i us)" and ?B = "filter in_use (drop (Suc i) us)"
  have f: "filter in_use us = ?A @ us ! i # ?B" "filter in_use (us[i := zero_user]) = ?A @ ?B"
    using users_map_split(1) [OF i(1)] users_map_split(2) [OF i(1), of zero_user] i(2) user_wf_zero by auto
  have d: "distinct (user_names us)" using wf by (simp add: users_wf_def)
  then have "distinct (user_names (us[i := zero_user]))" by (auto simp: user_names_def f)
  moreover have "\<forall>u \<in> set (us[i := zero_user]). user_wf u"
    using wf user_wf_zero by (auto simp: users_wf_def dest: set_update_subset_insert [THEN subsetD])
  ultimately show "users_wf (us[i := zero_user])"
    using wf by (simp add: users_wf_def)
  let ?e = "\<lambda>u. (cstr (mu_username u), cstr (mu_password u))"
  have "map_of (map ?e ?A) (cstr (mu_username (us ! i))) = None"
    "map_of (map ?e ?B) (cstr (mu_username (us ! i))) = None"
    using d by (auto simp: map_of_eq_None_iff user_names_def f image_iff)
  then show "users_map (us[i := zero_user]) = (users_map us)(cstr (mu_username (us ! i)) := None)"
    unfolding users_map_def f
    by (intro ext) (auto simp: map_add_def split: option.splits)
qed

section \<open>Refinement of a map of credentials\<close>

type_synonym credentials = "byte list \<Rightarrow> byte list option"

definition store_add ::
  "byte list option \<Rightarrow> byte list option \<Rightarrow> credentials \<Rightarrow> users_result \<times> credentials" where
  "store_add name pass m =
     (if \<not> field_is_valid name \<or> \<not> field_is_valid pass then (USERS_RESULT_INVALID, m)
      else if m (cstr (the name)) \<noteq> None then (USERS_RESULT_EXISTS, m)
      else if card (dom m) = USERS_MAX then (USERS_RESULT_FULL, m)
      else (USERS_RESULT_OK, m(cstr (the name) \<mapsto> cstr (the pass))))"

definition store_remove :: "byte list option \<Rightarrow> credentials \<Rightarrow> users_result \<times> credentials" where
  "store_remove name m =
     (if \<not> field_is_valid name then (USERS_RESULT_INVALID, m)
      else if m (cstr (the name)) = None then (USERS_RESULT_NOT_FOUND, m)
      else (USERS_RESULT_OK, m(cstr (the name) := None)))"

text \<open>\<open>snprintf\<close> of a valid field into its array stores the whole field.\<close>

lemma snprintf_field:
  assumes "length arr = USERS_FIELD_MAX + 1" "field_is_valid (Some f)"
  shows "returns (c_snprintf arr 0 (length arr) (cstr f))
           (\<lambda>a. length a = USERS_FIELD_MAX + 1 \<and> terminated a \<and> cstr a = cstr f)"
proof -
  have len: "length (cstr f) \<le> USERS_FIELD_MAX" using assms(2) by (simp add: field_is_valid_def)
  then have "returns (c_snprintf arr 0 (length arr) (cstr f)) (\<lambda>a. length a = length arr)"
    using assms(1) by (intro returns_mono [OF returns_c_snprintf]) auto
  moreover have "returns (c_snprintf arr 0 (length arr) (cstr f)) (\<lambda>a. cstr a = cstr f)"
    using assms(1) len c_snprintf_string [of "length arr" arr "cstr f"] by simp
  ultimately show ?thesis
    using assms(1) len by (auto simp: returns_iff intro!: terminatedI)
qed

lemma users_add_store:
  assumes wf: "users_wf us"
  shows "returns (users_add name pass us)
           (\<lambda>(r, us'). users_wf us' \<and> (r, users_map us') = store_add name pass (users_map us))"
proof -
  have card: "find_free_index us = -1 \<longleftrightarrow> card (dom (users_map us)) = USERS_MAX"
    by (rule find_free_index_full [OF wf])
  have mem: "\<And>n. find_user_index n us = -1 \<longleftrightarrow> users_map us (cstr n) = None"
    using dom_users_map [of us] by (auto simp: find_user_index_none domIff)
  show ?thesis
  proof (cases "field_is_valid name \<and> field_is_valid pass
      \<and> find_user_index (the name) us = -1 \<and> find_free_index us \<noteq> -1")
    case False
    then show ?thesis using wf by (auto simp: users_add_def store_add_def card mem Let_def)
  next
    case True
    then obtain n p where np: "name = Some n" "pass = Some p"
      by (cases name; cases pass) (auto simp: field_is_valid_def)
    from True obtain i where i: "find_free_index us = int i" "i < length us" "\<not> in_use (us ! i)"
      unfolding find_free_index_def by (metis find_index_from_some add_0)
    have u: "length (mu_username (us ! i)) = USERS_FIELD_MAX + 1"
        "length (mu_password (us ! i)) = USERS_FIELD_MAX + 1"
      using wf i(2) by (auto simp: users_wf_def user_wf_def)
    obtain a where a: "c_snprintf (mu_username (us ! i)) 0 (length (mu_username (us ! i))) (cstr n) = Inr a"
        "length a = USERS_FIELD_MAX + 1" "terminated a" "cstr a = cstr n"
      using snprintf_field [OF u(1)] True np by (auto elim!: returnsE)
    obtain b where b: "c_snprintf (mu_password (us ! i)) 0 (length (mu_password (us ! i))) (cstr p) = Inr b"
        "length b = USERS_FIELD_MAX + 1" "terminated b" "cstr b = cstr p"
      using snprintf_field [OF u(2)] True np by (auto elim!: returnsE)
    let ?v = "(us ! i)\<lparr>mu_username := a, mu_password := b, in_use := True\<rparr>"
    have "user_wf ?v" "in_use ?v" "cstr (mu_username ?v) \<notin> set (user_names us)"
      using True np a b by (auto simp: user_wf_def field_is_valid_def find_user_index_none)
    from users_fill [OF wf i(2,3) this] show ?thesis
      using True np a b i card mem
      by (simp add: users_add_def store_add_def Let_def)
  qed
qed

lemma users_remove_store:
  assumes wf: "users_wf us"
  shows "returns (users_remove name us)
           (\<lambda>(r, us'). users_wf us' \<and> (r, users_map us') = store_remove name (users_map us))"
proof -
  have mem: "\<And>n. find_user_index n us = -1 \<longleftrightarrow> users_map us (cstr n) = None"
    using dom_users_map [of us] by (auto simp: find_user_index_none domIff)
  show ?thesis
  proof (cases "field_is_valid name \<and> find_user_index (the name) us \<noteq> -1")
    case False
    then show ?thesis using wf by (auto simp: users_remove_def store_remove_def mem Let_def)
  next
    case True
    then obtain i where i: "find_user_index (the name) us = int i" "i < length us"
        "in_use (us ! i)" "cstr (mu_username (us ! i)) = cstr (the name)"
      unfolding find_user_index_def by (metis (mono_tags, lifting) find_index_from_some add_0)
    have "users_map us (cstr (the name)) \<noteq> None" using mem [of "the name"] True by simp
    with users_clear [OF wf i(2,3)] show ?thesis
      using True i by (simp add: users_remove_def store_remove_def Let_def)
  qed
qed

section \<open>The contract of a credential store\<close>

datatype store_op = Add_User "byte list option" "byte list option" | Remove_User "byte list option"

text \<open>A sequence of additions and removals, as the management channel issues them.\<close>

fun users_run ::
  "(byte list option \<Rightarrow> byte list option \<Rightarrow> 's \<Rightarrow> (users_result \<times> 's) result)
     \<Rightarrow> (byte list option \<Rightarrow> 's \<Rightarrow> (users_result \<times> 's) result)
     \<Rightarrow> store_op list \<Rightarrow> 's \<Rightarrow> (users_result list \<times> 's) result" where
  "users_run add remove [] s = Inr ([], s)"
| "users_run add remove (op # ops) s =
     bindE (case op of Add_User n p \<Rightarrow> add n p s | Remove_User n \<Rightarrow> remove n s) (\<lambda>(r, s).
     bindE (users_run add remove ops s) (\<lambda>(rs, s). Inr (r # rs, s)))"

fun store_run :: "store_op list \<Rightarrow> credentials \<Rightarrow> users_result list \<times> credentials" where
  "store_run [] m = ([], m)"
| "store_run (op # ops) m =
     (let (r, m) = (case op of Add_User n p \<Rightarrow> store_add n p m | Remove_User n \<Rightarrow> store_remove n m);
          (rs, m) = store_run ops m
      in (r # rs, m))"

locale credential_store =
  fixes wf :: "'s \<Rightarrow> bool"
    and creds :: "'s \<Rightarrow> credentials"
    and add :: "byte list option \<Rightarrow> byte list option \<Rightarrow> 's \<Rightarrow> (users_result \<times> 's) result"
    and remove :: "byte list option \<Rightarrow> 's \<Rightarrow> (users_result \<times> 's) result"
    and check :: "byte list \<Rightarrow> byte list \<Rightarrow> 's \<Rightarrow> bool"
  assumes add_law: "wf s \<Longrightarrow> returns (add n p s) (\<lambda>(r, s'). wf s' \<and> (r, creds s') = store_add n p (creds s))"
    and remove_law: "wf s \<Longrightarrow> returns (remove n s) (\<lambda>(r, s'). wf s' \<and> (r, creds s') = store_remove n (creds s))"
    and check_law: "wf s \<Longrightarrow> check u q s \<longleftrightarrow> creds s u = Some q"
begin

lemma add_check:
  assumes "wf s" "add (Some n) (Some p) s = Inr (USERS_RESULT_OK, s')"
  shows "check (cstr n) (cstr p) s'"
    and "n' \<noteq> cstr n \<Longrightarrow> check n' p' s' \<longleftrightarrow> check n' p' s"
  using add_law [OF assms(1), of "Some n" "Some p"] assms
  by (auto simp: check_law store_add_def split: if_splits)

lemma run_refines:
  "wf s \<Longrightarrow> returns (users_run add remove ops s)
     (\<lambda>(rs, s'). wf s' \<and> (rs, creds s') = store_run ops (creds s))"
proof (induction ops arbitrary: s)
  case Nil
  then show ?case by simp
next
  case (Cons op ops)
  obtain r s' where op: "(case op of Add_User n p \<Rightarrow> add n p s | Remove_User n \<Rightarrow> remove n s) = Inr (r, s')"
      "wf s'"
      "(case op of Add_User n p \<Rightarrow> store_add n p (creds s) | Remove_User n \<Rightarrow> store_remove n (creds s))
         = (r, creds s')"
    using add_law [OF Cons.prems] remove_law [OF Cons.prems] by (cases op) (fastforce simp: returns_iff)+
  from Cons.IH [OF op(2)] show ?case
    by (auto simp: op returns_iff split: prod.splits)
qed

lemma remove_check:
  assumes "wf s" "remove (Some n) s = Inr (USERS_RESULT_OK, s')"
  shows "\<not> check (cstr n) p s'"
    and "n' \<noteq> cstr n \<Longrightarrow> check n' p' s' \<longleftrightarrow> check n' p' s"
  using remove_law [OF assms(1), of "Some n"] assms
  by (auto simp: check_law store_remove_def split: if_splits)

end

interpretation user_table: credential_store users_wf users_map users_add users_remove users_credentials_are_valid
  by unfold_locales (use users_add_store users_remove_store credentials_users_map in blast)+

section \<open>The listing\<close>

definition users_lines :: "managed_user list \<Rightarrow> byte list" where
  "users_lines us = concat (map (\<lambda>u. bytes ''user='' @ cstr (mu_username u) @ [10]) (filter in_use us))"

definition users_listing :: "managed_user list \<Rightarrow> byte list" where
  "users_listing us = bytes ''users_count='' @ dec (users_count us) @ [10] @ users_lines us"

lemma format_users_listing:
  assumes "0 < sz" "sz \<le> length buf" "0 \<notin> set p" "cstr buf = take (sz - 1) p"
  shows "returns (format_users us sz (length p) buf)
           (\<lambda>b. length b = length buf \<and> cstr b = take (sz - 1) (p @ users_lines us))"
  using assms
proof (induction us arbitrary: p buf)
  case Nil
  then show ?case by (simp add: users_lines_def)
next
  case (Cons u us)
  let ?line = "bytes ''user='' @ cstr (mu_username u) @ [10]"
  have line: "0 \<notin> set ?line" by (simp add: bytes_def)
  consider "sz \<le> length p" | "length p < sz" "\<not> in_use u" | "length p < sz" "in_use u" by linarith
  then show ?case
  proof cases
    case 1
    then show ?thesis using Cons.prems by simp
  next
    case 2
    then show ?thesis using Cons.IH [OF Cons.prems] by (simp add: users_lines_def)
  next
    case 3
    then have "cstr buf = p" using Cons.prems by simp
    then obtain b where b: "c_snprintf buf (length p) (sz - length p) ?line = Inr b"
        "length b = length buf" "cstr b = take (sz - 1) (p @ ?line)"
      using c_snprintf_append [OF _ 3(1) Cons.prems(2) line] by (auto elim!: returnsE)
    have "returns (format_users us sz (length (p @ ?line)) b)
        (\<lambda>c. length c = length b \<and> cstr c = take (sz - 1) ((p @ ?line) @ users_lines us))"
      using Cons.prems b line by (intro Cons.IH) auto
    then show ?thesis
      using 3 b by (simp add: users_lines_def Let_def add.assoc)
  qed
qed

lemma users_format_list_listing:
  assumes "0 < sz" "sz \<le> length buf"
  shows "returns (users_format_list buf sz us)
           (\<lambda>b. length b = length buf \<and> cstr b = take (sz - 1) (users_listing us))"
proof -
  let ?line = "bytes ''users_count='' @ dec (users_count us) @ [10]"
  have line: "0 \<notin> set ?line" by (simp add: bytes_def)
  obtain b where b: "c_snprintf buf 0 sz ?line = Inr b" "cstr b = take (sz - 1) ?line" "length b = length buf"
    using c_snprintf_string [OF assms line] returns_c_snprintf [of 0 sz buf ?line] assms
    by (auto simp: returns_iff)
  show ?thesis
    using format_users_listing [of sz b ?line us] assms b line
    by (simp add: users_format_list_def users_listing_def Let_def)
qed

lemma configured_iff: "users_wf us \<Longrightarrow> users_are_configured us \<longleftrightarrow> users_map us \<noteq> Map.empty"
  by (simp add: users_are_configured_def users_count_card card_gt_0_iff users_map_def finite_dom_map_of)

section \<open>Properties\<close>

text \<open>
  C12. The user table implements a map of credentials: any sequence of additions and removals,
  from any well-formed table, never leaves its arrays, returns for each operation the result
  the map prescribes (invalid, exists, full, not found or ok, tested in that order) and ends in
  a well-formed table whose entries are the map's.
\<close>

theorem users_refine_map:
  assumes "users_wf us"
  shows "returns (users_run users_add users_remove ops us)
           (\<lambda>(rs, us'). users_wf us' \<and> (rs, users_map us') = store_run ops (users_map us))"
  using assms by (rule user_table.run_refines)

theorem users_refine_map_witness:
  "returns (users_run users_add users_remove
       [Add_User (Some [97]) (Some [115]), Add_User (Some [97]) (Some [116]), Remove_User (Some [98])] zero_users)
     (\<lambda>(rs, us'). rs = [USERS_RESULT_OK, USERS_RESULT_EXISTS, USERS_RESULT_NOT_FOUND])"
  by (rule returns_mono [OF users_refine_map [OF users_wf_zero(1)]])
    (auto simp: store_add_def store_remove_def field_is_valid_def USERS_FIELD_MAX_def USERS_MAX_def)

text \<open>
  C24. Authentication is exact: a well-formed table accepts a name and a password, given with
  their lengths, if and only if the password is the one stored for exactly that name, so that
  no prefix, no extension and no embedded NUL is accepted.
\<close>

theorem credentials_exact:
  assumes "users_wf us"
  shows "(users_credentials_are_valid n p us \<longleftrightarrow> users_map us n = Some p)
    \<and> (users_credentials_are_valid n p us \<longrightarrow> 0 \<notin> set n \<and> 0 \<notin> set p \<and> n \<noteq> [] \<and> p \<noteq> []
           \<and> length n \<le> USERS_FIELD_MAX \<and> length p \<le> USERS_FIELD_MAX)"
proof (intro conjI impI)
  show "users_credentials_are_valid n p us \<longleftrightarrow> users_map us n = Some p"
    by (rule credentials_users_map [OF assms])
  assume "users_credentials_are_valid n p us"
  then obtain u where u: "u \<in> set us" "in_use u" "cstr (mu_username u) = n" "cstr (mu_password u) = p"
    by (auto simp: credentials_iff)
  with assms have wf: "user_wf u" by (simp add: users_wf_def)
  then show "length n \<le> USERS_FIELD_MAX" "length p \<le> USERS_FIELD_MAX"
    using length_cstr_terminated [of "mu_username u"] length_cstr_terminated [of "mu_password u"] u
    by (simp_all add: user_wf_def)
  show "0 \<notin> set n" "0 \<notin> set p" "n \<noteq> []" "p \<noteq> []"
    using wf u by (auto simp: user_wf_def)
qed

theorem credentials_exact_witness:
  "\<exists>us. users_wf us \<and> users_credentials_are_valid [97] [115] us
     \<and> \<not> users_credentials_are_valid [97, 0] [115] us \<and> \<not> users_credentials_are_valid [97] [115, 115] us"
proof -
  have "store_add (Some [97]) (Some [115]) Map.empty = (USERS_RESULT_OK, [[97] \<mapsto> [115]])"
    by (simp add: store_add_def field_is_valid_def USERS_FIELD_MAX_def USERS_MAX_def)
  then obtain us where us: "users_wf us" "users_map us = [[97] \<mapsto> [115]]"
    using users_add_store [OF users_wf_zero(1), of "Some [97]" "Some [115]"] by (auto simp: returns_iff)
  show ?thesis
    using us credentials_exact [OF us(1), of "[97]" "[115]"] credentials_exact [OF us(1), of "[97, 0]" "[115]"]
      credentials_exact [OF us(1), of "[97]" "[115, 115]"]
    by (intro exI [of _ us]) simp
qed

text \<open>
  The listing of the management channel: into a buffer of \<open>size\<close> bytes the table is
  printed as the count and one line per user in table order, cut at \<open>size - 1\<close> bytes and
  always terminated; nothing is written past the buffer.
\<close>

theorem users_listing_truncated:
  assumes "0 < sz" "sz \<le> length buf"
  shows "returns (users_format_list buf sz us)
           (\<lambda>b. length b = length buf \<and> cstr b = take (sz - 1) (users_listing us))"
  using assms by (rule users_format_list_listing)

theorem users_listing_truncated_witness:
  "returns (users_format_list (replicate 8 0) 8 zero_users) (\<lambda>b. cstr b = bytes ''users_c'')"
  by (rule returns_mono [OF users_listing_truncated])
    (auto simp: users_listing_def bytes_def)

text \<open>
  Users given on the command line that \<open>users_add\<close> rejects are dropped without a word: with
  one \<open>-u name:\<close> entry whose password is empty the table stays empty, so that the server
  runs without authentication.
\<close>

theorem empty_password_disables_auth:
  "returns (users_init_from_args (Some [(Some name, Some [])]) 1)
     (\<lambda>us. us = zero_users \<and> \<not> users_are_configured us)"
  by (simp add: users_init_from_args_def USERS_MAX_def users_add_def field_is_valid_def
      users_are_configured_def users_count_def zero_users_def zero_user_def)

end
