(* ===== verification/Socks5.thy ===== *)
theory Socks5
  imports Prelude
begin

text \<open>
  \<^verbatim>\<open>src/src/server/socks5.c\<close> and \<^verbatim>\<open>socks5.h\<close>: the messages of RFC 1928 and RFC 1929 the proxy
  reads and writes. A \<open>uint8_t *buffer\<close> is the array it points to; every read of it is
  checked against the array, and \<open>len\<close> is how many of its bytes have been received. The
  written replies return the buffer with \<open>*len\<close> and \<open>*off\<close>.

  \<open>encode_request\<close> is the wire format of a CONNECT request, from the RFC; the parser is proved
  to accept exactly its encodings.
\<close>

section \<open>Constants\<close>

abbreviation (input) SOCKS5_VERSION :: byte where "SOCKS5_VERSION \<equiv> 0x05"
abbreviation (input) SOCKS5_METHOD_NO_AUTH :: byte where "SOCKS5_METHOD_NO_AUTH \<equiv> 0x00"
abbreviation (input) SOCKS5_METHOD_USERNAME_PASSWORD :: byte where "SOCKS5_METHOD_USERNAME_PASSWORD \<equiv> 0x02"
abbreviation (input) SOCKS5_METHOD_NO_ACCEPTABLE :: byte where "SOCKS5_METHOD_NO_ACCEPTABLE \<equiv> 0xFF"
abbreviation (input) SOCKS5_CMD_CONNECT :: byte where "SOCKS5_CMD_CONNECT \<equiv> 0x01"
abbreviation (input) SOCKS5_ATYP_IPV4 :: byte where "SOCKS5_ATYP_IPV4 \<equiv> 0x01"
abbreviation (input) SOCKS5_ATYP_DOMAIN :: byte where "SOCKS5_ATYP_DOMAIN \<equiv> 0x03"
abbreviation (input) SOCKS5_ATYP_IPV6 :: byte where "SOCKS5_ATYP_IPV6 \<equiv> 0x04"
abbreviation (input) SOCKS5_REPLY_SUCCESS :: byte where "SOCKS5_REPLY_SUCCESS \<equiv> 0x00"
abbreviation (input) SOCKS5_REPLY_GENERAL_FAILURE :: byte where "SOCKS5_REPLY_GENERAL_FAILURE \<equiv> 0x01"
abbreviation (input) SOCKS5_REPLY_NETWORK_UNREACHABLE :: byte where "SOCKS5_REPLY_NETWORK_UNREACHABLE \<equiv> 0x03"
abbreviation (input) SOCKS5_REPLY_HOST_UNREACHABLE :: byte where "SOCKS5_REPLY_HOST_UNREACHABLE \<equiv> 0x04"
abbreviation (input) SOCKS5_REPLY_CONNECTION_REFUSED :: byte where "SOCKS5_REPLY_CONNECTION_REFUSED \<equiv> 0x05"
abbreviation (input) SOCKS5_REPLY_TTL_EXPIRED :: byte where "SOCKS5_REPLY_TTL_EXPIRED \<equiv> 0x06"
abbreviation (input) SOCKS5_REPLY_COMMAND_NOT_SUPPORTED :: byte where
  "SOCKS5_REPLY_COMMAND_NOT_SUPPORTED \<equiv> 0x07"
abbreviation (input) SOCKS5_REPLY_ADDRESS_TYPE_NOT_SUPPORTED :: byte where
  "SOCKS5_REPLY_ADDRESS_TYPE_NOT_SUPPORTED \<equiv> 0x08"
abbreviation (input) SOCKS5_IPV4_REQUEST_SIZE :: nat where "SOCKS5_IPV4_REQUEST_SIZE \<equiv> 10"
abbreviation (input) SOCKS5_IPV6_REQUEST_SIZE :: nat where "SOCKS5_IPV6_REQUEST_SIZE \<equiv> 22"
abbreviation (input) SOCKS5_RESPONSE_SIZE :: nat where "SOCKS5_RESPONSE_SIZE \<equiv> 10"
abbreviation (input) SOCKS5_GREETING_RESPONSE_SIZE :: nat where "SOCKS5_GREETING_RESPONSE_SIZE \<equiv> 2"
abbreviation (input) SOCKS5_AUTH_VERSION :: byte where "SOCKS5_AUTH_VERSION \<equiv> 0x01"
abbreviation (input) SOCKS5_AUTH_RESPONSE_SIZE :: nat where "SOCKS5_AUTH_RESPONSE_SIZE \<equiv> 2"
abbreviation (input) SOCKS5_AUTH_SUCCESS :: byte where "SOCKS5_AUTH_SUCCESS \<equiv> 0x00"
abbreviation (input) SOCKS5_AUTH_FAILURE :: byte where "SOCKS5_AUTH_FAILURE \<equiv> 0x01"
abbreviation (input) SOCKS5_MAX_DOMAIN_LENGTH :: nat where "SOCKS5_MAX_DOMAIN_LENGTH \<equiv> 255"

section \<open>Addresses and requests\<close>

text \<open>
  A \<open>sockaddr_storage\<close>: cleared memory, or a \<open>sockaddr_in\<close> or \<open>sockaddr_in6\<close> with the bytes of
  the address and of the port as they lie in memory, in network order.
\<close>

datatype sockaddr =
    Sockaddr_Zero
  | Sockaddr_In "byte list" "byte list"
  | Sockaddr_In6 "byte list" "byte list"

record socks5_request =
  req_atyp :: byte
  req_port :: "16 word"
  req_host :: "byte list"
  req_addr :: sockaddr
  req_addr_len :: nat

definition htons :: "16 word \<Rightarrow> byte list" where
  "htons p = [ucast (drop_bit 8 p), ucast p]"

definition port_of :: "byte \<Rightarrow> byte \<Rightarrow> 16 word" where
  "port_of hi lo = push_bit 8 (ucast hi) OR ucast lo"

section \<open>Greeting and replies\<close>

fun socks5_client_offers_no_auth :: "byte list \<Rightarrow> bool" where
  "socks5_client_offers_no_auth [] = False"
| "socks5_client_offers_no_auth (m # ms) =
     (if m = SOCKS5_METHOD_NO_AUTH then True else socks5_client_offers_no_auth ms)"

fun socks5_client_offers_username_password :: "byte list \<Rightarrow> bool" where
  "socks5_client_offers_username_password [] = False"
| "socks5_client_offers_username_password (m # ms) =
     (if m = SOCKS5_METHOD_USERNAME_PASSWORD then True else socks5_client_offers_username_password ms)"

definition socks5_prepare_greeting_response :: "byte list \<Rightarrow> byte \<Rightarrow> (byte list \<times> nat \<times> nat) result" where
  "socks5_prepare_greeting_response buffer method =
     bindE (array_write buffer 0 [SOCKS5_VERSION, method]) (\<lambda>buffer.
     Inr (buffer, SOCKS5_GREETING_RESPONSE_SIZE, 0))"

definition socks5_prepare_request_response :: "byte list \<Rightarrow> byte \<Rightarrow> (byte list \<times> nat \<times> nat) result" where
  "socks5_prepare_request_response buffer reply =
     bindE (array_write buffer 0
              [SOCKS5_VERSION, reply, 0x00, SOCKS5_ATYP_IPV4,
               0x00, 0x00, 0x00, 0x00,
               0x00, 0x00]) (\<lambda>buffer.
     Inr (buffer, SOCKS5_RESPONSE_SIZE, 0))"

definition socks5_prepare_auth_response :: "byte list \<Rightarrow> byte \<Rightarrow> (byte list \<times> nat \<times> nat) result" where
  "socks5_prepare_auth_response buffer status =
     bindE (array_write buffer 0 [SOCKS5_AUTH_VERSION, status]) (\<lambda>buffer.
     Inr (buffer, SOCKS5_AUTH_RESPONSE_SIZE, 0))"

section \<open>Requests\<close>

definition socks5_request_is_incomplete :: "byte list \<Rightarrow> nat \<Rightarrow> bool result" where
  "socks5_request_is_incomplete buffer len =
     (if len < 4 then Inr True
      else
        bindE (array_get buffer 3) (\<lambda>atyp.
        if atyp = SOCKS5_ATYP_IPV4 then Inr (len < SOCKS5_IPV4_REQUEST_SIZE)
        else if atyp = SOCKS5_ATYP_IPV6 then Inr (len < SOCKS5_IPV6_REQUEST_SIZE)
        else if atyp = SOCKS5_ATYP_DOMAIN then
          (if len < 5 then Inr True
           else bindE (array_get buffer 4) (\<lambda>n. Inr (len < 5 + unat n + 2)))
        else Inr False))"

definition socks5_request_reply_for :: "byte list \<Rightarrow> nat \<Rightarrow> byte result" where
  "socks5_request_reply_for buffer len =
     (if len < 4 then Inr SOCKS5_REPLY_GENERAL_FAILURE
      else
        bindE (array_get buffer 0) (\<lambda>version.
        if version \<noteq> SOCKS5_VERSION then Inr SOCKS5_REPLY_GENERAL_FAILURE
        else
          bindE (array_get buffer 2) (\<lambda>reserved.
          if reserved \<noteq> 0x00 then Inr SOCKS5_REPLY_GENERAL_FAILURE
          else
            bindE (array_get buffer 1) (\<lambda>cmd.
            if cmd \<noteq> SOCKS5_CMD_CONNECT then Inr SOCKS5_REPLY_COMMAND_NOT_SUPPORTED
            else
              bindE (array_get buffer 3) (\<lambda>atyp.
              if atyp \<noteq> SOCKS5_ATYP_IPV4 \<and> atyp \<noteq> SOCKS5_ATYP_DOMAIN \<and> atyp \<noteq> SOCKS5_ATYP_IPV6
              then Inr SOCKS5_REPLY_ADDRESS_TYPE_NOT_SUPPORTED
              else
                bindE (socks5_request_is_incomplete buffer len) (\<lambda>incomplete.
                Inr (if incomplete then SOCKS5_REPLY_GENERAL_FAILURE else SOCKS5_REPLY_SUCCESS)))))))"

text \<open>\<open>None\<close> is the result \<open>false\<close>; \<open>request\<close> is never NULL where the proxy calls this.\<close>

definition socks5_parse_connect_request :: "byte list \<Rightarrow> nat \<Rightarrow> socks5_request option result" where
  "socks5_parse_connect_request buffer len =
     bindE (socks5_request_reply_for buffer len) (\<lambda>reply.
     if reply \<noteq> SOCKS5_REPLY_SUCCESS then Inr None
     else
       bindE (array_get buffer 3) (\<lambda>atyp.
       let request = \<lparr>req_atyp = atyp, req_port = 0,
                      req_host = replicate (SOCKS5_MAX_DOMAIN_LENGTH + 1) 0,
                      req_addr = Sockaddr_Zero, req_addr_len = 0\<rparr>
       in
         if atyp = SOCKS5_ATYP_IPV4 then
           bindE (array_get buffer 8) (\<lambda>hi.
           bindE (array_get buffer 9) (\<lambda>lo.
           bindE (array_read buffer 4 4) (\<lambda>a.
           Inr (Some (request\<lparr>req_port := port_of hi lo,
             req_addr := Sockaddr_In a (htons (port_of hi lo)), req_addr_len := 16\<rparr>)))))
         else if atyp = SOCKS5_ATYP_IPV6 then
           bindE (array_get buffer 20) (\<lambda>hi.
           bindE (array_get buffer 21) (\<lambda>lo.
           bindE (array_read buffer 4 16) (\<lambda>a.
           Inr (Some (request\<lparr>req_port := port_of hi lo,
             req_addr := Sockaddr_In6 a (htons (port_of hi lo)), req_addr_len := 28\<rparr>)))))
         else if atyp = SOCKS5_ATYP_DOMAIN then
           bindE (array_get buffer 4) (\<lambda>domain_len.
           if domain_len = 0 then Inr None
           else
             let port_index = 5 + unat domain_len in
             bindE (array_read buffer 5 (unat domain_len)) (\<lambda>name.
             bindE (array_write (req_host request) 0 name) (\<lambda>host.
             bindE (array_put host (unat domain_len) 0) (\<lambda>host.
             bindE (array_get buffer port_index) (\<lambda>hi.
             bindE (array_get buffer (port_index + 1)) (\<lambda>lo.
             Inr (Some (request\<lparr>req_host := host, req_port := port_of hi lo\<rparr>))))))))
         else Inr None))"

section \<open>The wire format\<close>

datatype destination = IPv4 "byte list" | IPv6 "byte list" | Domain "byte list"

fun destination_wf :: "destination \<Rightarrow> bool" where
  "destination_wf (IPv4 a) = (length a = 4)"
| "destination_wf (IPv6 a) = (length a = 16)"
| "destination_wf (Domain n) = (0 < length n \<and> length n \<le> SOCKS5_MAX_DOMAIN_LENGTH)"

fun encode_destination :: "destination \<Rightarrow> byte list" where
  "encode_destination (IPv4 a) = SOCKS5_ATYP_IPV4 # a"
| "encode_destination (IPv6 a) = SOCKS5_ATYP_IPV6 # a"
| "encode_destination (Domain n) = SOCKS5_ATYP_DOMAIN # of_nat (length n) # n"

definition encode_request :: "destination \<Rightarrow> 16 word \<Rightarrow> byte list" where
  "encode_request d p = [SOCKS5_VERSION, SOCKS5_CMD_CONNECT, 0x00] @ encode_destination d @ htons p"

fun request_of :: "destination \<Rightarrow> 16 word \<Rightarrow> socks5_request" where
  "request_of (IPv4 a) p = \<lparr>req_atyp = SOCKS5_ATYP_IPV4, req_port = p,
     req_host = replicate 256 0, req_addr = Sockaddr_In a (htons p), req_addr_len = 16\<rparr>"
| "request_of (IPv6 a) p = \<lparr>req_atyp = SOCKS5_ATYP_IPV6, req_port = p,
     req_host = replicate 256 0, req_addr = Sockaddr_In6 a (htons p), req_addr_len = 28\<rparr>"
| "request_of (Domain n) p = \<lparr>req_atyp = SOCKS5_ATYP_DOMAIN, req_port = p,
     req_host = n @ replicate (256 - length n) 0, req_addr = Sockaddr_Zero, req_addr_len = 0\<rparr>"

section \<open>Lemmas\<close>

lemma port_of_htons [simp]: "port_of (ucast (drop_bit 8 p)) (ucast p) = p"
  by (rule bit_eqI) (auto simp: port_of_def bit_simps)

lemma htons_port_of [simp]: "htons (port_of hi lo) = [hi, lo]"
  by (auto simp: htons_def port_of_def intro!: bit_eqI) (auto simp: bit_simps dest: bit_imp_le_length)

lemma length_htons [simp]: "length (htons p) = 2"
  by (simp add: htons_def)

text \<open>No request function reads a byte that has not been received.\<close>

lemma array_get_take: "i < n \<Longrightarrow> n \<le> length xs \<Longrightarrow> array_get (take n xs) i = Inr (xs ! i)"
  by (simp add: array_get_def)

lemma array_gets:
  assumes "4 \<le> len" "len \<le> length buf"
  shows "array_get buf 0 = Inr (buf ! 0)" "array_get buf 1 = Inr (buf ! 1)"
    "array_get buf (Suc 0) = Inr (buf ! Suc 0)" "array_get buf 2 = Inr (buf ! 2)"
    "array_get buf 3 = Inr (buf ! 3)"
proof -
  have "3 < length buf" using assms by simp
  then show "array_get buf 0 = Inr (buf ! 0)" "array_get buf 1 = Inr (buf ! 1)"
    "array_get buf (Suc 0) = Inr (buf ! Suc 0)" "array_get buf 2 = Inr (buf ! 2)"
    "array_get buf 3 = Inr (buf ! 3)" by (auto simp: array_get_def)
qed

definition incomplete :: "byte list \<Rightarrow> nat \<Rightarrow> bool" where
  "incomplete buf len =
     (if len < 4 then True
      else if buf ! 3 = SOCKS5_ATYP_IPV4 then len < 10
      else if buf ! 3 = SOCKS5_ATYP_IPV6 then len < 22
      else if buf ! 3 = SOCKS5_ATYP_DOMAIN then len < 5 \<or> len < 7 + unat (buf ! 4)
      else False)"

lemma incomplete_eq:
  assumes "len \<le> length buf"
  shows "socks5_request_is_incomplete buf len = Inr (incomplete buf len)"
proof (cases "len < 4")
  case True
  then show ?thesis by (simp add: socks5_request_is_incomplete_def incomplete_def)
next
  case False
  then have g: "array_get buf 3 = Inr (buf ! 3)" using array_gets [of len buf] assms by simp
  have "\<not> len < 5 \<Longrightarrow> array_get buf 4 = Inr (buf ! 4)" using assms by simp
  with False show ?thesis by (simp add: socks5_request_is_incomplete_def incomplete_def g)
qed

definition reply_for :: "byte list \<Rightarrow> nat \<Rightarrow> byte" where
  "reply_for buf len =
     (if len < 4 \<or> buf ! 0 \<noteq> SOCKS5_VERSION \<or> buf ! 2 \<noteq> 0 then SOCKS5_REPLY_GENERAL_FAILURE
      else if buf ! 1 \<noteq> SOCKS5_CMD_CONNECT then SOCKS5_REPLY_COMMAND_NOT_SUPPORTED
      else if buf ! 3 \<noteq> SOCKS5_ATYP_IPV4 \<and> buf ! 3 \<noteq> SOCKS5_ATYP_DOMAIN \<and> buf ! 3 \<noteq> SOCKS5_ATYP_IPV6
      then SOCKS5_REPLY_ADDRESS_TYPE_NOT_SUPPORTED
      else if incomplete buf len then SOCKS5_REPLY_GENERAL_FAILURE
      else SOCKS5_REPLY_SUCCESS)"

lemma reply_for_eq:
  assumes "len \<le> length buf"
  shows "socks5_request_reply_for buf len = Inr (reply_for buf len)"
proof (cases "len < 4")
  case True
  then show ?thesis by (simp add: socks5_request_reply_for_def reply_for_def)
next
  case False
  then show ?thesis
    using array_gets [of len buf] assms incomplete_eq [OF assms]
    by (simp add: socks5_request_reply_for_def reply_for_def)
qed

lemma reply_success:
  "reply_for buf len = SOCKS5_REPLY_SUCCESS \<longleftrightarrow>
     4 \<le> len \<and> buf ! 0 = SOCKS5_VERSION \<and> buf ! 1 = SOCKS5_CMD_CONNECT \<and> buf ! 2 = 0
     \<and> buf ! 3 \<in> {SOCKS5_ATYP_IPV4, SOCKS5_ATYP_DOMAIN, SOCKS5_ATYP_IPV6} \<and> \<not> incomplete buf len"
  by (auto simp: reply_for_def)

text \<open>What the parser reads, as a destination and a port.\<close>

definition decode :: "byte list \<Rightarrow> nat \<Rightarrow> (destination \<times> 16 word) option" where
  "decode buf len =
     (if reply_for buf len \<noteq> SOCKS5_REPLY_SUCCESS then None
      else if buf ! 3 = SOCKS5_ATYP_IPV4
      then Some (IPv4 (take 4 (drop 4 buf)), port_of (buf ! 8) (buf ! 9))
      else if buf ! 3 = SOCKS5_ATYP_IPV6
      then Some (IPv6 (take 16 (drop 4 buf)), port_of (buf ! 20) (buf ! 21))
      else if buf ! 4 = 0 then None
      else Some (Domain (take (unat (buf ! 4)) (drop 5 buf)),
                 port_of (buf ! (5 + unat (buf ! 4))) (buf ! (6 + unat (buf ! 4)))))"

lemma unat_byte_le: "unat (b :: byte) \<le> 255"
proof -
  have "unat b < 2 ^ LENGTH(8)" by (rule unsigned_less)
  then show ?thesis by simp
qed

lemma complete_len:
  assumes "\<not> incomplete buf len"
  shows "buf ! 3 = SOCKS5_ATYP_IPV4 \<Longrightarrow> 10 \<le> len" "buf ! 3 = SOCKS5_ATYP_IPV6 \<Longrightarrow> 22 \<le> len"
    "buf ! 3 = SOCKS5_ATYP_DOMAIN \<Longrightarrow> 7 + unat (buf ! 4) \<le> len"
  using assms by (auto simp: incomplete_def split: if_splits)

lemma parse_eq_decode:
  assumes "len \<le> length buf"
  shows "socks5_parse_connect_request buf len = Inr (map_option (\<lambda>(d, p). request_of d p) (decode buf len))"
proof (cases "reply_for buf len = SOCKS5_REPLY_SUCCESS")
  case False
  then show ?thesis by (simp add: socks5_parse_connect_request_def reply_for_eq [OF assms] decode_def)
next
  case True
  note s = True [unfolded reply_success]
  have g: "array_get buf 3 = Inr (buf ! 3)" using s array_gets [of len buf] assms by simp
  consider "buf ! 3 = SOCKS5_ATYP_IPV4" | "buf ! 3 = SOCKS5_ATYP_IPV6" | "buf ! 3 = SOCKS5_ATYP_DOMAIN"
    using s by auto
  then show ?thesis
  proof cases
    case 1
    with s have "10 \<le> len" using complete_len by blast
    with 1 True assms g show ?thesis
      by (simp add: socks5_parse_connect_request_def reply_for_eq decode_def)
  next
    case 2
    with s have "22 \<le> len" using complete_len by blast
    with 2 True assms g show ?thesis
      by (simp add: socks5_parse_connect_request_def reply_for_eq decode_def)
  next
    case 3
    let ?n = "unat (buf ! 4)"
    from 3 s have n: "7 + ?n \<le> length buf" using assms complete_len(3) order_trans by blast
    have le: "?n \<le> 255" by (rule unat_byte_le)
    have "length (take ?n (drop 5 buf)) = ?n" using n by simp
    then have "overwrite (replicate 256 0) 0 (take ?n (drop 5 buf)) = take ?n (drop 5 buf) @ replicate (256 - ?n) 0"
      by (simp add: overwrite_def)
    moreover have "(take ?n (drop 5 buf) @ replicate (256 - ?n) 0)[?n := 0]
        = take ?n (drop 5 buf) @ replicate (256 - ?n) (0 :: byte)"
    proof -
      have "256 - ?n = Suc (255 - ?n)" using le by simp
      then show ?thesis using n by (simp add: list_update_append)
    qed
    ultimately show ?thesis
      using 3 True n le assms g
      by (simp add: socks5_parse_connect_request_def reply_for_eq decode_def Let_def
          array_get_def array_read_def array_write_def array_put_def)
  qed
qed

lemma take_four: "4 \<le> length xs \<Longrightarrow> take 4 xs = [xs ! 0, xs ! 1, xs ! 2, xs ! 3]"
  by (rule nth_equalityI) (auto simp: numeral_eq_Suc less_Suc_eq)

lemma take_two_drop: "k + 2 \<le> length xs \<Longrightarrow> take 2 (drop k xs) = [xs ! k, xs ! (k + 1)]"
  by (rule nth_equalityI) (auto simp: numeral_eq_Suc less_Suc_eq)

lemma length_encode_request:
  "length (encode_request d p) = (case d of IPv4 a \<Rightarrow> 6 + length a | IPv6 a \<Rightarrow> 6 + length a
     | Domain n \<Rightarrow> 7 + length n)"
  by (cases d) (simp_all add: encode_request_def)

lemma prefix_header:
  assumes "4 \<le> length buf"
  shows "take (4 + n) buf = [buf ! 0, buf ! 1, buf ! 2, buf ! 3] @ take n (drop 4 buf)"
  using take_four [OF assms] take_add [of 4 n buf] by simp

lemma encode_of_decode:
  assumes len: "len \<le> length buf" and d: "decode buf len = Some (d, p)"
  shows "destination_wf d \<and> length (encode_request d p) \<le> len
    \<and> take (length (encode_request d p)) buf = encode_request d p"
proof -
  from d have s: "reply_for buf len = SOCKS5_REPLY_SUCCESS" by (simp add: decode_def split: if_splits)
  note h = s [unfolded reply_success]
  have four: "4 \<le> length buf" using h len by simp
  note head = prefix_header [OF four]
  consider "buf ! 3 = SOCKS5_ATYP_IPV4" | "buf ! 3 = SOCKS5_ATYP_IPV6"
    | "buf ! 3 = SOCKS5_ATYP_DOMAIN" "buf ! 3 \<noteq> SOCKS5_ATYP_IPV4" "buf ! 3 \<noteq> SOCKS5_ATYP_IPV6"
    using h by auto
  then show ?thesis
  proof cases
    case 1
    with h have n: "10 \<le> len" using complete_len by blast
    have dp: "d = IPv4 (take 4 (drop 4 buf))" "p = port_of (buf ! 8) (buf ! 9)"
      using d s 1 by (simp_all add: decode_def)
    have "take 6 (drop 4 buf) = take 4 (drop 4 buf) @ [buf ! 8, buf ! 9]"
      using take_add [of 4 2 "drop 4 buf"] take_two_drop [of 8 buf] n len by simp
    with head [of 6] h 1 n len show ?thesis by (simp add: dp encode_request_def)
  next
    case 2
    with h have n: "22 \<le> len" using complete_len by blast
    have dp: "d = IPv6 (take 16 (drop 4 buf))" "p = port_of (buf ! 20) (buf ! 21)"
      using d s 2 by (simp_all add: decode_def)
    have "take 18 (drop 4 buf) = take 16 (drop 4 buf) @ [buf ! 20, buf ! 21]"
      using take_add [of 16 2 "drop 4 buf"] take_two_drop [of 20 buf] n len by simp
    with head [of 18] h 2 n len show ?thesis by (simp add: dp encode_request_def)
  next
    case 3
    let ?n = "unat (buf ! 4)"
    from 3 h have n: "7 + ?n \<le> len" using complete_len(3) by blast
    have nz: "buf ! 4 \<noteq> 0" and dp: "d = Domain (take ?n (drop 5 buf))"
        "p = port_of (buf ! (5 + ?n)) (buf ! (6 + ?n))"
      using d s 3 by (simp_all add: decode_def split: if_splits)
    then have pos: "0 < ?n" by (simp add: unat_gt_0)
    have l: "length (take ?n (drop 5 buf)) = ?n" using n len by simp
    have "take (3 + ?n) (drop 4 buf) = take 1 (drop 4 buf) @ take ?n (drop 5 buf) @ take 2 (drop (5 + ?n) buf)"
    proof -
      have e: "3 + ?n = 1 + (?n + 2)" by simp
      show ?thesis unfolding e take_add drop_drop by (simp add: ac_simps)
    qed
    also have "take 1 (drop 4 buf) = [buf ! 4]"
      using n len by (simp add: take_Suc_conv_app_nth)
    also have "take 2 (drop (5 + ?n) buf) = [buf ! (5 + ?n), buf ! (6 + ?n)]"
      using take_two_drop [of "5 + ?n" buf] n len by simp
    finally have "take (7 + ?n) buf = encode_request d p"
      using head [of "3 + ?n"] h 3 l by (simp add: dp encode_request_def)
    moreover have "length (encode_request d p) = 7 + ?n" using l by (simp add: dp encode_request_def)
    ultimately show ?thesis using n pos l unat_byte_le [of "buf ! 4"] by (simp add: dp)
  qed
qed

lemma decode_of_encode:
  assumes len: "len \<le> length buf" and wf: "destination_wf d"
    and e: "length (encode_request d p) \<le> len"
      "take (length (encode_request d p)) buf = encode_request d p"
  shows "decode buf len = Some (d, p)"
proof -
  obtain rest where buf: "buf = encode_request d p @ rest"
    using e(2) by (metis append_take_drop_id)
  show ?thesis
  proof (cases d)
    case (IPv4 a)
    then have b: "buf = 5 # 1 # 0 # 1 # a @ htons p @ rest" and l: "length a = 4" "10 \<le> len"
      using buf wf e(1) by (simp_all add: encode_request_def)
    then have "buf ! 8 = ucast (drop_bit 8 p)" "buf ! 9 = ucast p" "take 4 (drop 4 buf) = a"
      by (simp_all add: b nth_append htons_def)
    with b l IPv4 show ?thesis by (simp add: decode_def reply_for_def incomplete_def)
  next
    case (IPv6 a)
    then have b: "buf = 5 # 1 # 0 # 4 # a @ htons p @ rest" and l: "length a = 16" "22 \<le> len"
      using buf wf e(1) by (simp_all add: encode_request_def)
    then have "buf ! 20 = ucast (drop_bit 8 p)" "buf ! 21 = ucast p" "take 16 (drop 4 buf) = a"
      by (simp_all add: b nth_append htons_def)
    with b l IPv6 show ?thesis by (simp add: decode_def reply_for_def incomplete_def)
  next
    case (Domain n)
    then have b: "buf = 5 # 1 # 0 # 3 # of_nat (length n) # n @ htons p @ rest"
      and l: "0 < length n" "length n \<le> 255" "7 + length n \<le> len"
      using buf wf e(1) by (simp_all add: encode_request_def)
    have u: "unat (of_nat (length n) :: byte) = length n" using l(2) by (simp add: unat_of_nat)
    then have nz: "(of_nat (length n) :: byte) \<noteq> 0" using l(1) by auto
    have "buf ! 4 = of_nat (length n)" "take (length n) (drop 5 buf) = n"
        "buf ! (5 + length n) = ucast (drop_bit 8 p)" "buf ! (6 + length n) = ucast p"
      by (simp_all add: b nth_append htons_def)
    with b l u nz Domain show ?thesis by (simp add: decode_def reply_for_def incomplete_def)
  qed
qed

lemma incomplete_bound: "incomplete buf len \<Longrightarrow> len < 262"
  using unat_byte_le [of "buf ! 4"] by (auto simp: incomplete_def split: if_splits)

lemma complete_stable:
  assumes "\<not> incomplete buf len" "len \<le> len'" "len' \<le> length buf"
  shows "\<not> incomplete buf len'" "reply_for buf len' = reply_for buf len" "decode buf len' = decode buf len"
proof -
  show i: "\<not> incomplete buf len'" using assms by (auto simp: incomplete_def split: if_splits)
  have "4 \<le> len" using assms(1) by (simp add: incomplete_def split: if_splits)
  then show r: "reply_for buf len' = reply_for buf len"
    using assms i by (simp add: reply_for_def)
  show "decode buf len' = decode buf len" by (simp add: decode_def r)
qed

lemma decode_take: "len \<le> length buf \<Longrightarrow> decode (take len buf) len = decode buf len"
proof -
  assume len: "len \<le> length buf"
  have l: "length (take len buf) = len" using len by simp
  have t: "take n (take len buf) = take n buf" if "n \<le> len" for n
    using that by (simp add: min_absorb1)
  show ?thesis
  proof (cases "decode buf len")
    case None
    have "False" if d: "decode (take len buf) len = Some (d, p)" for d p
    proof -
      have e: "destination_wf d" "length (encode_request d p) \<le> len"
        "take (length (encode_request d p)) (take len buf) = encode_request d p"
        using encode_of_decode [OF eq_imp_le [OF l [symmetric]] d] by blast+
      then have "take (length (encode_request d p)) buf = encode_request d p" by (simp add: t)
      with decode_of_encode [OF len e(1) e(2)] None show False by simp
    qed
    with None show ?thesis by (cases "decode (take len buf) len") auto
  next
    case (Some r)
    obtain d p where r: "r = (d, p)" by (cases r)
    have e: "destination_wf d" "length (encode_request d p) \<le> len"
      "take (length (encode_request d p)) buf = encode_request d p"
      using encode_of_decode [OF len, of d p] Some r by auto
    then have "take (length (encode_request d p)) (take len buf) = encode_request d p"
      by (simp add: t)
    with decode_of_encode [of len "take len buf" d p] e l Some r show ?thesis by simp
  qed
qed

section \<open>Properties\<close>

text \<open>
  C10. The request parser accepts exactly the wire format: on any buffer holding at least
  \<open>len\<close> bytes it reads nothing outside the array, and it returns a request if and only if the
  received bytes start with the encoding of an IPv4, IPv6 or non-empty domain destination and a
  port; the request it then returns holds that destination and port and nothing else.
\<close>

theorem parse_exact:
  assumes "len \<le> length buf"
  shows "(\<exists>r. socks5_parse_connect_request buf len = Inr r)
    \<and> (socks5_parse_connect_request buf len = Inr (Some req) \<longleftrightarrow>
        (\<exists>d p. destination_wf d \<and> req = request_of d p \<and> length (encode_request d p) \<le> len
          \<and> take (length (encode_request d p)) buf = encode_request d p))"
proof -
  have "decode buf len = Some (d, p) \<longleftrightarrow> destination_wf d \<and> length (encode_request d p) \<le> len
      \<and> take (length (encode_request d p)) buf = encode_request d p" for d p
    using encode_of_decode [OF assms] decode_of_encode [OF assms] by blast
  then show ?thesis by (auto simp: parse_eq_decode [OF assms])
qed

theorem parse_exact_witness:
  "socks5_parse_connect_request [5, 1, 0, 1, 127, 0, 0, 1, 114, 17, 99] 11
     = Inr (Some (request_of (IPv4 [127, 0, 0, 1]) 29201))"
proof -
  let ?buf = "[5, 1, 0, 1, 127, 0, 0, 1, 114, 17, 99] :: byte list"
  have "(11::nat) \<le> length ?buf" by simp
  then show ?thesis
    using parse_exact [of 11 ?buf "request_of (IPv4 [127, 0, 0, 1]) 29201"]
    by (auto simp: encode_request_def htons_def intro!: exI [of _ "IPv4 [127, 0, 0, 1]"] exI [of _ 29201])
qed

text \<open>
  C25. How a request is cut into segments does not matter: as soon as the bytes received so far
  are a complete request, its reply code and its parsed content are fixed, whatever follows in
  the buffer and however much of it has been received.
\<close>

theorem request_segmentation:
  assumes "len \<le> len'" "len' \<le> length buf" "socks5_request_is_incomplete buf len = Inr False"
  shows "socks5_request_is_incomplete buf len' = Inr False
    \<and> socks5_request_reply_for buf len' = socks5_request_reply_for buf len
    \<and> socks5_parse_connect_request buf len' = socks5_parse_connect_request buf len
    \<and> socks5_parse_connect_request (take len buf) len = socks5_parse_connect_request buf len"
proof -
  have len: "len \<le> length buf" using assms by simp
  then have "\<not> incomplete buf len" using assms(3) by (simp add: incomplete_eq)
  note st = complete_stable [OF this assms(1,2)]
  from st show ?thesis
    using assms(2) len by (simp add: incomplete_eq reply_for_eq parse_eq_decode decode_take)
qed

theorem request_segmentation_witness:
  "socks5_parse_connect_request [5, 1, 0, 1, 10, 0, 0, 1, 0, 80, 71, 69] 12
     = socks5_parse_connect_request [5, 1, 0, 1, 10, 0, 0, 1, 0, 80, 71, 69] 10"
  using request_segmentation [of 10 12 "[5, 1, 0, 1, 10, 0, 0, 1, 0, 80, 71, 69]"]
  by (simp add: socks5_request_is_incomplete_def array_get_def)

text \<open>
  C26. A request is never longer than 262 bytes: while the proxy waits for more bytes it has
  received fewer than that, so the 4096-byte receive buffer never fills up before a decision.
\<close>

theorem incomplete_request_bounded:
  assumes "len \<le> length buf" "socks5_request_is_incomplete buf len = Inr True"
  shows "len < 262"
  using assms incomplete_bound by (simp add: incomplete_eq)

theorem incomplete_request_bounded_witness:
  "socks5_request_is_incomplete [5, 1, 0, 3, 255] 5 = Inr True \<and> (5::nat) < 262"
  using incomplete_request_bounded [of 5 "[5, 1, 0, 3, 255]"]
  by (simp add: socks5_request_is_incomplete_def array_get_def)

end
