(* ===== verification/World.thy ===== *)
theory World
  imports Selector Metrics Users Socks5
begin

text \<open>
  The state of the server and its operating system. A session is the \<open>client_state_t\<close> of
  \<^verbatim>\<open>src/src/server/include/server.h\<close>; the sessions, the management sessions and the resolver
  jobs are heap objects, found by their address, so that a dereference after \<open>free\<close> is a
  fault. The world extends the selector's record with these heaps, the static variables of
  the server's files, \<open>errno\<close>, the resolver threads that are running, and a ghost record of
  the bytes the server received and sent, which no code reads.

  The operating system, the resolver and the clock are not part of the repository. They are a
  record of functions \<open>os\<close> over a state of their own, an argument of every definition that
  calls them; \<open>posix_ok\<close> states the documented behaviour the server relies on.
\<close>

section \<open>Sessions\<close>

definition SERVER_BUFFER_SIZE :: nat where "SERVER_BUFFER_SIZE = 4096"
definition CLIENT_USERNAME_MAX :: nat where "CLIENT_USERNAME_MAX = 255"
definition CLIENT_DESTINATION_MAX :: nat where "CLIENT_DESTINATION_MAX = 255"
definition MANAGEMENT_BUFFER_SIZE :: nat where "MANAGEMENT_BUFFER_SIZE = 1024"

datatype client_stage =
    CLIENT_STAGE_GREETING | CLIENT_STAGE_AUTH | CLIENT_STAGE_REQUEST | CLIENT_STAGE_RESOLVING
  | CLIENT_STAGE_CONNECTING | CLIENT_STAGE_RELAY | CLIENT_STAGE_CLOSING

record addrinfo =
  ai_family :: int
  ai_addr :: sockaddr
  ai_addrlen :: nat

text \<open>
  \<open>target_address_current\<close> points into the list \<open>target_addresses\<close>: it is the rest of that
  list, \<open>[]\<close> for NULL. \<open>resolver_job\<close> is the address of a job.
\<close>

record client_state =
  read_buffer :: "byte list"
  write_buffer :: "byte list"
  c2t_buffer :: "byte list"
  t2c_buffer :: "byte list"
  read_len :: nat
  write_len :: nat
  write_off :: nat
  c2t_len :: nat
  c2t_off :: nat
  t2c_len :: nat
  t2c_off :: nat
  client_fd :: int
  target_fd :: int
  target_addr :: sockaddr
  target_addr_len :: nat
  target_addresses :: "addrinfo list option"
  target_address_current :: "addrinfo list"
  resolver_job :: "nat option"
  last_connect_error :: int
  username :: "byte list"
  destination_host :: "byte list"
  destination_port :: "16 word"
  access_logged :: bool
  stage :: client_stage
  relay_started :: bool

text \<open>What \<open>calloc\<close> returns for a session.\<close>

definition zero_client_state :: client_state where
  "zero_client_state = \<lparr>
     read_buffer = replicate SERVER_BUFFER_SIZE 0, write_buffer = replicate SERVER_BUFFER_SIZE 0,
     c2t_buffer = replicate SERVER_BUFFER_SIZE 0, t2c_buffer = replicate SERVER_BUFFER_SIZE 0,
     read_len = 0, write_len = 0, write_off = 0, c2t_len = 0, c2t_off = 0, t2c_len = 0, t2c_off = 0,
     client_fd = 0, target_fd = 0, target_addr = Sockaddr_Zero, target_addr_len = 0,
     target_addresses = None, target_address_current = [], resolver_job = None,
     last_connect_error = 0, username = replicate (CLIENT_USERNAME_MAX + 1) 0,
     destination_host = replicate (CLIENT_DESTINATION_MAX + 1) 0, destination_port = 0,
     access_logged = False, stage = CLIENT_STAGE_GREETING, relay_started = False\<rparr>"

record management_state =
  mg_read_buffer :: "byte list"
  mg_write_buffer :: "byte list"
  mg_read_len :: nat
  mg_write_len :: nat
  mg_write_off :: nat

definition zero_management_state :: management_state where
  "zero_management_state = \<lparr>
     mg_read_buffer = replicate MANAGEMENT_BUFFER_SIZE 0,
     mg_write_buffer = replicate MANAGEMENT_BUFFER_SIZE 0,
     mg_read_len = 0, mg_write_len = 0, mg_write_off = 0\<rparr>"

record resolver_job =
  job_client_fd :: int
  job_state :: "nat option"
  job_host :: "byte list"
  job_port :: "byte list"
  job_result :: "addrinfo list option"
  job_status :: int
  job_done :: bool

section \<open>The operating system\<close>

text \<open>
  A call returns \<open>Inl\<close> of the \<open>errno\<close> or \<open>Inr\<close> of its result. \<open>os_recv\<close> returns the bytes,
  none at the end of the stream; \<open>os_send\<close> how many bytes it took; \<open>os_connect\<close> the \<open>errno\<close> or
  nothing; \<open>os_getaddrinfo\<close> the status and the list, \<open>None\<close> for NULL. \<open>os_backlog\<close> is how
  many connections \<open>accept\<close> still returns before it reports that it would block; \<open>os_realloc\<close>
  whether the selector's table can grow to a size, which the server's never has to. \<open>os_gmtime\<close>
  is the time of the clock as \<open>gmtime_r\<close> breaks it down, \<open>None\<close> when it fails.
\<close>

record tm =
  tm_sec :: int
  tm_min :: int
  tm_hour :: int
  tm_mday :: int
  tm_mon :: int
  tm_year :: int

record 'k os =
  os_recv :: "int \<Rightarrow> nat \<Rightarrow> 'k \<Rightarrow> (int + byte list) \<times> 'k"
  os_send :: "int \<Rightarrow> byte list \<Rightarrow> 'k \<Rightarrow> (int + nat) \<times> 'k"
  os_accept :: "int \<Rightarrow> 'k \<Rightarrow> (int + int) \<times> 'k"
  os_socket :: "int \<Rightarrow> 'k \<Rightarrow> (int + int) \<times> 'k"
  os_connect :: "int \<Rightarrow> sockaddr \<Rightarrow> nat \<Rightarrow> 'k \<Rightarrow> int option \<times> 'k"
  os_so_error :: "int \<Rightarrow> 'k \<Rightarrow> (int + int) \<times> 'k"
  os_getfl :: "int \<Rightarrow> 'k \<Rightarrow> (int + 32 word) \<times> 'k"
  os_setfl :: "int \<Rightarrow> 32 word \<Rightarrow> 'k \<Rightarrow> int option \<times> 'k"
  os_close :: "int \<Rightarrow> 'k \<Rightarrow> 'k"
  os_calloc :: "'k \<Rightarrow> bool \<times> 'k"
  os_realloc :: "nat \<Rightarrow> bool"
  os_mutex_init :: "'k \<Rightarrow> bool \<times> 'k"
  os_thread_create :: "'k \<Rightarrow> bool \<times> 'k"
  os_getaddrinfo :: "byte list \<Rightarrow> byte list \<Rightarrow> 'k \<Rightarrow> (int \<times> addrinfo list option) \<times> 'k"
  os_inet_ntop :: "int \<Rightarrow> byte list \<Rightarrow> byte list option"
  os_fopen :: "'k \<Rightarrow> bool \<times> 'k"
  os_gmtime :: "'k \<Rightarrow> tm option \<times> 'k"
  os_backlog :: "int \<Rightarrow> 'k \<Rightarrow> nat"

definition posix_ok :: "'k os \<Rightarrow> bool" where
  "posix_ok os \<longleftrightarrow>
     (\<forall>fd n k bs k'. os_recv os fd n k = (Inr bs, k') \<longrightarrow> length bs \<le> n)
   \<and> (\<forall>fd bs k n k'. os_send os fd bs k = (Inr n, k') \<longrightarrow> n \<le> length bs)
   \<and> (\<forall>af a t. os_inet_ntop os af a = Some t \<longrightarrow> length t < 46)
   \<and> (\<forall>fd k c k'. os_accept os fd k = (Inr c, k') \<longrightarrow> os_backlog os fd k' < os_backlog os fd k)
   \<and> (\<forall>fd c k. os_backlog os fd (snd (os_getfl os c k)) \<le> os_backlog os fd k)
   \<and> (\<forall>fd c fl k. os_backlog os fd (snd (os_setfl os c fl k)) \<le> os_backlog os fd k)
   \<and> (\<forall>fd c k. os_backlog os fd (os_close os c k) \<le> os_backlog os fd k)
   \<and> (\<forall>fd k. os_backlog os fd (snd (os_calloc os k)) \<le> os_backlog os fd k)"

lemma posix_recv: "posix_ok os \<Longrightarrow> os_recv os fd n k = (Inr bs, k') \<Longrightarrow> length bs \<le> n"
  unfolding posix_ok_def by metis

lemma posix_send: "posix_ok os \<Longrightarrow> os_send os fd bs k = (Inr n, k') \<Longrightarrow> n \<le> length bs"
  unfolding posix_ok_def by metis

lemma posix_ntop: "posix_ok os \<Longrightarrow> os_inet_ntop os af a = Some t \<Longrightarrow> length t < 46"
  unfolding posix_ok_def by metis

lemma posix_backlog:
  assumes "posix_ok os"
  shows "os_accept os fd k = (Inr c, k') \<Longrightarrow> os_backlog os fd k' < os_backlog os fd k"
    "os_backlog os fd (snd (os_getfl os c k)) \<le> os_backlog os fd k"
    "os_backlog os fd (snd (os_setfl os c fl k)) \<le> os_backlog os fd k"
    "os_backlog os fd (os_close os c k) \<le> os_backlog os fd k"
    "os_backlog os fd (snd (os_calloc os k)) \<le> os_backlog os fd k"
  using assms unfolding posix_ok_def by metis+

definition ENODATA :: int where "ENODATA = 61"
definition ENETUNREACH :: int where "ENETUNREACH = 101"
definition ETIMEDOUT :: int where "ETIMEDOUT = 110"
definition ECONNREFUSED :: int where "ECONNREFUSED = 111"
definition EHOSTDOWN :: int where "EHOSTDOWN = 112"
definition EHOSTUNREACH :: int where "EHOSTUNREACH = 113"
definition EINPROGRESS :: int where "EINPROGRESS = 115"
definition EAI_NONAME :: int where "EAI_NONAME = -2"
definition EAI_AGAIN :: int where "EAI_AGAIN = -3"
definition EAI_NODATA :: int where "EAI_NODATA = -5"
definition AF_INET :: int where "AF_INET = 2"
definition AF_INET6 :: int where "AF_INET6 = 10"
definition O_NONBLOCK :: "32 word" where "O_NONBLOCK = 0x800"

fun sa_family :: "sockaddr \<Rightarrow> int" where
  "sa_family Sockaddr_Zero = 0"
| "sa_family (Sockaddr_In a p) = AF_INET"
| "sa_family (Sockaddr_In6 a p) = AF_INET6"

text \<open>The members \<open>sin_addr\<close> and \<open>sin6_addr\<close> of whatever the storage holds.\<close>

fun sin_addr :: "sockaddr \<Rightarrow> byte list" where
  "sin_addr (Sockaddr_In a p) = a"
| "sin_addr _ = replicate 4 0"

fun sin6_addr :: "sockaddr \<Rightarrow> byte list" where
  "sin6_addr (Sockaddr_In6 a p) = a"
| "sin6_addr _ = replicate 16 0"

section \<open>The world\<close>

datatype handler =
    accept_handler | client_handler | target_handler
  | management_accept_handler | management_client_handler

text \<open>What a \<open>void *data\<close> points to.\<close>

datatype ref = ClientRef nat | MgmtRef nat

text \<open>
  Where a resolver thread stands: in \<open>getaddrinfo\<close>, or behind its critical section and about
  to notify the selector of a descriptor.
\<close>

datatype thread = Resolving | Notifying int

text \<open>
  The ghost record of the bytes that went through a socket call, each chunk with its channel:
  the four ends of a session's relay, and everything else.
\<close>

datatype channel = FromClient nat | ToTarget nat | FromTarget nat | ToClient nat | Other

definition relay_channel :: "(nat \<Rightarrow> channel) \<Rightarrow> ref option \<Rightarrow> channel" where
  "relay_channel ch data = (case data of Some (ClientRef c) \<Rightarrow> ch c | _ \<Rightarrow> Other)"

definition stream :: "channel \<Rightarrow> (channel \<times> byte list) list \<Rightarrow> byte list" where
  "stream ch evs = concat (map snd (filter (\<lambda>e. fst e = ch) evs))"

record 'k world = "(handler, ref) fdselector" +
  clients :: "nat \<Rightarrow> client_state option"
  mgmts :: "nat \<Rightarrow> management_state option"
  jobs :: "nat \<Rightarrow> resolver_job option"
  threads :: "nat \<Rightarrow> thread option"
  next_ref :: nat
  active_client_connections :: "64 word"
  current_metrics :: server_metrics
  managed_users :: "managed_user list"
  access_log :: "byte list list"
  errno :: int
  io :: "(channel \<times> byte list) list"
  kern :: 'k

section \<open>The heap\<close>

fun get_client :: "ref option \<Rightarrow> 'k world \<Rightarrow> client_state result" where
  "get_client None w = Inl NullCall"
| "get_client (Some (MgmtRef m)) w = Inl UseAfterFree"
| "get_client (Some (ClientRef c)) w =
     (case clients w c of None \<Rightarrow> Inl UseAfterFree | Some st \<Rightarrow> Inr st)"

fun put_client :: "ref option \<Rightarrow> client_state \<Rightarrow> 'k world \<Rightarrow> 'k world" where
  "put_client (Some (ClientRef c)) st w = w\<lparr>clients := (clients w)(c \<mapsto> st)\<rparr>"
| "put_client _ st w = w"

fun free_client :: "ref option \<Rightarrow> 'k world \<Rightarrow> 'k world" where
  "free_client (Some (ClientRef c)) w = w\<lparr>clients := (clients w)(c := None)\<rparr>"
| "free_client _ w = w"

definition alloc_client :: "client_state \<Rightarrow> 'k world \<Rightarrow> ref \<times> 'k world" where
  "alloc_client st w = (ClientRef (next_ref w),
     w\<lparr>clients := (clients w)(next_ref w \<mapsto> st), next_ref := next_ref w + 1\<rparr>)"

fun get_mgmt :: "ref option \<Rightarrow> 'k world \<Rightarrow> management_state result" where
  "get_mgmt None w = Inl NullCall"
| "get_mgmt (Some (ClientRef m)) w = Inl UseAfterFree"
| "get_mgmt (Some (MgmtRef m)) w =
     (case mgmts w m of None \<Rightarrow> Inl UseAfterFree | Some st \<Rightarrow> Inr st)"

fun put_mgmt :: "ref option \<Rightarrow> management_state \<Rightarrow> 'k world \<Rightarrow> 'k world" where
  "put_mgmt (Some (MgmtRef m)) st w = w\<lparr>mgmts := (mgmts w)(m \<mapsto> st)\<rparr>"
| "put_mgmt _ st w = w"

fun free_mgmt :: "ref option \<Rightarrow> 'k world \<Rightarrow> 'k world" where
  "free_mgmt (Some (MgmtRef m)) w = w\<lparr>mgmts := (mgmts w)(m := None)\<rparr>"
| "free_mgmt _ w = w"

definition alloc_mgmt :: "management_state \<Rightarrow> 'k world \<Rightarrow> ref \<times> 'k world" where
  "alloc_mgmt st w = (MgmtRef (next_ref w),
     w\<lparr>mgmts := (mgmts w)(next_ref w \<mapsto> st), next_ref := next_ref w + 1\<rparr>)"

definition get_job :: "nat \<Rightarrow> 'k world \<Rightarrow> resolver_job result" where
  "get_job j w = (case jobs w j of None \<Rightarrow> Inl UseAfterFree | Some job \<Rightarrow> Inr job)"

section \<open>System calls\<close>

text \<open>\<open>None\<close> is the result -1, with \<open>errno\<close> set. The channel only labels the ghost record.\<close>

definition sys_recv :: "'k os \<Rightarrow> int \<Rightarrow> nat \<Rightarrow> channel \<Rightarrow> 'k world \<Rightarrow> byte list option \<times> 'k world" where
  "sys_recv os fd n ch w =
     (case os_recv os fd n (kern w) of
        (Inl e, k) \<Rightarrow> (None, w\<lparr>errno := e, kern := k\<rparr>)
      | (Inr bs, k) \<Rightarrow> (Some bs, w\<lparr>kern := k, io := io w @ [(ch, bs)]\<rparr>))"

definition sys_send :: "'k os \<Rightarrow> int \<Rightarrow> byte list \<Rightarrow> channel \<Rightarrow> 'k world \<Rightarrow> nat option \<times> 'k world" where
  "sys_send os fd bs ch w =
     (case os_send os fd bs (kern w) of
        (Inl e, k) \<Rightarrow> (None, w\<lparr>errno := e, kern := k\<rparr>)
      | (Inr n, k) \<Rightarrow> (Some n, w\<lparr>kern := k, io := io w @ [(ch, take n bs)]\<rparr>))"

definition sys_accept :: "'k os \<Rightarrow> int \<Rightarrow> 'k world \<Rightarrow> int option \<times> 'k world" where
  "sys_accept os fd w =
     (case os_accept os fd (kern w) of
        (Inl e, k) \<Rightarrow> (None, w\<lparr>errno := e, kern := k\<rparr>)
      | (Inr c, k) \<Rightarrow> (Some c, w\<lparr>kern := k\<rparr>))"

definition sys_socket :: "'k os \<Rightarrow> int \<Rightarrow> 'k world \<Rightarrow> int option \<times> 'k world" where
  "sys_socket os family w =
     (case os_socket os family (kern w) of
        (Inl e, k) \<Rightarrow> (None, w\<lparr>errno := e, kern := k\<rparr>)
      | (Inr fd, k) \<Rightarrow> (Some fd, w\<lparr>kern := k\<rparr>))"

definition sys_connect :: "'k os \<Rightarrow> int \<Rightarrow> sockaddr \<Rightarrow> nat \<Rightarrow> 'k world \<Rightarrow> bool \<times> 'k world" where
  "sys_connect os fd addr len w =
     (case os_connect os fd addr len (kern w) of
        (Some e, k) \<Rightarrow> (False, w\<lparr>errno := e, kern := k\<rparr>)
      | (None, k) \<Rightarrow> (True, w\<lparr>kern := k\<rparr>))"

definition sys_so_error :: "'k os \<Rightarrow> int \<Rightarrow> 'k world \<Rightarrow> int option \<times> 'k world" where
  "sys_so_error os fd w =
     (case os_so_error os fd (kern w) of
        (Inl e, k) \<Rightarrow> (None, w\<lparr>errno := e, kern := k\<rparr>)
      | (Inr v, k) \<Rightarrow> (Some v, w\<lparr>kern := k\<rparr>))"

definition sys_close :: "'k os \<Rightarrow> int \<Rightarrow> 'k world \<Rightarrow> 'k world" where
  "sys_close os fd w = w\<lparr>kern := os_close os fd (kern w)\<rparr>"

definition ask :: "('k \<Rightarrow> 'a \<times> 'k) \<Rightarrow> 'k world \<Rightarrow> 'a \<times> 'k world" where
  "ask f w = (case f (kern w) of (x, k) \<Rightarrow> (x, w\<lparr>kern := k\<rparr>))"

text \<open>\<open>set_nonblocking\<close> of \<^verbatim>\<open>src/src/server/server.c\<close>; \<open>True\<close> unless it returns -1.\<close>

definition set_nonblocking :: "'k os \<Rightarrow> int \<Rightarrow> 'k world \<Rightarrow> bool \<times> 'k world" where
  "set_nonblocking os fd w =
     (case os_getfl os fd (kern w) of
        (Inl e, k) \<Rightarrow> (False, w\<lparr>errno := e, kern := k\<rparr>)
      | (Inr flags, k) \<Rightarrow>
          (case os_setfl os fd (flags OR O_NONBLOCK) k of
             (Some e, k) \<Rightarrow> (False, w\<lparr>errno := e, kern := k\<rparr>)
           | (None, k) \<Rightarrow> (True, w\<lparr>kern := k\<rparr>)))"

declare get_client.simps [simp del] put_client.simps [simp del]
declare get_mgmt.simps [simp del] put_mgmt.simps [simp del]

end
