(* ===== verification/Auth.thy ===== *)
theory Auth
  imports World
begin

text \<open>
  \<^verbatim>\<open>src/src/server/auth.c\<close>: the username and password sub-negotiation of RFC 1929.
  \<open>encode_auth\<close> is the wire format of the request; the parser is proved to decide it exactly
  as the table of users does.
\<close>

section \<open>Operations\<close>

definition auth_is_required :: "managed_user list \<Rightarrow> bool" where
  "auth_is_required us = users_are_configured us"

text \<open>What the call returns, \<open>*authenticated\<close> and the session.\<close>

definition auth_parse_request ::
  "client_state \<Rightarrow> managed_user list \<Rightarrow> (bool \<times> bool \<times> client_state) result" where
  "auth_parse_request state us =
     (if read_len state < 2 then Inr (False, False, state)
      else
        bindE (array_get (read_buffer state) 0) (\<lambda>version.
        if version \<noteq> SOCKS5_AUTH_VERSION then Inr (True, False, state)
        else
          bindE (array_get (read_buffer state) 1) (\<lambda>username_len.
          let password_len_index = 2 + unat username_len in
          if read_len state < password_len_index + 1 then Inr (False, False, state)
          else
            bindE (array_get (read_buffer state) password_len_index) (\<lambda>password_len.
            let expected_len = password_len_index + 1 + unat password_len in
            if read_len state < expected_len then Inr (False, False, state)
            else
              bindE (array_read (read_buffer state) 2 (unat username_len)) (\<lambda>user.
              bindE (array_read (read_buffer state) (password_len_index + 1) (unat password_len)) (\<lambda>pass.
              let authenticated = users_credentials_are_valid user pass us in
              if authenticated then
                bindE (array_write (username state) 0 user) (\<lambda>n.
                bindE (array_put n (unat username_len) 0) (\<lambda>n.
                Inr (True, authenticated, state\<lparr>username := n\<rparr>)))
              else Inr (True, authenticated, state)))))))"

section \<open>The wire format\<close>

definition encode_auth :: "byte list \<Rightarrow> byte list \<Rightarrow> byte list" where
  "encode_auth n p = [SOCKS5_AUTH_VERSION, of_nat (length n)] @ n @ [of_nat (length p)] @ p"

text \<open>A request that a longer buffer may still complete: its fields are cut short.\<close>

definition auth_incomplete :: "byte list \<Rightarrow> bool" where
  "auth_incomplete buf \<longleftrightarrow> length buf < 2 \<or>
     (buf ! 0 = SOCKS5_AUTH_VERSION \<and>
       (length buf < 3 + unat (buf ! 1) \<or>
        length buf < 3 + unat (buf ! 1) + unat (buf ! (2 + unat (buf ! 1)))))"

lemma unat_byte_less: "unat (b :: byte) < 256"
  using unsigned_less [of b] by simp

lemma auth_incomplete_bound: "auth_incomplete buf \<Longrightarrow> length buf < 513"
  using unat_byte_less [of "buf ! 1"] unat_byte_less [of "buf ! (2 + unat (buf ! 1))"]
  by (auto simp: auth_incomplete_def)

lemma encode_auth_split:
  assumes "2 \<le> length buf" "buf ! 0 = SOCKS5_AUTH_VERSION" "\<not> auth_incomplete buf"
  shows "\<exists>n p rest. length n < 256 \<and> length p < 256 \<and> buf = encode_auth n p @ rest"
proof -
  let ?u = "unat (buf ! 1)"
  let ?v = "unat (buf ! (2 + ?u))"
  have len: "3 + ?u \<le> length buf" "3 + ?u + ?v \<le> length buf"
    using assms by (auto simp: auth_incomplete_def)
  define n where "n = take ?u (drop 2 buf)"
  define p where "p = take ?v (drop (3 + ?u) buf)"
  have ln: "length n = ?u" "length p = ?v" using len by (auto simp: n_def p_def)
  have "buf = buf ! 0 # buf ! 1 # drop 2 buf"
    using assms(1) by (cases buf; cases "tl buf") auto
  also have "drop 2 buf = n @ drop ?u (drop 2 buf)" unfolding n_def by (rule append_take_drop_id [symmetric])
  also have "drop ?u (drop 2 buf) = buf ! (2 + ?u) # drop (3 + ?u) buf"
    using len Cons_nth_drop_Suc [of "2 + ?u" buf] by (simp add: add.commute numeral_eq_Suc)
  also have "drop (3 + ?u) buf = p @ drop ?v (drop (3 + ?u) buf)"
    unfolding p_def by (rule append_take_drop_id [symmetric])
  finally have "buf = encode_auth n p @ drop ?v (drop (3 + ?u) buf)"
    using assms(2) ln by (simp add: encode_auth_def)
  moreover have "length n < 256" "length p < 256"
    using ln unat_byte_less [of "buf ! 1"] unat_byte_less [of "buf ! (2 + ?u)"] by simp_all
  ultimately show ?thesis by blast
qed

section \<open>The parser\<close>

lemma auth_parse_encoded:
  assumes len: "read_len st \<le> length (read_buffer st)" and us: "users_wf us"
    and name: "length (username st) = CLIENT_USERNAME_MAX + 1"
    and enc: "take (read_len st) (read_buffer st) = encode_auth n p @ rest"
    and np: "length n < 256" "length p < 256"
  shows "returns (auth_parse_request st us) (\<lambda>(done, ok, st'). done \<and> ok = (users_map us n = Some p)
     \<and> st\<lparr>username := username st'\<rparr> = st'
     \<and> (if ok then length (username st') = CLIENT_USERNAME_MAX + 1
          \<and> take (length n + 1) (username st') = n @ [0]
        else st' = st))"
proof -
  let ?buf = "read_buffer st"
  have l: "read_len st = 3 + length n + length p + length rest"
    using arg_cong [OF enc, of length] len by (simp add: encode_auth_def)
  define tail where "tail = drop (read_len st) ?buf"
  have buf: "?buf = SOCKS5_AUTH_VERSION # of_nat (length n) # n @ of_nat (length p) # p @ rest @ tail"
    using append_take_drop_id [of "read_len st" ?buf] enc by (simp add: encode_auth_def tail_def)
  have un: "unat (of_nat (length n) :: byte) = length n" "unat (of_nat (length p) :: byte) = length p"
    using np by (simp_all add: unat_of_nat)
  have c: "users_credentials_are_valid n p us \<longleftrightarrow> users_map us n = Some p"
    using credentials_users_map [OF us] .
  have w: "array_write (username st) 0 n = Inr (overwrite (username st) 0 n)"
    "length (overwrite (username st) 0 n) = CLIENT_USERNAME_MAX + 1"
    using np name by (simp_all add: CLIENT_USERNAME_MAX_def)
  have t: "take (length n + 1) ((overwrite (username st) 0 n)[length n := 0]) = n @ [0]"
    using np name by (simp add: overwrite_def list_update_append CLIENT_USERNAME_MAX_def
        take_Suc_conv_app_nth nth_append)
  have g: "array_get ?buf 0 = Inr SOCKS5_AUTH_VERSION" "array_get ?buf 1 = Inr (of_nat (length n))"
    "array_get ?buf (2 + length n) = Inr (of_nat (length p))"
    "array_read ?buf 2 (length n) = Inr n" "array_read ?buf (2 + length n + 1) (length p) = Inr p"
    unfolding buf by (simp_all add: array_get_def array_read_def nth_append)
  note g = g [simplified]
  show ?thesis
    using l w t np
    by (simp add: auth_parse_request_def g un c CLIENT_USERNAME_MAX_def Let_def)
qed

lemma auth_parse_other:
  assumes len: "read_len st \<le> length (read_buffer st)"
  shows "auth_incomplete (take (read_len st) (read_buffer st)) \<Longrightarrow>
           auth_parse_request st us = Inr (False, False, st)"
    and "2 \<le> read_len st \<Longrightarrow> read_buffer st ! 0 \<noteq> SOCKS5_AUTH_VERSION \<Longrightarrow>
           auth_parse_request st us = Inr (True, False, st)"
proof -
  let ?buf = "read_buffer st"
  have g: "array_get ?buf i = Inr (?buf ! i)" if "i < read_len st" for i
    using that len by simp
  have t: "take (read_len st) ?buf ! i = ?buf ! i" if "i < read_len st" for i
    using that by simp
  show "auth_parse_request st us = Inr (False, False, st)"
    if i: "auth_incomplete (take (read_len st) ?buf)"
  proof (cases "read_len st < 2")
    case True
    then show ?thesis by (simp add: auth_parse_request_def)
  next
    case False
    let ?u = "unat (?buf ! 1)"
    from False i len have v: "?buf ! 0 = SOCKS5_AUTH_VERSION"
      and c: "read_len st < 3 + ?u \<or>
        (3 + ?u \<le> read_len st \<and> read_len st < 3 + ?u + unat (?buf ! (2 + ?u)))"
      by (auto simp: auth_incomplete_def t min_def split: if_splits)
    from c False v show ?thesis
      by (auto simp: auth_parse_request_def Let_def g [of 0] g [of 1, simplified] g [of "2 + ?u", simplified])
  qed
  show "auth_parse_request st us = Inr (True, False, st)"
    if "2 \<le> read_len st" "?buf ! 0 \<noteq> SOCKS5_AUTH_VERSION"
    using that by (simp add: auth_parse_request_def g)
qed

lemma encode_auth_complete:
  "length n < 256 \<Longrightarrow> length p < 256 \<Longrightarrow> \<not> auth_incomplete (encode_auth n p @ rest)"
  by (simp add: auth_incomplete_def encode_auth_def nth_append unat_of_nat)

lemma encode_auth_inject:
  assumes "encode_auth n p @ rest = encode_auth n' p' @ rest'"
    and "length n < 256" "length p < 256" "length n' < 256" "length p' < 256"
  shows "n = n' \<and> p = p'"
proof -
  have inj: "a = b" if "(of_nat a :: byte) = of_nat b" "a < 256" "b < 256" for a b :: nat
    using arg_cong [OF that(1), of unat] that(2,3) by (simp add: unat_of_nat)
  have "(of_nat (length n) :: byte) = of_nat (length n')"
    and e: "n @ of_nat (length p) # p @ rest = n' @ of_nat (length p') # p' @ rest'"
    using assms(1) by (simp_all add: encode_auth_def)
  then have "length n = length n'" using inj assms by blast
  with e have n: "n = n'" and f: "(of_nat (length p) :: byte) = of_nat (length p')" "p @ rest = p' @ rest'"
    by simp_all
  then have "length p = length p'" using inj assms by blast
  with f n show ?thesis by simp
qed

lemma auth_request_cases:
  assumes "read_len st \<le> length (read_buffer st)"
  obtains "auth_incomplete (take (read_len st) (read_buffer st))"
  | "2 \<le> read_len st" "read_buffer st ! 0 \<noteq> SOCKS5_AUTH_VERSION"
    "\<not> auth_incomplete (take (read_len st) (read_buffer st))"
  | n p rest where "length n < 256" "length p < 256"
    "take (read_len st) (read_buffer st) = encode_auth n p @ rest"
  using encode_auth_split [of "take (read_len st) (read_buffer st)"] assms
  by (fastforce simp: auth_incomplete_def)

lemma cstr_stored: "take (length n + 1) a = n @ [0] \<Longrightarrow> cstr a = cstr n"
proof -
  assume "take (length n + 1) a = n @ [0]"
  then have "a = n @ 0 # drop (length n + 1) a"
    by (metis append.assoc append_Cons append_Nil append_take_drop_id)
  moreover have "cstr (xs @ 0 # ys) = cstr xs" for xs ys by (induction xs) auto
  ultimately show ?thesis by metis
qed

section \<open>Properties\<close>

text \<open>
  C7. Authentication decides exactly by the table of users: whatever has been received, the
  parser reads only received bytes; it waits exactly while the fields of the request are cut
  short, which is before 513 bytes; and it authenticates if and only if the bytes are the
  encoding of a user name and a password that the table maps the name to. A failed or
  unfinished request leaves the session as it was, a successful one stores the name.
\<close>

theorem auth_exact:
  assumes len: "read_len st \<le> length (read_buffer st)" and us: "users_wf us"
    and name: "length (username st) = CLIENT_USERNAME_MAX + 1"
  shows "returns (auth_parse_request st us) (\<lambda>(done, ok, st').
     let received = take (read_len st) (read_buffer st);
         sent = (\<lambda>n p. length n < 256 \<and> length p < 256 \<and> (\<exists>rest. received = encode_auth n p @ rest))
     in (\<not> done \<longleftrightarrow> auth_incomplete received) \<and> (done \<or> read_len st < 513)
      \<and> (ok \<longleftrightarrow> (\<exists>n p. sent n p \<and> users_map us n = Some p))
      \<and> (\<forall>n p. ok \<and> sent n p \<longrightarrow> cstr (username st') = cstr n)
      \<and> (if ok then st\<lparr>username := username st'\<rparr> else st) = st')"
proof -
  define r where "r = take (read_len st) (read_buffer st)"
  have lr: "length r = read_len st" using len by (simp add: r_def)
  show ?thesis
  proof (cases rule: auth_request_cases [OF len, folded r_def, case_names wait version full])
    case wait
    have "r \<noteq> encode_auth n p @ rest" if "length n < 256" "length p < 256" for n p rest
      using wait encode_auth_complete [OF that] by auto
    then show ?thesis
      using wait auth_parse_other(1) [OF len, of us] auth_incomplete_bound [OF wait] lr
      by (auto simp: r_def [symmetric])
  next
    case version
    have "r ! 0 \<noteq> SOCKS5_AUTH_VERSION" using version(1,2) by (simp add: r_def)
    then have "r \<noteq> encode_auth n p @ rest" for n p rest
      by (auto simp: encode_auth_def)
    with version show ?thesis
      using auth_parse_other(2) [OF len version(1,2), of us] by (simp add: r_def [symmetric])
  next
    case (full n p rest)
    have uniq: "length n' < 256 \<and> length p' < 256 \<and> (\<exists>rest'. r = encode_auth n' p' @ rest')
        \<longleftrightarrow> n' = n \<and> p' = p" for n' p'
      using encode_auth_inject [of n p rest n' p'] full by auto
    note e = auth_parse_encoded [OF len us name full(3) [unfolded r_def] full(1,2)]
    obtain d ok st' where x: "auth_parse_request st us = Inr (d, ok, st')" "d"
      and ok: "ok \<longleftrightarrow> users_map us n = Some p" and st': "st\<lparr>username := username st'\<rparr> = st'"
      and t: "ok \<Longrightarrow> take (length n + 1) (username st') = n @ [0]" "\<not> ok \<Longrightarrow> st' = st"
      by (rule returnsE [OF e]) (auto split: if_splits)
    have n: "\<not> auth_incomplete r" using encode_auth_complete full by simp
    have "ok \<longrightarrow> cstr (username st') = cstr n" using cstr_stored t(1) by blast
    moreover have "(if ok then st\<lparr>username := username st'\<rparr> else st) = st'" using st' t(2) by auto
    ultimately show ?thesis
      unfolding x(1) Let_def r_def [symmetric] uniq returns_simps prod.case
      using x(2) n ok by blast
  qed
qed

text \<open>A table with the user \<open>a\<close>, password \<open>b\<close>, and a session that received them.\<close>

definition one_user :: "managed_user list" where
  "one_user = zero_users[0 := \<lparr>mu_username = 97 # replicate USERS_FIELD_MAX 0,
     mu_password = 98 # replicate USERS_FIELD_MAX 0, in_use = True\<rparr>]"

definition auth_session :: client_state where
  "auth_session = zero_client_state\<lparr>read_buffer := [1, 1, 97, 1, 98, 0], read_len := 5\<rparr>"

lemma one_user_wf: "users_wf one_user" "users_map one_user [97] = Some [98]"
proof -
  have v: "user_wf \<lparr>mu_username = 97 # replicate USERS_FIELD_MAX 0,
      mu_password = 98 # replicate USERS_FIELD_MAX 0, in_use = True\<rparr>"
    by (simp add: user_wf_def terminated_def USERS_FIELD_MAX_def)
  have z: "users_wf zero_users" "0 < length zero_users" "\<not> in_use (zero_users ! 0)"
    "set (user_names zero_users) = {}"
    using users_wf_zero user_wf_zero by (auto simp: zero_users_def USERS_MAX_def user_names_def)
  have c: "cstr (replicate n 0) = []" for n by (cases n) simp_all
  show "users_wf one_user" "users_map one_user [97] = Some [98]"
    using users_fill [OF z(1,2,3) v] z(4) by (simp_all add: one_user_def c)
qed

theorem auth_exact_witness:
  "returns (auth_parse_request auth_session one_user) (\<lambda>(done, ok, st'). done \<and> ok)"
proof -
  note u = one_user_wf
  have l: "read_len auth_session \<le> length (read_buffer auth_session)"
    "length (username auth_session) = CLIENT_USERNAME_MAX + 1"
    by (simp_all add: auth_session_def zero_client_state_def)
  have r: "take (read_len auth_session) (read_buffer auth_session) = encode_auth [97] [98] @ []"
    by (simp add: auth_session_def encode_auth_def)
  have n: "\<not> auth_incomplete (encode_auth [97] [98])"
    by (simp add: auth_incomplete_def encode_auth_def)
  have s: "\<exists>n p. (length n < 256 \<and> length p < 256 \<and>
      (\<exists>rest. encode_auth [97] [98] @ [] = encode_auth n p @ rest)) \<and> users_map one_user n = Some p"
    using u(2) by (intro exI [of _ "[97]"] exI [of _ "[98]"]) auto
  show ?thesis
    using auth_exact [OF l(1) u(1) l(2)] n s unfolding r Let_def
    by (elim returns_mono) (auto simp del: append_Nil2, simp)
qed

end
