(* ===== verification/Connection.thy ===== *)
theory Connection
  imports World
begin

text \<open>
  What the two halves of a session share: the close callbacks and the functions of
  \<^verbatim>\<open>src/src/server/target_connection.c\<close>, \<^verbatim>\<open>client_session.c\<close> and \<^verbatim>\<open>management.c\<close> they call, the
  relay's interests, closing a connection, the loops that send a buffer, \<open>client_write\<close>, and
  the access log of \<^verbatim>\<open>access_log.c\<close>.

  The callbacks nest at most twice: unregistering a client closes its session, which
  unregisters the session's target, whose callback unregisters nothing. The inner level is
  \<open>handle_close_inner\<close>; a client closed from inside a close callback is the fault
  \<open>StackDepth\<close>, which the invariant excludes.
\<close>

section \<open>The access log\<close>

text \<open>A NULL argument never occurs; an empty string is replaced. The file is the list of its lines.\<close>

definition two_digits :: "int \<Rightarrow> byte list" where
  "two_digits n = dec (nat n div 10) @ dec (nat n mod 10)"

definition signed_dec :: "int \<Rightarrow> byte list" where
  "signed_dec n = (if n < 0 then 45 # dec (nat (- n)) else dec (nat n))"

text \<open>\<open>strftime\<close> with \<open>%Y-%m-%dT%H:%M:%SZ\<close>; \<open>None\<close> is the result 0, when the text and its NUL do not fit.\<close>

definition strftime_utc :: "nat \<Rightarrow> tm \<Rightarrow> byte list option" where
  "strftime_utc maxsize t =
     (let text = signed_dec (tm_year t + 1900) @ bytes ''-'' @ two_digits (tm_mon t + 1) @ bytes ''-''
           @ two_digits (tm_mday t) @ bytes ''T'' @ two_digits (tm_hour t) @ bytes '':'' @ two_digits (tm_min t)
           @ bytes '':'' @ two_digits (tm_sec t) @ bytes ''Z''
      in if length text < maxsize then Some text else None)"

definition ACCESS_LOG_TIME_SIZE :: nat where "ACCESS_LOG_TIME_SIZE = 32"

definition access_log_connection ::
  "'k os \<Rightarrow> byte list \<Rightarrow> byte list \<Rightarrow> 16 word \<Rightarrow> bool \<Rightarrow> 'k world \<Rightarrow> 'k world" where
  "access_log_connection os user host port success w =
     (case ask (os_fopen os) w of (opened, w) \<Rightarrow>
        if \<not> opened then w
        else
          case ask (os_gmtime os) w of (utc_time, w) \<Rightarrow>
            let timestamp = (case Option.bind utc_time (strftime_utc ACCESS_LOG_TIME_SIZE) of
                               None \<Rightarrow> bytes ''unknown-time'' | Some t \<Rightarrow> t)
            in w\<lparr>access_log := access_log w @
                 [timestamp @ bytes '' user='' @ (if cstr user = [] then bytes ''anonymous'' else cstr user)
                    @ bytes '' dest='' @ (if cstr host = [] then bytes ''unknown'' else cstr host)
                    @ bytes '' port='' @ dec (unat port)
                    @ bytes '' status='' @ (if success then bytes ''OK'' else bytes ''FAIL'') @ [10]]\<rparr>)"

definition access_log_client_connection ::
  "'k os \<Rightarrow> ref option \<Rightarrow> bool \<Rightarrow> 'k world \<Rightarrow> 'k world result" where
  "access_log_client_connection os state success w =
     bindE (get_client state w) (\<lambda>st.
     bindE (array_get (destination_host st) 0) (\<lambda>c.
     if access_logged st \<or> c = 0 then Inr w
     else Inr (put_client state (st\<lparr>access_logged := True\<rparr>)
                 (access_log_connection os (username st) (destination_host st) (destination_port st)
                    success w))))"

section \<open>Closing\<close>

definition target_connection_free_addresses :: "ref option \<Rightarrow> 'k world \<Rightarrow> 'k world result" where
  "target_connection_free_addresses state w =
     (if state = None then Inr w
      else
        bindE (get_client state w) (\<lambda>st.
        if target_addresses st \<noteq> None
        then Inr (put_client state (st\<lparr>target_addresses := None, target_address_current := []\<rparr>) w)
        else Inr w))"

text \<open>The section under the job's mutex is one step; a job that is not done is left to its thread.\<close>

definition target_connection_detach_resolver :: "ref option \<Rightarrow> 'k world \<Rightarrow> 'k world result" where
  "target_connection_detach_resolver state w =
     bindE (get_client state w) (\<lambda>st.
     case resolver_job st of
       None \<Rightarrow> Inr w
     | Some j \<Rightarrow>
         bindE (get_job j w) (\<lambda>job.
         Inr (put_client state (st\<lparr>resolver_job := None\<rparr>)
           (w\<lparr>jobs := (jobs w)(j := if job_done job then None else Some (job\<lparr>job_state := None\<rparr>))\<rparr>))))"

definition target_close :: "'k os \<Rightarrow> ref selector_key \<Rightarrow> 'k world \<Rightarrow> 'k world result" where
  "target_close os key w =
     bindE (if key_data key = None then Inr w
            else
              bindE (get_client (key_data key) w) (\<lambda>st.
              Inr (if target_fd st = key_fd key
                   then put_client (key_data key) (st\<lparr>target_fd := -1\<rparr>) w else w))) (\<lambda>w.
     Inr (sys_close os (key_fd key) w))"

text \<open>\<open>free (NULL)\<close> does nothing.\<close>

definition management_close :: "'k os \<Rightarrow> ref selector_key \<Rightarrow> 'k world \<Rightarrow> 'k world result" where
  "management_close os key w =
     bindE (if key_data key = None then Inr w
            else bindE (get_mgmt (key_data key) w) (\<lambda>st. Inr (free_mgmt (key_data key) w))) (\<lambda>w.
     Inr (sys_close os (key_fd key) w))"

type_synonym 'k callback = "ref selector_key \<Rightarrow> 'k world \<Rightarrow> 'k world result"

fun handle_close_inner :: "'k os \<Rightarrow> handler \<Rightarrow> 'k callback option" where
  "handle_close_inner os target_handler = Some (target_close os)"
| "handle_close_inner os management_client_handler = Some (management_close os)"
| "handle_close_inner os client_handler = Some (\<lambda>key w. Inl StackDepth)"
| "handle_close_inner os _ = None"

text \<open>The parts of \<open>client_close\<close>: letting go of the target, and freeing the session.\<close>

definition close_target :: "'k os \<Rightarrow> ref option \<Rightarrow> 'k world \<Rightarrow> 'k world result" where
  "close_target os state w =
     bindE (get_client state w) (\<lambda>st.
     if target_fd st \<noteq> -1 then
       bindE (selector_unregister_fd (handle_close_inner os) (target_fd st)
                (put_client state (st\<lparr>target_fd := -1\<rparr>) w)) (\<lambda>(ret, w).
       Inr (if ret \<noteq> SELECTOR_SUCCESS then sys_close os (target_fd st) w else w))
     else Inr w)"

definition free_session :: "ref option \<Rightarrow> 'k world \<Rightarrow> 'k world" where
  "free_session state w = free_client state
     (w\<lparr>current_metrics := metrics_connection_closed (current_metrics w),
        active_client_connections := active_client_connections w - 1\<rparr>)"

definition client_close :: "'k os \<Rightarrow> ref selector_key \<Rightarrow> 'k world \<Rightarrow> 'k world result" where
  "client_close os key w =
     bindE (if key_data key = None then Inr w
            else
              bindE (get_client (key_data key) w) (\<lambda>st.
              bindE (close_target os (key_data key)
                       (put_client (key_data key)
                         (if client_fd st = key_fd key then st\<lparr>client_fd := -1\<rparr> else st) w)) (\<lambda>w.
              bindE (target_connection_detach_resolver (key_data key) w) (\<lambda>w.
              bindE (target_connection_free_addresses (key_data key) w) (\<lambda>w.
              Inr (free_session (key_data key) w)))))) (\<lambda>w.
     Inr (sys_close os (key_fd key) w))"

fun handle_close :: "'k os \<Rightarrow> handler \<Rightarrow> 'k callback option" where
  "handle_close os client_handler = Some (client_close os)"
| "handle_close os target_handler = Some (target_close os)"
| "handle_close os management_client_handler = Some (management_close os)"
| "handle_close os _ = None"

section \<open>The relay's interests\<close>

text \<open>A side is read while the buffer it fills is empty, and written while its buffer has bytes left.\<close>

definition client_relay_interest :: "client_state \<Rightarrow> fd_interest" where
  "client_relay_interest st =
     OP_NOOP OR (if c2t_len st = 0 then OP_READ else 0)
             OR (if t2c_len st > t2c_off st then OP_WRITE else 0)"

definition target_relay_interest :: "client_state \<Rightarrow> fd_interest" where
  "target_relay_interest st =
     OP_NOOP OR (if t2c_len st = 0 then OP_READ else 0)
             OR (if c2t_len st > c2t_off st then OP_WRITE else 0)"

text \<open>A call of the selector whose status is dropped.\<close>

definition drop_status :: "(selector_status \<times> 'k world) result \<Rightarrow> 'k world result" where
  "drop_status r = bindE r (\<lambda>(ret, w). Inr w)"

definition client_session_update_relay_interests :: "ref option \<Rightarrow> 'k world \<Rightarrow> 'k world result" where
  "client_session_update_relay_interests state w =
     (if state = None then Inr w
      else
        bindE (get_client state w) (\<lambda>st.
        if \<not> relay_started st then Inr w
        else
          bindE (if client_fd st \<noteq> -1
                 then drop_status (selector_set_interest (client_fd st) (client_relay_interest st) w)
                 else Inr w) (\<lambda>w.
          if target_fd st \<noteq> -1
          then drop_status (selector_set_interest (target_fd st) (target_relay_interest st) w)
          else Inr w)))"

definition client_session_close_connection :: "'k os \<Rightarrow> ref option \<Rightarrow> 'k world \<Rightarrow> 'k world result" where
  "client_session_close_connection os state w =
     (if state = None then Inr w
      else
        bindE (get_client state w) (\<lambda>st.
        if client_fd st \<noteq> -1 then
          drop_status (selector_unregister_fd (handle_close os) (client_fd st)
            (put_client state (st\<lparr>client_fd := -1\<rparr>) w))
        else if target_fd st \<noteq> -1 then
          bindE (selector_unregister_fd (handle_close os) (target_fd st)
                   (put_client state (st\<lparr>target_fd := -1\<rparr>) w)) (\<lambda>(ret, w).
          Inr (if ret \<noteq> SELECTOR_SUCCESS then sys_close os (target_fd st) w else w))
        else Inr w))"

section \<open>Sending a buffer\<close>

text \<open>
  The loops \<open>while (off < len) send (fd, buffer + off, len - off)\<close>: they end when all is sent,
  when the socket would block, or when it fails. \<open>count\<close> is the counter a loop advances by
  what was sent. The region handed to \<open>send\<close> is read from the array, so sending past its end
  is a fault.
\<close>

datatype send_end = SendDone | SendAgain | SendFailed

function send_loop ::
  "'k os \<Rightarrow> (nat \<Rightarrow> server_metrics \<Rightarrow> server_metrics) \<Rightarrow> channel \<Rightarrow> int \<Rightarrow> byte list \<Rightarrow> nat \<Rightarrow> nat \<Rightarrow> 'k world
     \<Rightarrow> (send_end \<times> nat \<times> 'k world) result" where
  "send_loop os count ch fd buffer off len w =
     (if off < len then
        bindE (array_read buffer off (len - off)) (\<lambda>region.
        case sys_send os fd region ch w of
          (Some sent, w) \<Rightarrow>
            if sent > 0 then
              send_loop os count ch fd buffer (off + sent) len
                (w\<lparr>current_metrics := count sent (current_metrics w)\<rparr>)
            else Inr (SendFailed, off, w)
        | (None, w) \<Rightarrow>
            if errno w = EAGAIN \<or> errno w = EWOULDBLOCK then Inr (SendAgain, off, w)
            else Inr (SendFailed, off, w))
      else Inr (SendDone, off, w))"
  by pat_completeness auto
termination
  by (relation "measure (\<lambda>(os, count, ch, fd, buffer, off, len, w). len - off)") auto

declare send_loop.simps [simp del]

definition count_nothing :: "nat \<Rightarrow> server_metrics \<Rightarrow> server_metrics" where
  "count_nothing n m = m"

definition count_target_to_client :: "nat \<Rightarrow> server_metrics \<Rightarrow> server_metrics" where
  "count_target_to_client n = metrics_add_target_to_client_bytes (of_nat n)"

definition count_client_to_target :: "nat \<Rightarrow> server_metrics \<Rightarrow> server_metrics" where
  "count_client_to_target n = metrics_add_client_to_target_bytes (of_nat n)"

section \<open>Writing to the client\<close>

definition client_write_reply :: "'k os \<Rightarrow> ref selector_key \<Rightarrow> 'k world \<Rightarrow> 'k world result" where
  "client_write_reply os key w =
     bindE (get_client (key_data key) w) (\<lambda>st.
     let w = put_client (key_data key) (st\<lparr>write_len := 0, write_off := 0\<rparr>) w in
     if stage st = CLIENT_STAGE_CLOSING then
       drop_status (selector_unregister_fd (handle_close os) (key_fd key) w)
     else if stage st = CLIENT_STAGE_RELAY \<and> \<not> relay_started st then
       client_session_update_relay_interests (key_data key)
         (put_client (key_data key) (st\<lparr>write_len := 0, write_off := 0, relay_started := True\<rparr>) w)
     else drop_status (selector_set_interest_key key OP_READ w))"

definition client_write_relay :: "'k os \<Rightarrow> ref selector_key \<Rightarrow> 'k world \<Rightarrow> 'k world result" where
  "client_write_relay os key w =
     bindE (get_client (key_data key) w) (\<lambda>st.
     bindE (send_loop os count_target_to_client (relay_channel ToClient (key_data key)) (key_fd key)
             (t2c_buffer st) (t2c_off st) (t2c_len st) w)
       (\<lambda>(ended, off, w).
       let w' = put_client (key_data key) (st\<lparr>t2c_off := off\<rparr>) w in
       case ended of
         SendAgain \<Rightarrow> Inr w'
       | SendFailed \<Rightarrow> client_session_close_connection os (key_data key) w'
       | SendDone \<Rightarrow>
           client_session_update_relay_interests (key_data key)
             (put_client (key_data key) (st\<lparr>t2c_len := 0, t2c_off := 0\<rparr>) w)))"

definition client_write :: "'k os \<Rightarrow> ref selector_key \<Rightarrow> 'k world \<Rightarrow> 'k world result" where
  "client_write os key w =
     bindE (get_client (key_data key) w) (\<lambda>st.
     bindE (send_loop os count_nothing Other (key_fd key) (write_buffer st) (write_off st) (write_len st) w)
       (\<lambda>(ended, off, w).
       let w = put_client (key_data key) (st\<lparr>write_off := off\<rparr>) w in
       case ended of
         SendAgain \<Rightarrow> Inr w
       | SendFailed \<Rightarrow> client_session_close_connection os (key_data key) w
       | SendDone \<Rightarrow>
           if write_len st > 0 then client_write_reply os key w
           else if stage st \<noteq> CLIENT_STAGE_RELAY
           then drop_status (selector_set_interest_key key OP_READ w)
           else client_write_relay os key w))"

end
