(* ===== verification/Target_Connection.thy ===== *)
theory Target_Connection
  imports Connection
begin

text \<open>
  \<^verbatim>\<open>src/src/server/target_connection.c\<close>: reaching the destination of a request. A domain name
  is resolved by a thread of its own; the addresses it finds are tried in order, each with a
  non-blocking \<open>connect\<close>; the outcome is the reply to the client, and then the relay begins.
\<close>

section \<open>The destination of a request\<close>

definition remember_request_destination ::
  "'k os \<Rightarrow> socks5_request \<Rightarrow> client_state \<Rightarrow> client_state result" where
  "remember_request_destination os request st =
     (let st = st\<lparr>destination_port := req_port request, access_logged := False\<rparr>;
          unknown = bindE (c_snprintf (destination_host st) 0 (length (destination_host st)) (bytes ''unknown''))
                      (\<lambda>h. Inr (st\<lparr>destination_host := h\<rparr>));
          numeric = (\<lambda>text. bindE (array_write (destination_host st) 0 (text @ [0]))
                      (\<lambda>h. Inr (st\<lparr>destination_host := h\<rparr>)))
      in
        if req_atyp request = SOCKS5_ATYP_DOMAIN then
          bindE (c_snprintf (destination_host st) 0 (length (destination_host st)) (cstr (req_host request)))
            (\<lambda>h. Inr (st\<lparr>destination_host := h\<rparr>))
        else if req_atyp request = SOCKS5_ATYP_IPV4 then
          (case os_inet_ntop os AF_INET (sin_addr (req_addr request)) of
             Some text \<Rightarrow> numeric text | None \<Rightarrow> unknown)
        else if req_atyp request = SOCKS5_ATYP_IPV6 then
          (case os_inet_ntop os AF_INET6 (sin6_addr (req_addr request)) of
             Some text \<Rightarrow> numeric text | None \<Rightarrow> unknown)
        else unknown)"

definition socks5_reply_for_errno :: "int \<Rightarrow> byte" where
  "socks5_reply_for_errno error =
     (if error = 0 then SOCKS5_REPLY_SUCCESS
      else if error = ENETUNREACH then SOCKS5_REPLY_NETWORK_UNREACHABLE
      else if error = EHOSTUNREACH \<or> error = EHOSTDOWN \<or> error = ENODATA
      then SOCKS5_REPLY_HOST_UNREACHABLE
      else if error = ECONNREFUSED then SOCKS5_REPLY_CONNECTION_REFUSED
      else if error = ETIMEDOUT then SOCKS5_REPLY_TTL_EXPIRED
      else SOCKS5_REPLY_GENERAL_FAILURE)"

definition socks5_reply_for_gai_error :: "int \<Rightarrow> byte" where
  "socks5_reply_for_gai_error error =
     (if error = 0 then SOCKS5_REPLY_SUCCESS
      else if error = EAI_AGAIN then SOCKS5_REPLY_TTL_EXPIRED
      else if error = EAI_NONAME \<or> error = EAI_NODATA then SOCKS5_REPLY_HOST_UNREACHABLE
      else SOCKS5_REPLY_GENERAL_FAILURE)"

section \<open>The resolver thread\<close>

text \<open>
  \<open>resolve_target\<close> runs in a thread of its own, in two steps. The first resolves the name and
  runs the critical section; when no client waits any more it goes on to free the job, which
  nobody else refers to. The second notifies the selector.
\<close>

definition resolve_target :: "'k os \<Rightarrow> nat \<Rightarrow> 'k world \<Rightarrow> 'k world result" where
  "resolve_target os j w =
     bindE (get_job j w) (\<lambda>job.
     case ask (os_getaddrinfo os (job_host job) (job_port job)) w of ((status, result), w) \<Rightarrow>
       bindE (get_job j w) (\<lambda>job.
       let w = w\<lparr>jobs := (jobs w)(j \<mapsto> job\<lparr>job_result := result, job_status := status, job_done := True\<rparr>)\<rparr>
       in if job_state job \<noteq> None
          then Inr (w\<lparr>threads := (threads w)(j \<mapsto> Notifying (job_client_fd job))\<rparr>)
          else Inr (w\<lparr>jobs := (jobs w)(j := None), threads := (threads w)(j := None)\<rparr>)))"

definition resolve_notify :: "bool \<Rightarrow> nat \<Rightarrow> int \<Rightarrow> 'k world \<Rightarrow> 'k world" where
  "resolve_notify malloc_ok j fd w =
     (case selector_notify_block malloc_ok fd w of (ret, w) \<Rightarrow> w\<lparr>threads := (threads w)(j := None)\<rparr>)"

text \<open>\<open>job->host\<close> has 256 bytes and \<open>job->port\<close> six; the mutex is part of the job.\<close>

definition start_target_resolution ::
  "'k os \<Rightarrow> ref option \<Rightarrow> byte list \<Rightarrow> 16 word \<Rightarrow> 'k world \<Rightarrow> (bool \<times> 'k world) result" where
  "start_target_resolution os state host port w =
     (case ask (os_calloc os) w of (allocated, w) \<Rightarrow>
        if \<not> allocated then Inr (False, w)
        else
          case ask (os_mutex_init os) w of (initialised, w) \<Rightarrow>
            if \<not> initialised then Inr (False, w)
            else
              bindE (get_client state w) (\<lambda>st.
              bindE (c_snprintf (replicate (SOCKS5_MAX_DOMAIN_LENGTH + 1) 0) 0
                       (SOCKS5_MAX_DOMAIN_LENGTH + 1) (cstr host)) (\<lambda>h.
              bindE (c_snprintf (replicate 6 0) 0 6 (dec (unat port))) (\<lambda>p.
              let j = next_ref w;
                  job = \<lparr>job_client_fd = client_fd st,
                         job_state = (case state of Some (ClientRef c) \<Rightarrow> Some c | _ \<Rightarrow> None),
                         job_host = h, job_port = p, job_result = None, job_status = EAI_AGAIN,
                         job_done = False\<rparr>;
                  w = put_client state (st\<lparr>resolver_job := Some j\<rparr>)
                        (w\<lparr>jobs := (jobs w)(j \<mapsto> job), next_ref := next_ref w + 1\<rparr>)
              in
                case ask (os_thread_create os) w of (created, w) \<Rightarrow>
                  if \<not> created
                  then Inr (False, put_client state (st\<lparr>resolver_job := None\<rparr>)
                         (w\<lparr>jobs := (jobs w)(j := None)\<rparr>))
                  else Inr (True, w\<lparr>threads := (threads w)(j \<mapsto> Resolving)\<rparr>)))))"

section \<open>Connecting\<close>

definition register_connecting_socket ::
  "'k os \<Rightarrow> ref option \<Rightarrow> int \<Rightarrow> 'k world \<Rightarrow> (bool \<times> 'k world) result" where
  "register_connecting_socket os state target w =
     bindE (selector_register (os_realloc os) zero_item target (Some target_handler) OP_WRITE state w)
       (\<lambda>(status, w).
       bindE (get_client state w) (\<lambda>st.
       if status \<noteq> SELECTOR_SUCCESS then
         Inr (False, put_client state (st\<lparr>last_connect_error := errno w, target_fd := -1\<rparr>)
                       (sys_close os target w))
       else Inr (True, put_client state (st\<lparr>stage := CLIENT_STAGE_CONNECTING\<rparr>) w)))"

definition start_target_connection ::
  "'k os \<Rightarrow> ref option \<Rightarrow> sockaddr \<Rightarrow> nat \<Rightarrow> 'k world \<Rightarrow> (bool \<times> 'k world) result" where
  "start_target_connection os state addr addr_len w =
     (case sys_socket os (sa_family addr) w of (fd, w) \<Rightarrow>
        bindE (get_client state w) (\<lambda>st.
        case fd of
          None \<Rightarrow> Inr (False, put_client state (st\<lparr>last_connect_error := errno w\<rparr>) w)
        | Some target \<Rightarrow>
            case set_nonblocking os target w of (nonblocking, w) \<Rightarrow>
              if \<not> nonblocking
              then Inr (False, sys_close os target
                          (put_client state (st\<lparr>last_connect_error := errno w\<rparr>) w))
              else
                let st = st\<lparr>target_fd := target\<rparr>;
                    w = put_client state st w
                in
                  case sys_connect os target addr addr_len w of (connected, w) \<Rightarrow>
                    if \<not> connected \<and> errno w \<noteq> EINPROGRESS
                    then Inr (False,
                           put_client state (st\<lparr>last_connect_error := errno w, target_fd := -1\<rparr>)
                             (sys_close os target w))
                    else register_connecting_socket os state target w))"

text \<open>The loop advances \<open>target_address_current\<close> before it tries the address.\<close>

fun next_target_loop ::
  "'k os \<Rightarrow> ref option \<Rightarrow> addrinfo list \<Rightarrow> 'k world \<Rightarrow> (bool \<times> 'k world) result" where
  "next_target_loop os state [] w = Inr (False, w)"
| "next_target_loop os state (current # rest) w =
     bindE (get_client state w) (\<lambda>st.
     let w = put_client state (st\<lparr>target_address_current := rest\<rparr>) w in
     if ai_family current \<noteq> AF_INET \<and> ai_family current \<noteq> AF_INET6
     then next_target_loop os state rest w
     else
       bindE (start_target_connection os state (ai_addr current) (ai_addrlen current) w)
         (\<lambda>(started, w).
         if started then Inr (True, w) else next_target_loop os state rest w))"

definition start_next_target_connection :: "'k os \<Rightarrow> ref option \<Rightarrow> 'k world \<Rightarrow> (bool \<times> 'k world) result" where
  "start_next_target_connection os state w =
     bindE (get_client state w) (\<lambda>st. next_target_loop os state (target_address_current st) w)"

text \<open>Putting a reply into the session's write buffer.\<close>

definition reply_to_client :: "ref option \<Rightarrow> byte \<Rightarrow> 'k world \<Rightarrow> 'k world result" where
  "reply_to_client state reply w =
     bindE (get_client state w) (\<lambda>st.
     bindE (socks5_prepare_request_response (write_buffer st) reply) (\<lambda>(buf, len, off).
     Inr (put_client state (st\<lparr>write_buffer := buf, write_len := len, write_off := off\<rparr>) w)))"

definition set_stage :: "ref option \<Rightarrow> client_stage \<Rightarrow> 'k world \<Rightarrow> 'k world result" where
  "set_stage state s w =
     bindE (get_client state w) (\<lambda>st. Inr (put_client state (st\<lparr>stage := s\<rparr>) w))"

text \<open>The five lines every failed request ends with: reply, count, log, close after the reply.\<close>

definition fail_request ::
  "'k os \<Rightarrow> ref selector_key \<Rightarrow> ref option \<Rightarrow> byte \<Rightarrow> 'k world \<Rightarrow> 'k world result" where
  "fail_request os key state reply w =
     bindE (reply_to_client state reply w) (\<lambda>w.
     let w = w\<lparr>current_metrics := metrics_connection_failed (current_metrics w)\<rparr> in
     bindE (access_log_client_connection os state False w) (\<lambda>w.
     bindE (set_stage state CLIENT_STAGE_CLOSING w) (\<lambda>w.
     drop_status (selector_set_interest_key key OP_WRITE w))))"

definition target_connection_begin ::
  "'k os \<Rightarrow> ref selector_key \<Rightarrow> ref option \<Rightarrow> socks5_request \<Rightarrow> 'k world \<Rightarrow> 'k world result" where
  "target_connection_begin os key state request w =
     bindE (target_connection_free_addresses state w) (\<lambda>w.
     bindE (get_client state w) (\<lambda>st.
     bindE (remember_request_destination os request (st\<lparr>last_connect_error := 0\<rparr>)) (\<lambda>st.
     let w = put_client state st w in
     if req_atyp request = SOCKS5_ATYP_DOMAIN then
       bindE (target_connection_detach_resolver state w) (\<lambda>w.
       bindE (start_target_resolution os state (req_host request) (req_port request) w) (\<lambda>(started, w).
       if \<not> started then fail_request os key state SOCKS5_REPLY_GENERAL_FAILURE w
       else
         bindE (set_stage state CLIENT_STAGE_RESOLVING w) (\<lambda>w.
         drop_status (selector_set_interest_key key OP_NOOP w))))
     else
       let w = put_client state (st\<lparr>target_addr := req_addr request, target_addr_len := req_addr_len request\<rparr>) w
       in
       bindE (start_target_connection os state (req_addr request) (req_addr_len request) w) (\<lambda>(started, w).
       if \<not> started then
         bindE (get_client state w) (\<lambda>st.
         fail_request os key state (socks5_reply_for_errno (last_connect_error st)) w)
       else drop_status (selector_set_interest_key key OP_NOOP w)))))"

definition target_connection_on_resolve :: "'k os \<Rightarrow> ref selector_key \<Rightarrow> 'k world \<Rightarrow> 'k world result" where
  "target_connection_on_resolve os key w =
     (if key_data key = None then Inr w
      else
        bindE (get_client (key_data key) w) (\<lambda>st.
        if stage st \<noteq> CLIENT_STAGE_RESOLVING then Inr w
        else
          case resolver_job st of
            None \<Rightarrow> Inr w
          | Some j \<Rightarrow>
              bindE (get_job j w) (\<lambda>job.
              if \<not> job_done job then Inr w
              else
                let w = put_client (key_data key) (st\<lparr>resolver_job := None\<rparr>)
                          (w\<lparr>jobs := (jobs w)(j := None)\<rparr>)
                in
                  case job_result job of
                    None \<Rightarrow> fail_request os key (key_data key) (socks5_reply_for_gai_error (job_status job)) w
                  | Some result \<Rightarrow>
                      if job_status job \<noteq> 0
                      then fail_request os key (key_data key) (socks5_reply_for_gai_error (job_status job)) w
                      else
                        let w = put_client (key_data key)
                              (st\<lparr>resolver_job := None, target_addresses := Some result,
                                  target_address_current := result\<rparr>) w
                        in
                        bindE (start_next_target_connection os (key_data key) w) (\<lambda>(started, w).
                        if \<not> started then
                          bindE (get_client (key_data key) w) (\<lambda>st.
                          fail_request os key (key_data key)
                            (socks5_reply_for_errno (last_connect_error st)) w)
                        else drop_status (selector_set_interest_key key OP_NOOP w)))))"

section \<open>The target's handlers\<close>

definition target_read :: "'k os \<Rightarrow> ref selector_key \<Rightarrow> 'k world \<Rightarrow> 'k world result" where
  "target_read os key w =
     bindE (get_client (key_data key) w) (\<lambda>st.
     if t2c_len st \<noteq> 0 then client_session_update_relay_interests (key_data key) w
     else
       case sys_recv os (key_fd key) (length (t2c_buffer st)) (relay_channel FromTarget (key_data key)) w of
         (None, w) \<Rightarrow>
           if errno w = EAGAIN \<or> errno w = EWOULDBLOCK then Inr w
           else client_session_close_connection os (key_data key) w
       | (Some bs, w) \<Rightarrow>
           if length bs > 0 then
             bindE (array_write (t2c_buffer st) 0 bs) (\<lambda>buf.
             let w = put_client (key_data key)
                       (st\<lparr>t2c_buffer := buf, t2c_len := length bs, t2c_off := 0\<rparr>) w
             in
             bindE (client_session_update_relay_interests (key_data key) w) (\<lambda>w.
             if client_fd st \<noteq> -1
             then client_write os \<lparr>key_fd = client_fd st, key_data = key_data key\<rparr> w
             else Inr w))
           else client_session_close_connection os (key_data key) w)"

text \<open>\<open>None\<close> is a failed \<open>getsockopt\<close>, whose \<open>errno\<close> takes the place of the socket's error.\<close>

definition target_connection_succeeded :: "'k os \<Rightarrow> int \<Rightarrow> 'k world \<Rightarrow> bool \<times> int \<times> 'k world" where
  "target_connection_succeeded os fd w =
     (case sys_so_error os fd w of
        (None, w) \<Rightarrow> (False, errno w, w)
      | (Some error, w) \<Rightarrow> (error = 0, error, w))"

definition finish_connecting :: "'k os \<Rightarrow> ref selector_key \<Rightarrow> bool \<Rightarrow> 'k world \<Rightarrow> 'k world result" where
  "finish_connecting os key connected w =
     bindE (get_client (key_data key) w) (\<lambda>st.
     bindE (reply_to_client (key_data key)
              (if connected then SOCKS5_REPLY_SUCCESS
               else socks5_reply_for_errno (last_connect_error st)) w) (\<lambda>w.
     let w = w\<lparr>current_metrics := (if connected then metrics_connection_succeeded (current_metrics w)
                                   else metrics_connection_failed (current_metrics w))\<rparr>
     in
     bindE (access_log_client_connection os (key_data key) connected w) (\<lambda>w.
     bindE (set_stage (key_data key) (if connected then CLIENT_STAGE_RELAY else CLIENT_STAGE_CLOSING) w) (\<lambda>w.
     bindE (get_client (key_data key) w) (\<lambda>st.
     drop_status (selector_set_interest (client_fd st) OP_WRITE w))))))"

definition target_write_connecting :: "'k os \<Rightarrow> ref selector_key \<Rightarrow> 'k world \<Rightarrow> 'k world result" where
  "target_write_connecting os key w =
     (case target_connection_succeeded os (key_fd key) w of (connected, socket_error, w) \<Rightarrow>
        if \<not> connected then
          bindE (get_client (key_data key) w) (\<lambda>st.
          let w = put_client (key_data key) (st\<lparr>last_connect_error := socket_error\<rparr>) w in
          bindE (drop_status (selector_unregister_fd (handle_close os) (key_fd key) w)) (\<lambda>w.
          bindE (start_next_target_connection os (key_data key) w) (\<lambda>(started, w).
          if started then Inr w else finish_connecting os key False w)))
        else
          bindE (drop_status (selector_set_interest (key_fd key) OP_NOOP w)) (\<lambda>w.
          finish_connecting os key True w))"

definition target_write :: "'k os \<Rightarrow> ref selector_key \<Rightarrow> 'k world \<Rightarrow> 'k world result" where
  "target_write os key w =
     bindE (get_client (key_data key) w) (\<lambda>st.
     if stage st = CLIENT_STAGE_CONNECTING then target_write_connecting os key w
     else
       bindE (send_loop os count_client_to_target (relay_channel ToTarget (key_data key)) (key_fd key)
                (c2t_buffer st) (c2t_off st) (c2t_len st) w)
         (\<lambda>(ended, off, w).
         let w' = put_client (key_data key) (st\<lparr>c2t_off := off\<rparr>) w in
         case ended of
           SendAgain \<Rightarrow> Inr w'
         | SendFailed \<Rightarrow> client_session_close_connection os (key_data key) w'
         | SendDone \<Rightarrow>
             client_session_update_relay_interests (key_data key)
               (put_client (key_data key) (st\<lparr>c2t_len := 0, c2t_off := 0\<rparr>) w)))"

end
