(* ===== verification/Client_Session.thy ===== *)
theory Client_Session
  imports Target_Connection Auth
begin

text \<open>
  \<^verbatim>\<open>src/src/server/client_session.c\<close>: the client's side of a session, from the greeting over
  authentication and the request to the relay, and the listening socket that creates sessions.
  \<open>client_read\<close> is split by stage, as the branches of the C function are.
\<close>

section \<open>Reading from the client\<close>

definition client_read_relay :: "'k os \<Rightarrow> ref selector_key \<Rightarrow> 'k world \<Rightarrow> 'k world result" where
  "client_read_relay os key w =
     bindE (get_client (key_data key) w) (\<lambda>st.
     if c2t_len st \<noteq> 0 then client_session_update_relay_interests (key_data key) w
     else
       case sys_recv os (key_fd key) (length (c2t_buffer st)) (relay_channel FromClient (key_data key)) w of
         (None, w) \<Rightarrow>
           if errno w = EAGAIN \<or> errno w = EWOULDBLOCK then Inr w
           else client_session_close_connection os (key_data key) w
       | (Some bs, w) \<Rightarrow>
           if length bs > 0 then
             bindE (array_write (c2t_buffer st) 0 bs) (\<lambda>buf.
             let w = put_client (key_data key)
                       (st\<lparr>c2t_buffer := buf, c2t_len := length bs, c2t_off := 0\<rparr>) w
             in
             bindE (client_session_update_relay_interests (key_data key) w) (\<lambda>w.
             if target_fd st \<noteq> -1
             then target_write os \<lparr>key_fd = target_fd st, key_data = key_data key\<rparr> w
             else Inr w))
           else client_session_close_connection os (key_data key) w)"

text \<open>Answer the greeting, go to a stage, forget what was received, and wait to write.\<close>

definition answer_greeting ::
  "ref selector_key \<Rightarrow> byte \<Rightarrow> client_stage \<Rightarrow> client_state \<Rightarrow> 'k world \<Rightarrow> 'k world result" where
  "answer_greeting key method next_stage st w =
     bindE (socks5_prepare_greeting_response (write_buffer st) method) (\<lambda>(buf, len, off).
     drop_status (selector_set_interest_key key OP_WRITE
       (put_client (key_data key)
         (st\<lparr>write_buffer := buf, write_len := len, write_off := off, stage := next_stage,
             read_len := 0\<rparr>) w)))"

definition client_read_greeting ::
  "'k os \<Rightarrow> ref selector_key \<Rightarrow> client_state \<Rightarrow> 'k world \<Rightarrow> 'k world result" where
  "client_read_greeting os key st w =
     (if read_len st < 2 then Inr w
      else
        bindE (array_get (read_buffer st) 0) (\<lambda>version.
        bindE (array_get (read_buffer st) 1) (\<lambda>nmethods.
        if version \<noteq> SOCKS5_VERSION \<or> read_len st < 2 + unat nmethods then
          if version = SOCKS5_VERSION then Inr w
          else drop_status (selector_unregister_fd (handle_close os) (key_fd key) w)
        else
          bindE (array_read (read_buffer st) 2 (unat nmethods)) (\<lambda>methods.
          let accepts_username_password = socks5_client_offers_username_password methods;
              accepts_no_auth = socks5_client_offers_no_auth methods
          in
            if accepts_username_password
            then answer_greeting key SOCKS5_METHOD_USERNAME_PASSWORD CLIENT_STAGE_AUTH st w
            else if \<not> auth_is_required (managed_users w) \<and> accepts_no_auth
            then answer_greeting key SOCKS5_METHOD_NO_AUTH CLIENT_STAGE_REQUEST st w
            else answer_greeting key SOCKS5_METHOD_NO_ACCEPTABLE CLIENT_STAGE_CLOSING st w))))"

definition client_read_auth ::
  "'k os \<Rightarrow> ref selector_key \<Rightarrow> client_state \<Rightarrow> 'k world \<Rightarrow> 'k world result" where
  "client_read_auth os key st w =
     bindE (auth_parse_request st (managed_users w)) (\<lambda>(decided, authenticated, st).
     if \<not> decided then Inr w
     else
       bindE (socks5_prepare_auth_response (write_buffer st)
                (if authenticated then SOCKS5_AUTH_SUCCESS else SOCKS5_AUTH_FAILURE)) (\<lambda>(buf, len, off).
       drop_status (selector_set_interest_key key OP_WRITE
         (put_client (key_data key)
           (st\<lparr>write_buffer := buf, write_len := len, write_off := off,
               stage := (if authenticated then CLIENT_STAGE_REQUEST else CLIENT_STAGE_CLOSING),
               read_len := 0\<rparr>) w))))"

definition reject_request ::
  "ref selector_key \<Rightarrow> byte \<Rightarrow> client_state \<Rightarrow> 'k world \<Rightarrow> 'k world result" where
  "reject_request key reply st w =
     bindE (socks5_prepare_request_response (write_buffer st) reply) (\<lambda>(buf, len, off).
     drop_status (selector_set_interest_key key OP_WRITE
       (put_client (key_data key)
         (st\<lparr>write_buffer := buf, write_len := len, write_off := off,
             stage := CLIENT_STAGE_CLOSING, read_len := 0\<rparr>)
         (w\<lparr>current_metrics := metrics_connection_failed (current_metrics w)\<rparr>))))"

definition client_read_request ::
  "'k os \<Rightarrow> ref selector_key \<Rightarrow> client_state \<Rightarrow> 'k world \<Rightarrow> 'k world result" where
  "client_read_request os key st w =
     (if read_len st < 4 then Inr w
      else
        bindE (socks5_request_reply_for (read_buffer st) (read_len st)) (\<lambda>request_reply.
        if request_reply \<noteq> SOCKS5_REPLY_SUCCESS then
          bindE (socks5_request_is_incomplete (read_buffer st) (read_len st)) (\<lambda>incomplete.
          if incomplete then Inr w else reject_request key request_reply st w)
        else
          bindE (socks5_parse_connect_request (read_buffer st) (read_len st)) (\<lambda>parsed.
          case parsed of
            None \<Rightarrow> reject_request key SOCKS5_REPLY_GENERAL_FAILURE st w
          | Some request \<Rightarrow>
              bindE (target_connection_begin os key (key_data key) request w) (\<lambda>w.
              bindE (get_client (key_data key) w) (\<lambda>st.
              Inr (put_client (key_data key) (st\<lparr>read_len := 0\<rparr>) w))))))"

text \<open>
  What follows the stages: an end of the stream closes, and so does an error other than
  \<open>EAGAIN\<close>. Bytes received in any other stage also end here, with whatever \<open>errno\<close> holds.
\<close>

definition client_read_end ::
  "'k os \<Rightarrow> ref selector_key \<Rightarrow> byte list option \<Rightarrow> 'k world \<Rightarrow> 'k world result" where
  "client_read_end os key received w =
     (if received = Some [] then client_session_close_connection os (key_data key) w
      else if errno w = EAGAIN \<or> errno w = EWOULDBLOCK then Inr w
      else client_session_close_connection os (key_data key) w)"

definition client_read :: "'k os \<Rightarrow> ref selector_key \<Rightarrow> 'k world \<Rightarrow> 'k world result" where
  "client_read os key w =
     bindE (get_client (key_data key) w) (\<lambda>st.
     if stage st = CLIENT_STAGE_RELAY then client_read_relay os key w
     else
       case sys_recv os (key_fd key) (length (read_buffer st) - read_len st) Other w of
         (received, w) \<Rightarrow>
           (case received of
              None \<Rightarrow> client_read_end os key received w
            | Some bs \<Rightarrow>
                if length bs > 0 then
                  bindE (array_write (read_buffer st) (read_len st) bs) (\<lambda>buf.
                  let st = st\<lparr>read_buffer := buf, read_len := read_len st + length bs\<rparr>;
                      w = put_client (key_data key) st w
                  in
                    if stage st = CLIENT_STAGE_GREETING then client_read_greeting os key st w
                    else if stage st = CLIENT_STAGE_AUTH then client_read_auth os key st w
                    else if stage st = CLIENT_STAGE_REQUEST then client_read_request os key st w
                    else client_read_end os key received w)
                else client_read_end os key received w))"

section \<open>Accepting clients\<close>

text \<open>
  The loop ends when \<open>accept\<close> fails, with \<open>EAGAIN\<close> or otherwise. The fuel is one more than
  the connections that are waiting, which is enough as each turn takes one.
\<close>

definition new_session :: "int \<Rightarrow> client_state result" where
  "new_session fd =
     bindE (c_snprintf (username zero_client_state) 0 (length (username zero_client_state))
              (bytes ''anonymous'')) (\<lambda>u.
     Inr (zero_client_state\<lparr>stage := CLIENT_STAGE_GREETING, client_fd := fd, target_fd := -1,
            username := u\<rparr>))"

fun accept_loop :: "'k os \<Rightarrow> nat \<Rightarrow> ref selector_key \<Rightarrow> 'k world \<Rightarrow> 'k world result" where
  "accept_loop os 0 key w = Inl LoopBound"
| "accept_loop os (Suc fuel) key w =
     (case sys_accept os (key_fd key) w of
        (None, w) \<Rightarrow> Inr w
      | (Some fd, w) \<Rightarrow>
          case set_nonblocking os fd w of (nonblocking, w) \<Rightarrow>
            if \<not> nonblocking then accept_loop os fuel key (sys_close os fd w)
            else
              case ask (os_calloc os) w of (allocated, w) \<Rightarrow>
                if \<not> allocated then accept_loop os fuel key (sys_close os fd w)
                else
                  bindE (new_session fd) (\<lambda>st.
                  case alloc_client st w of (state, w) \<Rightarrow>
                    bindE (selector_register (os_realloc os) zero_item fd (Some client_handler) OP_READ
                             (Some state) w) (\<lambda>(status, w).
                    accept_loop os fuel key
                      (if status \<noteq> SELECTOR_SUCCESS then sys_close os fd (free_client (Some state) w)
                       else w\<lparr>current_metrics := metrics_connection_opened (current_metrics w),
                              active_client_connections := active_client_connections w + 1\<rparr>))))"

definition accept_connection :: "'k os \<Rightarrow> ref selector_key \<Rightarrow> 'k world \<Rightarrow> 'k world result" where
  "accept_connection os key w = accept_loop os (Suc (os_backlog os (key_fd key) (kern w))) key w"

end
