(* ===== verification/Management.thy ===== *)
theory Management
  imports Connection
begin

text \<open>
  \<^verbatim>\<open>src/src/server/management.c\<close>: the management service. A client sends one line, the server
  answers it and closes. The line is cut into words by \<open>strtok\<close>, which is modelled on the
  array it works on: it writes a NUL behind the word it returns and remembers where to go on.
\<close>

section \<open>The C library's string functions\<close>

definition strcspn :: "byte list \<Rightarrow> byte list \<Rightarrow> nat" where
  "strcspn s reject = length (takeWhile (\<lambda>b. b \<notin> set reject) (cstr s))"

definition strspn :: "byte list \<Rightarrow> byte list \<Rightarrow> nat" where
  "strspn s accept = length (takeWhile (\<lambda>b. b \<in> set accept) (cstr s))"

text \<open>The word's offset, the array and where the next call goes on; \<open>None\<close> for no more words.\<close>

definition strtok :: "byte list \<Rightarrow> byte list \<Rightarrow> nat \<Rightarrow> (nat option \<times> byte list \<times> nat) result" where
  "strtok delims buf pos =
     (if \<not> terminated (drop pos buf) then Inl OutOfBounds
      else
        let start = pos + strspn (drop pos buf) delims;
            len = strcspn (drop start buf) delims
        in
          if len = 0 then Inr (None, buf, start)
          else
            bindE (array_get buf (start + len)) (\<lambda>c.
            if c = 0 then Inr (Some start, buf, start + len)
            else bindE (array_put buf (start + len) 0) (\<lambda>buf. Inr (Some start, buf, start + len + 1))))"

definition tolower :: "byte \<Rightarrow> byte" where
  "tolower c = (if 65 \<le> c \<and> c \<le> 90 then c + 32 else c)"

text \<open>The string at an offset of an array, and \<open>strcasecmp (...) == 0\<close> of two strings.\<close>

definition c_string :: "byte list \<Rightarrow> nat \<Rightarrow> byte list result" where
  "c_string buf p = (if terminated (drop p buf) then Inr (cstr (drop p buf)) else Inl OutOfBounds)"

definition same_word :: "byte list \<Rightarrow> string \<Rightarrow> bool" where
  "same_word s t \<longleftrightarrow> map tolower s = map tolower (bytes t)"

section \<open>Answering a line\<close>

definition metrics_text :: "server_metrics \<Rightarrow> byte list" where
  "metrics_text m =
     bytes ''historical_connections='' @ dec (unat (historical_connections m)) @ [10]
   @ bytes ''concurrent_connections='' @ dec (unat (concurrent_connections m)) @ [10]
   @ bytes ''successful_connections='' @ dec (unat (successful_connections m)) @ [10]
   @ bytes ''failed_connections='' @ dec (unat (failed_connections m)) @ [10]
   @ bytes ''bytes_transferred='' @ dec (unat (metrics_total_transferred_bytes (Some m))) @ [10]
   @ bytes ''bytes_client_to_target='' @ dec (unat (bytes_client_to_target m)) @ [10]
   @ bytes ''bytes_target_to_client='' @ dec (unat (bytes_target_to_client m)) @ [10]"

definition format_metrics_response :: "byte list \<Rightarrow> nat \<Rightarrow> server_metrics \<Rightarrow> byte list result" where
  "format_metrics_response buffer buffer_size m = c_snprintf buffer 0 buffer_size (metrics_text m)"

definition users_answer :: "string \<Rightarrow> users_result \<Rightarrow> managed_user list \<Rightarrow> byte list" where
  "users_answer what res us =
     bytes what @ bytes ''='' @ bytes (users_result_name res) @ [10]
     @ bytes ''users_count='' @ dec (users_count us) @ [10]"

text \<open>
  The words are offsets into the array \<open>buf\<close> that the three calls of \<open>strtok\<close> leave; \<open>pos\<close> is
  where a fourth one goes on. The result is the write buffer, the read buffer and the users.
\<close>

definition management_command ::
  "nat option \<Rightarrow> nat option \<Rightarrow> nat option \<Rightarrow> byte list \<Rightarrow> nat \<Rightarrow> byte list
     \<Rightarrow> server_metrics \<Rightarrow> managed_user list \<Rightarrow> (byte list \<times> byte list \<times> managed_user list) result" where
  "management_command command arg1 arg2 buf pos out m us =
     (let say = (\<lambda>text. bindE (c_snprintf out 0 (length out) text) (\<lambda>out. Inr (out, buf, us))) in
      case command of
        None \<Rightarrow> say (bytes ''error=empty_command'' @ [10])
      | Some p \<Rightarrow>
          bindE (c_string buf p) (\<lambda>c.
          if same_word c ''STATS'' \<or> same_word c ''METRICS'' then
            bindE (format_metrics_response out (length out) m) (\<lambda>out. Inr (out, buf, us))
          else if same_word c ''USERS'' then
            bindE (users_format_list out (length out) us) (\<lambda>out. Inr (out, buf, us))
          else if same_word c ''ADDUSER'' then
            bindE (if arg1 = None \<or> arg2 = None then Inr (True, buf)
                   else bindE (strtok [32, 9] buf pos) (\<lambda>(arg3, buf, pos). Inr (arg3 \<noteq> None, buf)))
              (\<lambda>(usage, buf).
              if usage then
                bindE (c_snprintf out 0 (length out) (bytes ''error=usage_ADDUSER_user_pass'' @ [10]))
                  (\<lambda>out. Inr (out, buf, us))
              else
                bindE (c_string buf (the arg1)) (\<lambda>name.
                bindE (c_string buf (the arg2)) (\<lambda>pass.
                bindE (users_add (Some name) (Some pass) us) (\<lambda>(res, us).
                bindE (c_snprintf out 0 (length out) (users_answer ''adduser'' res us))
                  (\<lambda>out. Inr (out, buf, us))))))
          else if same_word c ''DELUSER'' then
            (if arg1 = None \<or> arg2 \<noteq> None then say (bytes ''error=usage_DELUSER_user'' @ [10])
             else
               bindE (c_string buf (the arg1)) (\<lambda>name.
               bindE (users_remove (Some name) us) (\<lambda>(res, us).
               bindE (c_snprintf out 0 (length out) (users_answer ''deluser'' res us))
                 (\<lambda>out. Inr (out, buf, us)))))
          else if same_word c ''QUIT'' then say (bytes ''ok=bye'' @ [10])
          else if same_word c ''HELP'' then
            say (bytes ''commands=STATS,METRICS,USERS,ADDUSER,DELUSER,HELP,QUIT'' @ [10])
          else say (bytes ''error=unknown_command'' @ [10])))"

definition management_prepare_response ::
  "management_state \<Rightarrow> server_metrics \<Rightarrow> managed_user list
     \<Rightarrow> (management_state \<times> managed_user list) result" where
  "management_prepare_response st m us =
     bindE (array_put (mg_read_buffer st) (mg_read_len st) 0) (\<lambda>buf.
     bindE (array_put buf (strcspn buf [13, 10]) 0) (\<lambda>buf.
     bindE (strtok [32, 9] buf 0) (\<lambda>(command, buf, pos).
     bindE (strtok [32, 9] buf pos) (\<lambda>(arg1, buf, pos).
     bindE (strtok [32, 9] buf pos) (\<lambda>(arg2, buf, pos).
     bindE (management_command command arg1 arg2 buf pos (mg_write_buffer st) m us) (\<lambda>(out, buf, us).
     bindE (strlen out) (\<lambda>n.
     Inr (st\<lparr>mg_read_buffer := buf, mg_write_buffer := out, mg_write_len := n, mg_write_off := 0\<rparr>,
          us))))))))"

section \<open>The handlers\<close>

text \<open>All three ways out of the loop but one lead to closing.\<close>

definition management_write :: "'k os \<Rightarrow> ref selector_key \<Rightarrow> 'k world \<Rightarrow> 'k world result" where
  "management_write os key w =
     bindE (get_mgmt (key_data key) w) (\<lambda>st.
     bindE (send_loop os count_nothing Other (key_fd key) (mg_write_buffer st) (mg_write_off st)
              (mg_write_len st) w) (\<lambda>(ended, off, w).
     let w = put_mgmt (key_data key) (st\<lparr>mg_write_off := off\<rparr>) w in
     case ended of
       SendAgain \<Rightarrow> Inr w
     | SendFailed \<Rightarrow> drop_status (selector_unregister_fd (handle_close os) (key_fd key) w)
     | SendDone \<Rightarrow> drop_status (selector_unregister_fd (handle_close os) (key_fd key) w)))"

definition management_read :: "'k os \<Rightarrow> ref selector_key \<Rightarrow> 'k world \<Rightarrow> 'k world result" where
  "management_read os key w =
     bindE (get_mgmt (key_data key) w) (\<lambda>st.
     case sys_recv os (key_fd key) (length (mg_read_buffer st) - mg_read_len st - 1) Other w of
       (None, w) \<Rightarrow>
         if errno w = EAGAIN \<or> errno w = EWOULDBLOCK then Inr w
         else drop_status (selector_unregister_fd (handle_close os) (key_fd key) w)
     | (Some bs, w) \<Rightarrow>
         if length bs > 0 then
           bindE (array_write (mg_read_buffer st) (mg_read_len st) bs) (\<lambda>buf.
           let st = st\<lparr>mg_read_buffer := buf, mg_read_len := mg_read_len st + length bs\<rparr>;
               w = put_mgmt (key_data key) st w
           in
             bindE (array_read (mg_read_buffer st) 0 (mg_read_len st)) (\<lambda>received.
             if 10 \<in> set received \<or> mg_read_len st = length (mg_read_buffer st) - 1 then
               bindE (management_prepare_response st (current_metrics w) (managed_users w)) (\<lambda>(st, us).
               drop_status (selector_set_interest_key key OP_WRITE
                 (put_mgmt (key_data key) st (w\<lparr>managed_users := us\<rparr>))))
             else Inr w))
         else drop_status (selector_unregister_fd (handle_close os) (key_fd key) w))"

fun accept_management_loop :: "'k os \<Rightarrow> nat \<Rightarrow> ref selector_key \<Rightarrow> 'k world \<Rightarrow> 'k world result" where
  "accept_management_loop os 0 key w = Inl LoopBound"
| "accept_management_loop os (Suc fuel) key w =
     (case sys_accept os (key_fd key) w of
        (None, w) \<Rightarrow> Inr w
      | (Some fd, w) \<Rightarrow>
          case set_nonblocking os fd w of (nonblocking, w) \<Rightarrow>
            if \<not> nonblocking then accept_management_loop os fuel key (sys_close os fd w)
            else
              case ask (os_calloc os) w of (allocated, w) \<Rightarrow>
                if \<not> allocated then accept_management_loop os fuel key (sys_close os fd w)
                else
                  case alloc_mgmt zero_management_state w of (state, w) \<Rightarrow>
                    bindE (selector_register (os_realloc os) zero_item fd (Some management_client_handler)
                             OP_READ (Some state) w) (\<lambda>(status, w).
                    accept_management_loop os fuel key
                      (if status \<noteq> SELECTOR_SUCCESS then sys_close os fd (free_mgmt (Some state) w)
                       else w)))"

definition accept_management_connection :: "'k os \<Rightarrow> ref selector_key \<Rightarrow> 'k world \<Rightarrow> 'k world result" where
  "accept_management_connection os key w =
     accept_management_loop os (Suc (os_backlog os (key_fd key) (kern w))) key w"

section \<open>Words\<close>

lemma nth_length_cstr: "terminated xs \<Longrightarrow> xs ! length (cstr xs) = 0"
  using length_cstr_terminated [of xs] by (auto simp: cstr_def dest: nth_length_takeWhile)

lemma cstr_append: "terminated xs \<Longrightarrow> cstr (xs @ ys) = cstr xs"
  by (induction xs) (auto simp: terminated_def)

lemma cstr_put_nul:
  "i < length xs \<Longrightarrow> cstr (xs[i := 0]) = takeWhile (\<lambda>b. b \<noteq> 0) (take i xs) \<and> terminated (xs[i := 0])"
proof (induction xs arbitrary: i)
  case Nil
  then show ?case by simp
next
  case (Cons x xs)
  then show ?case by (cases i) (auto simp: terminated_def)
qed

lemma cstr_put_behind: "length (cstr xs) < i \<Longrightarrow> cstr (xs[i := v]) = cstr xs"
proof (induction xs arbitrary: i)
  case Nil
  then show ?case by simp
next
  case (Cons x xs)
  then show ?case by (cases i) (auto split: if_splits)
qed

lemma cstr_drop: "k \<le> length (cstr xs) \<Longrightarrow> cstr (drop k xs) = drop k (cstr xs)"
proof (induction xs arbitrary: k)
  case Nil
  then show ?case by simp
next
  case (Cons x xs)
  then show ?case by (cases k) (auto split: if_splits)
qed

lemma terminated_drop: "k \<le> length (cstr xs) \<Longrightarrow> terminated xs \<Longrightarrow> terminated (drop k xs)"
  using length_cstr_terminated [of xs] cstr_drop [of k xs] by (intro terminatedI) simp

lemma take_cstr: "k \<le> length (cstr xs) \<Longrightarrow> takeWhile (\<lambda>b. b \<noteq> 0) (take k xs) = take k (cstr xs)"
proof (induction xs arbitrary: k)
  case Nil
  then show ?case by simp
next
  case (Cons x xs)
  then show ?case by (cases k) (auto split: if_splits)
qed

function words :: "byte list \<Rightarrow> byte list \<Rightarrow> byte list list" where
  "words delims s =
     (let t = dropWhile (\<lambda>b. b \<in> set delims) s;
          v = takeWhile (\<lambda>b. b \<notin> set delims) t
      in if v = [] then [] else v # words delims (dropWhile (\<lambda>b. b \<notin> set delims) t))"
  by auto
termination
proof (relation "measure (\<lambda>(delims, s). length s)", simp, clarsimp)
  fix delims s :: "byte list"
  let ?t = "dropWhile (\<lambda>b. b \<in> set delims) s"
  assume "takeWhile (\<lambda>b. b \<notin> set delims) ?t \<noteq> []"
  then have "length (dropWhile (\<lambda>b. b \<notin> set delims) ?t) < length ?t"
    by (cases ?t) (auto simp: length_dropWhile_le less_Suc_eq_le split: if_splits)
  also have "\<dots> \<le> length s" by (rule length_dropWhile_le)
  finally show "length (dropWhile (\<lambda>b. b \<notin> set delims) ?t) < length s" .
qed

declare words.simps [simp del]

lemma words_Nil [simp]: "words delims [] = []"
  by (subst words.simps) simp

lemma no_word: "takeWhile (\<lambda>b. b \<notin> A) (dropWhile (\<lambda>b. b \<in> A) s) = [] \<Longrightarrow> dropWhile (\<lambda>b. b \<in> A) s = []"
  using hd_dropWhile [of "\<lambda>b. b \<in> A" s] by (cases "dropWhile (\<lambda>b. b \<in> A) s") (simp_all split: if_splits)

text \<open>A delimiter behind a word may be dropped before the next word is looked for.\<close>

lemma words_skip: "b \<in> set delims \<Longrightarrow> words delims (b # s) = words delims s"
proof -
  assume "b \<in> set delims"
  then have "dropWhile (\<lambda>b. b \<in> set delims) (b # s) = dropWhile (\<lambda>b. b \<in> set delims) s" by simp
  then show ?thesis by (metis words.simps)
qed

text \<open>
  One call of \<open>strtok\<close> takes the first word of the string at its position, and leaves the other
  words for the next call; a string that ends at or before that position keeps its value.
\<close>

text \<open>Where the next token starts and how long it is.\<close>

lemma strtok_token:
  assumes "terminated (drop pos buf)" "0 \<notin> set delims"
  obtains start n where "pos \<le> start" "terminated (drop start buf)" "n \<le> length (cstr (drop start buf))"
    "words delims (cstr (drop pos buf)) =
       (if n = 0 then [] else take n (cstr (drop start buf)) # words delims (drop n (cstr (drop start buf))))"
    "n = 0 \<longrightarrow> cstr (drop start buf) = []"
    "n < length (cstr (drop start buf)) \<longrightarrow> cstr (drop start buf) ! n \<in> set delims"
    "strtok delims buf pos = (if n = 0 then Inr (None, buf, start)
      else bindE (array_get buf (start + n)) (\<lambda>c. if c = 0 then Inr (Some start, buf, start + n)
        else bindE (array_put buf (start + n) 0) (\<lambda>buf. Inr (Some start, buf, start + n + 1))))"
proof -
  let ?D = "\<lambda>b. b \<in> set delims"
  define s where "s = cstr (drop pos buf)"
  define start where "start = pos + strspn (drop pos buf) delims"
  have ge: "pos \<le> start" by (simp add: start_def)
  define t where "t = cstr (drop start buf)"
  define n where "n = strcspn (drop start buf) delims"
  have sp: "strspn (drop pos buf) delims = length (takeWhile ?D s)" by (simp add: strspn_def s_def)
  have le: "strspn (drop pos buf) delims \<le> length s" unfolding sp by (rule length_takeWhile_le)
  have r: "t = dropWhile ?D s" "terminated (drop start buf)"
    using cstr_drop [OF le [unfolded s_def]] terminated_drop [OF le [unfolded s_def] assms(1)]
    by (simp_all add: sp dropWhile_eq_drop add.commute start_def t_def s_def [symmetric])
  have n: "n = length (takeWhile (\<lambda>b. \<not> ?D b) t)" by (simp add: n_def strcspn_def t_def)
  have v: "takeWhile (\<lambda>b. \<not> ?D b) t = take n t" unfolding n by (rule takeWhile_eq_take)
  have w: "words delims s = (if n = 0 then [] else take n t # words delims (drop n t))"
    unfolding v [symmetric] unfolding n dropWhile_eq_drop [symmetric] unfolding r(1)
    by (subst words.simps) (simp add: Let_def)
  have z: "n = 0 \<longrightarrow> t = []"
    using no_word [of "set delims" s] unfolding r(1) [symmetric] n by simp
  have d: "n < length t \<longrightarrow> t ! n \<in> set delims"
    using nth_length_takeWhile [of "\<lambda>b. \<not> ?D b" t] by (simp add: n)
  show thesis
  proof (rule that [of start n])
    show "strtok delims buf pos = (if n = 0 then Inr (None, buf, start)
      else bindE (array_get buf (start + n)) (\<lambda>c. if c = 0 then Inr (Some start, buf, start + n)
        else bindE (array_put buf (start + n) 0) (\<lambda>buf. Inr (Some start, buf, start + n + 1))))"
      using assms(1) unfolding strtok_def Let_def start_def n_def by simp
    show "n \<le> length (cstr (drop start buf))" unfolding t_def [symmetric] n by (rule length_takeWhile_le)
  qed (use ge r(2) w z d in \<open>simp_all add: t_def s_def\<close>)
qed

text \<open>The NUL behind a token does not touch the strings before it.\<close>

lemma strings_before_kept:
  assumes q: "terminated (drop q buf)" "q + length (cstr (drop q buf)) \<le> i" and i: "buf ! i \<noteq> 0"
  shows "terminated (drop q (buf[i := 0])) \<and> cstr (drop q (buf[i := 0])) = cstr (drop q buf)"
proof -
  let ?e = "q + length (cstr (drop q buf))"
  have el: "length (cstr (drop q buf)) < length (drop q buf)" by (rule length_cstr_terminated [OF q(1)])
  then have "buf ! ?e = 0" using nth_length_cstr [OF q(1)] by simp
  then have "?e \<noteq> i" using i by auto
  with q(2) have lt: "?e < i" by simp
  have "drop q (buf[i := 0]) = (drop q buf)[i - q := 0]" using lt by (simp add: drop_update_swap)
  moreover have "length (cstr (drop q buf)) < i - q" using lt by simp
  ultimately have s: "cstr (drop q (buf[i := 0])) = cstr (drop q buf)" using cstr_put_behind by simp
  then show ?thesis using el by (auto intro: terminatedI)
qed

lemma strtok_words:
  assumes t: "terminated (drop pos buf)" and nul: "0 \<notin> set delims"
  shows "returns (strtok delims buf pos) (\<lambda>(r, buf', pos').
    length buf' = length buf \<and> terminated (drop pos' buf')
    \<and> (case r of
         None \<Rightarrow> words delims (cstr (drop pos buf)) = [] \<and> words delims (cstr (drop pos' buf')) = []
       | Some p \<Rightarrow> words delims (cstr (drop pos buf)) = cstr (drop p buf') # words delims (cstr (drop pos' buf'))
           \<and> terminated (drop p buf') \<and> p + length (cstr (drop p buf')) \<le> pos')
    \<and> (\<forall>q. terminated (drop q buf) \<longrightarrow> q + length (cstr (drop q buf)) \<le> pos \<longrightarrow>
         terminated (drop q buf') \<and> cstr (drop q buf') = cstr (drop q buf)
         \<and> q + length (cstr (drop q buf)) \<le> pos'))"
proof -
  obtain start n where s: "pos \<le> start" "terminated (drop start buf)" "n \<le> length (cstr (drop start buf))"
    "words delims (cstr (drop pos buf)) =
       (if n = 0 then [] else take n (cstr (drop start buf)) # words delims (drop n (cstr (drop start buf))))"
    "n = 0 \<longrightarrow> cstr (drop start buf) = []"
    "n < length (cstr (drop start buf)) \<longrightarrow> cstr (drop start buf) ! n \<in> set delims"
    "strtok delims buf pos = (if n = 0 then Inr (None, buf, start)
      else bindE (array_get buf (start + n)) (\<lambda>c. if c = 0 then Inr (Some start, buf, start + n)
        else bindE (array_put buf (start + n) 0) (\<lambda>buf. Inr (Some start, buf, start + n + 1))))"
    by (rule strtok_token [OF t nul])
  let ?t = "cstr (drop start buf)"
  have lt: "start + n < length buf" using s(3) length_cstr_terminated [OF s(2)] by simp
  have at: "buf ! (start + n) = drop start buf ! n" using lt by simp
  consider (none) "n = 0" | (last) "0 < n" "n = length ?t" | (cut) "0 < n" "n < length ?t"
    using s(3) by linarith
  then show ?thesis
  proof cases
    case none
    with s show ?thesis by auto
  next
    case last
    have "drop start buf ! n = 0" using nth_length_cstr [OF s(2)] last(2) by simp
    moreover have "cstr (drop (start + n) buf) = []" "terminated (drop (start + n) buf)"
      using cstr_drop [of n "drop start buf"] terminated_drop [of n "drop start buf"] s(2) last(2)
      by (simp_all add: add.commute)
    ultimately show ?thesis using last s(1,2,4,7) lt by (auto simp: at)
  next
    case cut
    let ?buf = "buf[start + n := 0]"
    have "?t ! n = buf ! (start + n)" unfolding at cstr_def by (rule takeWhile_nth [OF cut(2) [unfolded cstr_def]])
    then have nz: "buf ! (start + n) \<noteq> 0" using cut(2) s(6) nul by auto
    have "n < length (drop start buf)" using lt by simp
    then have word: "cstr (drop start ?buf) = take n ?t" "terminated (drop start ?buf)"
      using cstr_put_nul [of n "drop start buf"] take_cstr [OF s(3)] by (simp_all add: drop_update_swap)
    have after: "cstr (drop (start + n + 1) ?buf) = drop (Suc n) ?t" "terminated (drop (start + n + 1) ?buf)"
      using cstr_drop [of "Suc n" "drop start buf"] terminated_drop [of "Suc n" "drop start buf"] cut(2) s(2)
      by (simp_all add: add.commute)
    have "words delims (drop n ?t) = words delims (drop (Suc n) ?t)"
      unfolding Cons_nth_drop_Suc [OF cut(2), symmetric] using s(6) cut(2) by (intro words_skip) simp
    then have "words delims (cstr (drop pos buf)) = cstr (drop start ?buf) # words delims (cstr (drop (start + n + 1) ?buf))"
      using s(4) cut(1) by (simp only: word(1) after(1)) simp
    moreover have "terminated (drop q ?buf) \<and> cstr (drop q ?buf) = cstr (drop q buf)
        \<and> q + length (cstr (drop q buf)) \<le> start + n + 1"
      if "terminated (drop q buf)" "q + length (cstr (drop q buf)) \<le> pos" for q
      using strings_before_kept [OF that(1) _ nz] that(2) s(1) by simp
    ultimately show ?thesis using word after s(7) cut nz lt by simp
  qed
qed

section \<open>What a line is answered\<close>

text \<open>
  The specification of a command: the words of the line, without regard to how they were cut
  out, determine the text of the answer and the new table of users.
\<close>

definition command_answer ::
  "byte list list \<Rightarrow> server_metrics \<Rightarrow> managed_user list \<Rightarrow> (byte list \<times> managed_user list) result" where
  "command_answer ws m us =
     (case ws of
        [] \<Rightarrow> Inr (bytes ''error=empty_command'' @ [10], us)
      | c # args \<Rightarrow>
          if same_word c ''STATS'' \<or> same_word c ''METRICS'' then Inr (metrics_text m, us)
          else if same_word c ''USERS'' then Inr (users_listing us, us)
          else if same_word c ''ADDUSER'' then
            (if length args \<noteq> 2 then Inr (bytes ''error=usage_ADDUSER_user_pass'' @ [10], us)
             else bindE (users_add (Some (args ! 0)) (Some (args ! 1)) us) (\<lambda>(res, us).
                  Inr (users_answer ''adduser'' res us, us)))
          else if same_word c ''DELUSER'' then
            (if length args \<noteq> 1 then Inr (bytes ''error=usage_DELUSER_user'' @ [10], us)
             else bindE (users_remove (Some (args ! 0)) us) (\<lambda>(res, us).
                  Inr (users_answer ''deluser'' res us, us)))
          else if same_word c ''QUIT'' then Inr (bytes ''ok=bye'' @ [10], us)
          else if same_word c ''HELP'' then
            Inr (bytes ''commands=STATS,METRICS,USERS,ADDUSER,DELUSER,HELP,QUIT'' @ [10], us)
          else Inr (bytes ''error=unknown_command'' @ [10], us))"

definition line_of :: "byte list \<Rightarrow> byte list" where
  "line_of received = takeWhile (\<lambda>b. b \<noteq> 0 \<and> b \<noteq> 13 \<and> b \<noteq> 10) received"

definition printed :: "byte list \<Rightarrow> byte list \<Rightarrow> byte list \<Rightarrow> bool" where
  "printed out s out' \<longleftrightarrow> length out' = length out \<and> cstr out' = take (length out - 1) s"

lemma c_snprintf_printed:
  assumes "0 < length out" "0 \<notin> set s"
  shows "returns (c_snprintf out 0 (length out) s) (printed out s)"
  using c_snprintf_string [OF assms(1) order_refl assms(2)] returns_c_snprintf [of 0 "length out" out s]
  by (auto simp: printed_def returns_iff)

lemma printed_terminated: "0 < length out \<Longrightarrow> printed out s out' \<Longrightarrow> terminated out'"
  by (cases out) (auto simp: printed_def intro!: terminatedI)

lemma users_result_no_nul [simp]: "0 \<notin> set (bytes (users_result_name res))"
  by (cases res) (simp_all add: bytes_def)

lemma metrics_text_no_nul [simp]: "0 \<notin> set (metrics_text m)"
  by (simp add: metrics_text_def bytes_def)

lemma users_answer_no_nul:
  "0 \<notin> set (users_answer ''adduser'' res us)" "0 \<notin> set (users_answer ''deluser'' res us)"
  by (simp_all add: users_answer_def) (simp_all add: bytes_def)

text \<open>
  \<open>fetched buf os ws pos\<close>: the three results \<open>os\<close> of \<open>strtok\<close> are the first words of \<open>ws\<close>, and
  the others, if any, are what a further call at \<open>pos\<close> would find.
\<close>

fun fetched :: "byte list \<Rightarrow> nat option list \<Rightarrow> byte list list \<Rightarrow> nat \<Rightarrow> bool" where
  "fetched buf [] ws pos \<longleftrightarrow> terminated (drop pos buf) \<and> words [32, 9] (cstr (drop pos buf)) = ws"
| "fetched buf (None # ps) ws pos \<longleftrightarrow> ws = [] \<and> fetched buf ps [] pos"
| "fetched buf (Some p # ps) ws pos \<longleftrightarrow> terminated (drop p buf) \<and> p + length (cstr (drop p buf)) \<le> pos
     \<and> (\<exists>ws'. ws = cstr (drop p buf) # ws' \<and> fetched buf ps ws' pos)"

lemma fetched_terminated: "fetched buf ps ws pos \<Longrightarrow> terminated (drop pos buf)"
  by (induction buf ps ws pos rule: fetched.induct) auto

lemma fetched_step:
  "fetched buf ps ws pos \<Longrightarrow> returns (strtok [32, 9] buf pos)
    (\<lambda>(r, buf', pos'). length buf' = length buf \<and> fetched buf' (ps @ [r]) ws pos')"
proof (induction ps arbitrary: ws)
  case Nil
  have t: "terminated (drop pos buf)" using Nil.prems by simp
  have nul: "0 \<notin> set [32, 9 :: byte]" by simp
  show ?case
    using Nil.prems by (intro returns_mono [OF strtok_words [OF t nul]]) (auto split: option.splits)
next
  case (Cons p ps)
  show ?case
  proof (cases p)
    case None
    with Cons.prems have e: "ws = []" "fetched buf ps [] pos" by simp_all
    from Cons.IH [OF e(2)] show ?thesis by (rule returns_mono) (auto simp: e None)
  next
    case (Some q)
    with Cons.prems obtain ws' where q: "terminated (drop q buf)" "q + length (cstr (drop q buf)) \<le> pos"
      and ws: "ws = cstr (drop q buf) # ws'" "fetched buf ps ws' pos" by auto
    note t = fetched_terminated [OF ws(2)]
    have nul: "0 \<notin> set [32, 9 :: byte]" by simp
    have "returns (strtok [32, 9] buf pos) (\<lambda>(r, buf', pos').
        terminated (drop q buf') \<and> cstr (drop q buf') = cstr (drop q buf) \<and> q + length (cstr (drop q buf)) \<le> pos')"
      using q by (intro returns_mono [OF strtok_words [OF t nul]]) auto
    from returns_conj [OF this Cons.IH [OF ws(2)]] show ?thesis
      by (rule returns_mono) (auto simp: Some ws(1))
  qed
qed

lemma usage_no_nul:
  "0 \<notin> set (bytes ''error=usage_ADDUSER_user_pass'')" "0 \<notin> set (bytes ''error=usage_DELUSER_user'')"
  by (simp_all add: bytes_def)

lemma command_no_nul:
  "0 \<notin> set (bytes ''error=empty_command'')" "0 \<notin> set (bytes ''ok=bye'')"
  "0 \<notin> set (bytes ''commands=STATS,METRICS,USERS,ADDUSER,DELUSER,HELP,QUIT'')"
  "0 \<notin> set (bytes ''error=unknown_command'')"
  by (simp_all add: bytes_def)

lemma say_printed:
  assumes "0 < length out"
  shows "0 \<notin> set (bytes s) \<Longrightarrow> returns (c_snprintf out 0 (length out) (bytes s @ [10])) (printed out (bytes s @ [10]))"
    "returns (c_snprintf out 0 (length out) (users_answer ''adduser'' res us)) (printed out (users_answer ''adduser'' res us))"
    "returns (c_snprintf out 0 (length out) (users_answer ''deluser'' res us)) (printed out (users_answer ''deluser'' res us))"
    "returns (c_snprintf out 0 (length out) (metrics_text m)) (printed out (metrics_text m))"
  by (rule c_snprintf_printed [OF assms], simp add: users_answer_no_nul metrics_text_no_nul)+

lemma list_printed:
  "0 < length out \<Longrightarrow> users_wf us \<Longrightarrow> returns (users_format_list out (length out) us) (printed out (users_listing us))"
  by (rule returns_mono [OF users_format_list_listing]) (simp_all add: printed_def)

text \<open>What a command with the words \<open>ws\<close> has to do with the strings in \<open>buf\<close>.\<close>

definition answers_as :: "byte list list \<Rightarrow> nat option \<Rightarrow> nat option \<Rightarrow> nat option \<Rightarrow> byte list \<Rightarrow> nat \<Rightarrow> byte list
    \<Rightarrow> server_metrics \<Rightarrow> managed_user list \<Rightarrow> bool" where
  "answers_as ws command arg1 arg2 buf pos out m us \<longleftrightarrow>
     returns (command_answer ws m us) (\<lambda>(answer, us'). users_wf us'
       \<and> returns (management_command command arg1 arg2 buf pos out m us)
           (\<lambda>(out', buf', us2). printed out answer out' \<and> length buf' = length buf \<and> us2 = us'))"

lemmas command_steps = answers_as_def management_command_def command_answer_def Let_def

lemma adduser_exact:
  assumes p: "c_string buf p = Inr c" and f: "fetched buf [arg1, arg2] args pos" and out: "0 < length out"
    and us: "users_wf us" and c: "same_word c ''ADDUSER''" "\<not> same_word c ''STATS''" "\<not> same_word c ''METRICS''"
      "\<not> same_word c ''USERS''"
  shows "answers_as (c # args) (Some p) arg1 arg2 buf pos out m us"
proof (cases "arg1 = None \<or> arg2 = None")
  case True
  with f have "length args \<noteq> 2" by (cases arg1; cases arg2) auto
  with True us say_printed(1) [OF out usage_no_nul(1)] c show ?thesis
    by (auto simp: command_steps p elim!: returns_mono)
next
  case False
  then obtain a1 a2 where a: "arg1 = Some a1" "arg2 = Some a2" by auto
  obtain r buf' pos' where tok: "strtok [32, 9] buf pos = Inr (r, buf', pos')" "length buf' = length buf"
    and fr: "fetched buf' ([Some a1, Some a2] @ [r]) args pos'"
    by (rule returnsE [OF fetched_step [OF f [unfolded a]]]) auto
  show ?thesis
  proof (cases r)
    case (Some a3)
    with fr have "length args \<noteq> 2" by auto
    with us say_printed(1) [OF out usage_no_nul(1)] c show ?thesis
      by (auto simp: command_steps p a tok Some elim!: returns_mono)
  next
    case None
    with fr have args: "args = [cstr (drop a1 buf'), cstr (drop a2 buf')]"
      and cs: "c_string buf' a1 = Inr (cstr (drop a1 buf'))" "c_string buf' a2 = Inr (cstr (drop a2 buf'))"
      by (auto simp: c_string_def)
    obtain res us' where add: "users_add (Some (args ! 0)) (Some (args ! 1)) us = Inr (res, us')"
      and us': "users_wf us'" by (rule returnsE [OF users_add_store [OF us]]) auto
    from say_printed(2) [OF out, of res us'] add us' c tok(2) show ?thesis
      by (auto simp: command_steps p a tok None cs args elim!: returns_mono)
  qed
qed

lemma deluser_exact:
  assumes p: "c_string buf p = Inr c" and f: "fetched buf [arg1, arg2] args pos" and out: "0 < length out"
    and us: "users_wf us" and c: "same_word c ''DELUSER''" "\<not> same_word c ''STATS''" "\<not> same_word c ''METRICS''"
      "\<not> same_word c ''USERS''" "\<not> same_word c ''ADDUSER''"
  shows "answers_as (c # args) (Some p) arg1 arg2 buf pos out m us"
proof (cases "\<exists>a. arg1 = Some a \<and> arg2 = None")
  case False
  with f have u: "length args \<noteq> 1" "arg1 = None \<or> arg2 \<noteq> None" by (cases arg1; cases arg2; auto)+
  with us say_printed(1) [OF out usage_no_nul(2)] c show ?thesis
    by (auto simp: command_steps p elim!: returns_mono)
next
  case True
  then obtain a where a: "arg1 = Some a" "arg2 = None" by blast
  with f have args: "args = [cstr (drop a buf)]" and cs: "c_string buf a = Inr (cstr (drop a buf))"
    by (auto simp: c_string_def)
  obtain res us' where del: "users_remove (Some (args ! 0)) us = Inr (res, us')"
    and us': "users_wf us'" by (rule returnsE [OF users_remove_store [OF us]]) auto
  from say_printed(3) [OF out, of res us'] del us' c show ?thesis
    by (auto simp: command_steps p a cs args elim!: returns_mono)
qed

lemma command_exact:
  assumes f: "fetched buf [command, arg1, arg2] ws pos" and out: "0 < length out" and us: "users_wf us"
  shows "answers_as ws command arg1 arg2 buf pos out m us"
proof (cases command)
  case None
  with f have "ws = []" by simp
  with None say_printed(1) [OF out command_no_nul(1)] us show ?thesis by (auto simp: command_steps elim!: returns_mono)
next
  case (Some p)
  with f obtain args where p: "c_string buf p = Inr (cstr (drop p buf))" and ws: "ws = cstr (drop p buf) # args"
    and fa: "fetched buf [arg1, arg2] args pos" by (auto simp: c_string_def)
  let ?c = "cstr (drop p buf)"
  consider (add) "same_word ?c ''ADDUSER''" "\<not> same_word ?c ''STATS''" "\<not> same_word ?c ''METRICS''" "\<not> same_word ?c ''USERS''"
    | (del) "same_word ?c ''DELUSER''" "\<not> same_word ?c ''STATS''" "\<not> same_word ?c ''METRICS''" "\<not> same_word ?c ''USERS''"
        "\<not> same_word ?c ''ADDUSER''"
    | (other) "same_word ?c ''STATS'' \<or> same_word ?c ''METRICS'' \<or> same_word ?c ''USERS''
        \<or> \<not> same_word ?c ''ADDUSER'' \<and> \<not> same_word ?c ''DELUSER''" by blast
  then show ?thesis
  proof cases
    case add
    then show ?thesis unfolding Some ws by (rule adduser_exact [OF p fa out us])
  next
    case del
    then show ?thesis unfolding Some ws by (rule deluser_exact [OF p fa out us])
  next
    case other
    with say_printed(1) [OF out command_no_nul(2)] say_printed(1) [OF out command_no_nul(3)]
      say_printed(1) [OF out command_no_nul(4)] say_printed(4) [OF out] list_printed [OF out us] us
    show ?thesis
      by (auto simp: command_steps Some ws p format_metrics_response_def elim!: returns_mono)
  qed
qed

lemma takeWhile_both: "takeWhile P (takeWhile Q xs) = takeWhile (\<lambda>x. Q x \<and> P x) xs"
  by (induction xs) auto

lemma prepare_exact:
  assumes len: "length (mg_read_buffer st) = MANAGEMENT_BUFFER_SIZE" "mg_read_len st < MANAGEMENT_BUFFER_SIZE"
      "length (mg_write_buffer st) = MANAGEMENT_BUFFER_SIZE"
    and us: "users_wf us"
  defines "ws \<equiv> words [32, 9] (line_of (take (mg_read_len st) (mg_read_buffer st)))"
  shows "returns (command_answer ws m us) (\<lambda>(answer, us'). users_wf us'
    \<and> returns (management_prepare_response st m us) (\<lambda>(st', us2). us2 = us'
         \<and> cstr (mg_write_buffer st') = take (MANAGEMENT_BUFFER_SIZE - 1) answer
         \<and> mg_write_len st' = length (cstr (mg_write_buffer st')) \<and> mg_write_off st' = 0
         \<and> mg_read_len st' = mg_read_len st \<and> length (mg_read_buffer st') = MANAGEMENT_BUFFER_SIZE
         \<and> length (mg_write_buffer st') = MANAGEMENT_BUFFER_SIZE))"
proof -
  let ?n = "mg_read_len st" and ?buf = "mg_read_buffer st"
  let ?b1 = "?buf[?n := 0]"
  have n: "?n < length ?buf" using len by simp
  note b1 = cstr_put_nul [OF n]
  let ?k = "strcspn ?b1 [13, 10]"
  have kl: "?k = length (takeWhile (\<lambda>b. b \<notin> set [13, 10]) (cstr ?b1))" by (simp only: strcspn_def)
  then have k: "?k \<le> length (cstr ?b1)" by (simp only: length_takeWhile_le)
  have kb: "?k < length ?b1" using k length_cstr_terminated [of ?b1] b1 by simp
  let ?b2 = "?b1[?k := 0]"
  have "cstr ?b2 = take ?k (cstr ?b1)" "terminated ?b2"
    using cstr_put_nul [OF kb] take_cstr [OF k] by simp_all
  moreover have "take ?k (cstr ?b1) = takeWhile (\<lambda>b. b \<notin> set [13, 10]) (cstr ?b1)"
    unfolding kl by (rule takeWhile_eq_take [symmetric])
  moreover have "takeWhile (\<lambda>b. b \<notin> set [13, 10]) (cstr ?b1) = line_of (take ?n ?buf)"
    using b1 by (simp add: line_of_def takeWhile_both)
  ultimately have f0: "fetched ?b2 [] ws 0" by (simp add: ws_def)
  obtain c buf3 pos3 where t3: "strtok [32, 9] ?b2 0 = Inr (c, buf3, pos3)" "length buf3 = length ?b2"
    and f3: "fetched buf3 [c] ws pos3"
    by (rule returnsE [OF fetched_step [OF f0]]) auto
  obtain a1 buf4 pos4 where t4: "strtok [32, 9] buf3 pos3 = Inr (a1, buf4, pos4)" "length buf4 = length buf3"
    and f4: "fetched buf4 [c, a1] ws pos4"
    by (rule returnsE [OF fetched_step [OF f3]]) auto
  obtain a2 buf5 pos5 where t5: "strtok [32, 9] buf4 pos4 = Inr (a2, buf5, pos5)" "length buf5 = length buf4"
    and f5: "fetched buf5 [c, a1, a2] ws pos5"
    by (rule returnsE [OF fetched_step [OF f4]]) auto
  have out: "0 < length (mg_write_buffer st)" using len by (simp add: MANAGEMENT_BUFFER_SIZE_def)
  have p: "array_put ?buf ?n 0 = Inr ?b1" "array_put ?b1 ?k 0 = Inr ?b2" using n kb by simp_all
  show ?thesis
  proof (rule returns_mono [OF command_exact [OF f5 out us, of m, unfolded answers_as_def]], goal_cases)
    case (1 x)
    obtain answer us' where x: "x = (answer, us')" by (cases x)
    from 1 obtain out' buf6 where e: "management_command c a1 a2 buf5 pos5 (mg_write_buffer st) m us = Inr (out', buf6, us')"
      "printed (mg_write_buffer st) answer out'" "length buf6 = length buf5" and us': "users_wf us'"
      by (auto simp: x returns_iff)
    have "strlen out' = Inr (length (cstr out'))"
      using printed_terminated [OF out e(2)] by (simp add: strlen_def)
    with e(2) us' len(1,3) t3(2) t4(2) t5(2) e(3) show ?case
      by (simp add: x management_prepare_response_def p t3 t4 t5 e(1) printed_def)
  qed
qed

section \<open>Properties\<close>

text \<open>
  C11. A management line is answered by its words alone: whatever bytes have been received (in
  any case, with any blanks, embedded NULs and line ends), cutting the line with the three or
  four calls of \<open>strtok\<close> and comparing in place stays inside the buffers and has the outcome
  that the words of the line prescribe: the users added or removed, and the text of the
  answer, cut to the 1023 bytes that the write buffer holds, ready to be sent from its start.
\<close>

theorem management_exact:
  assumes "length (mg_read_buffer st) = MANAGEMENT_BUFFER_SIZE" "mg_read_len st < MANAGEMENT_BUFFER_SIZE"
    and "length (mg_write_buffer st) = MANAGEMENT_BUFFER_SIZE" "users_wf us"
  shows "\<exists>answer us'.
    command_answer (words [32, 9] (line_of (take (mg_read_len st) (mg_read_buffer st)))) m us = Inr (answer, us')
    \<and> users_wf us'
    \<and> returns (management_prepare_response st m us) (\<lambda>(st', us2). us2 = us'
         \<and> take (mg_write_len st') (mg_write_buffer st') = take 1023 answer \<and> mg_write_off st' = 0)"
proof -
  obtain answer us' where a: "command_answer (words [32, 9] (line_of (take (mg_read_len st) (mg_read_buffer st)))) m us
      = Inr (answer, us')" "users_wf us'"
    and r: "returns (management_prepare_response st m us) (\<lambda>(st', us2). us2 = us'
         \<and> cstr (mg_write_buffer st') = take (MANAGEMENT_BUFFER_SIZE - 1) answer
         \<and> mg_write_len st' = length (cstr (mg_write_buffer st')) \<and> mg_write_off st' = 0
         \<and> mg_read_len st' = mg_read_len st \<and> length (mg_read_buffer st') = MANAGEMENT_BUFFER_SIZE
         \<and> length (mg_write_buffer st') = MANAGEMENT_BUFFER_SIZE)"
    by (rule returnsE [OF prepare_exact [OF assms, of m]]) auto
  have "returns (management_prepare_response st m us) (\<lambda>(st', us2). us2 = us'
         \<and> take (mg_write_len st') (mg_write_buffer st') = take 1023 answer \<and> mg_write_off st' = 0)"
  proof (rule returns_mono [OF r], goal_cases)
    case (1 x)
    then obtain st' us2 where x: "x = (st', us2)" "us2 = us'" "mg_write_off st' = 0"
      "mg_write_len st' = length (cstr (mg_write_buffer st'))"
      and out: "cstr (mg_write_buffer st') = take (MANAGEMENT_BUFFER_SIZE - 1) answer"
      by (cases x) auto
    have "MANAGEMENT_BUFFER_SIZE - 1 = 1023" by (simp add: MANAGEMENT_BUFFER_SIZE_def)
    with out have "take (mg_write_len st') (mg_write_buffer st') = take 1023 answer"
      unfolding x(4) take_length_cstr by (simp only:)
    with x show ?case by simp
  qed
  with a show ?thesis by blast
qed

text \<open>The line \<open>help\<close>, with blanks and a carriage return.\<close>

definition help_line :: management_state where
  "help_line = zero_management_state\<lparr>mg_read_buffer := overwrite (mg_read_buffer zero_management_state) 0
     [32, 104, 101, 108, 112, 9, 13, 10], mg_read_len := 8\<rparr>"

theorem management_exact_witness:
  "returns (management_prepare_response help_line zero_metrics zero_users) (\<lambda>(st', us').
     us' = zero_users \<and> mg_write_off st' = 0
     \<and> take (mg_write_len st') (mg_write_buffer st')
       = bytes ''commands=STATS,METRICS,USERS,ADDUSER,DELUSER,HELP,QUIT'' @ [10])"
proof -
  have l: "length (mg_read_buffer help_line) = MANAGEMENT_BUFFER_SIZE" "mg_read_len help_line < MANAGEMENT_BUFFER_SIZE"
    "length (mg_write_buffer help_line) = MANAGEMENT_BUFFER_SIZE"
    by (simp_all add: help_line_def zero_management_state_def MANAGEMENT_BUFFER_SIZE_def)
  have r: "take (mg_read_len help_line) (mg_read_buffer help_line) = [32, 104, 101, 108, 112, 9, 13, 10]"
    by (simp add: help_line_def zero_management_state_def MANAGEMENT_BUFFER_SIZE_def overwrite_def)
  have w: "words [32, 9] (line_of [32, 104, 101, 108, 112, 9, 13, 10]) = [[104, 101, 108, 112]]"
    by (simp add: line_of_def words.simps)
  have c: "command_answer [[104, 101, 108, 112]] zero_metrics zero_users
      = Inr (bytes ''commands=STATS,METRICS,USERS,ADDUSER,DELUSER,HELP,QUIT'' @ [10], zero_users)"
    by (simp add: command_answer_def same_word_def bytes_def tolower_def)
  show ?thesis
    using management_exact [OF l users_wf_zero(1), of zero_metrics] unfolding r w c by (auto elim!: returns_mono)
qed

end
