(* ===== verification/Server.thy ===== *)
theory Server
  imports Client_Session Management
begin

text \<open>
  \<^verbatim>\<open>src/src/server/server.c\<close>: the handlers' tables, the main loop and the two signals. The
  descriptors the loop waits for are the operating system's; between two turns a resolver
  thread may take a step and a signal may arrive, so that the program is a step relation.
\<close>

section \<open>The handlers' tables\<close>

fun handle_read :: "'k os \<Rightarrow> handler \<Rightarrow> 'k callback option" where
  "handle_read os accept_handler = Some (accept_connection os)"
| "handle_read os client_handler = Some (client_read os)"
| "handle_read os target_handler = Some (target_read os)"
| "handle_read os management_accept_handler = Some (accept_management_connection os)"
| "handle_read os management_client_handler = Some (management_read os)"

fun handle_write :: "'k os \<Rightarrow> handler \<Rightarrow> 'k callback option" where
  "handle_write os client_handler = Some (client_write os)"
| "handle_write os target_handler = Some (target_write os)"
| "handle_write os management_client_handler = Some (management_write os)"
| "handle_write os _ = None"

fun handle_block :: "'k os \<Rightarrow> handler \<Rightarrow> 'k callback option" where
  "handle_block os client_handler = Some (target_connection_on_resolve os)"
| "handle_block os _ = None"

section \<open>Signals and the main loop\<close>

record signals =
  shutdown_requested :: bool
  force_shutdown :: bool

definition sigterm_handler :: "signals \<Rightarrow> signals" where
  "sigterm_handler s =
     (if shutdown_requested s then s\<lparr>force_shutdown := True\<rparr> else s\<lparr>shutdown_requested := True\<rparr>)"

record 'k server =
  sv_world :: "'k world"
  sv_signals :: signals
  sv_server_fd :: int
  sv_management_fd :: int
  sv_stopped :: bool \<comment> \<open>\<open>stopped_accepting\<close>\<close>
  sv_running :: bool \<comment> \<open>the loop has not ended\<close>

definition stop_accepting :: "'k os \<Rightarrow> 'k server \<Rightarrow> 'k server result" where
  "stop_accepting os sv =
     bindE (drop_status (selector_unregister_fd (handle_close os) (sv_server_fd sv) (sv_world sv))) (\<lambda>w.
     bindE (drop_status (selector_unregister_fd (handle_close os) (sv_management_fd sv) w)) (\<lambda>w.
     Inr (sv\<lparr>sv_world := sys_close os (sv_management_fd sv) (sys_close os (sv_server_fd sv) w)\<rparr>)))"

text \<open>
  One turn of \<open>while (!force_shutdown)\<close>; \<open>ready\<close> is what \<open>pselect\<close> returns. A signal handler may
  run between any two statements: the flag \<open>shutdown_requested\<close> is read after the turn, with
  the value \<open>asked\<close> it has then.
\<close>

definition server_turn ::
  "'k os \<Rightarrow> int + (int set \<times> int set) \<Rightarrow> signals \<Rightarrow> 'k server \<Rightarrow> 'k server result" where
  "server_turn os ready asked sv =
     bindE (selector_select (handle_read os) (handle_write os) (handle_block os) ready (sv_world sv))
       (\<lambda>(ret, w).
       let sv = sv\<lparr>sv_world := w, sv_signals := asked\<rparr> in
       bindE (if shutdown_requested asked \<and> \<not> sv_stopped sv
              then stop_accepting os (sv\<lparr>sv_stopped := True\<rparr>) else Inr sv) (\<lambda>sv.
       Inr (if sv_stopped sv \<and> active_client_connections (sv_world sv) = 0
            then sv\<lparr>sv_running := False\<rparr> else sv)))"

text \<open>What follows the loop: the listening sockets, then every session, are closed.\<close>

definition server_finish :: "'k os \<Rightarrow> 'k server \<Rightarrow> 'k server result" where
  "server_finish os sv =
     bindE (if \<not> sv_stopped sv then stop_accepting os sv else Inr sv) (\<lambda>sv.
     bindE (selector_destroy (handle_close os) (sv_world sv)) (\<lambda>w.
     Inr (sv\<lparr>sv_world := w\<rparr>)))"

text \<open>
  The state with which the loop starts: \<open>selector_new (1024)\<close> makes a table of 1025 items, the
  two listening sockets are registered with no data, the users come from the command line.
\<close>

definition initial_world :: "managed_user list \<Rightarrow> 'k \<Rightarrow> 'k world" where
  "initial_world us k = \<lparr>fds = replicate 1025 (item_init zero_item), max_fd = 0,
     master_r = {}, master_w = {}, slave_r = {}, slave_w = {}, resolution_jobs = [],
     clients = Map.empty, mgmts = Map.empty, jobs = Map.empty, threads = Map.empty, next_ref = 0,
     active_client_connections = 0, current_metrics = zero_metrics, managed_users = us,
     access_log = [], errno = 0, io = [], kern = k\<rparr>"

definition start_server ::
  "'k os \<Rightarrow> managed_user list \<Rightarrow> int \<Rightarrow> int \<Rightarrow> 'k \<Rightarrow> 'k server option result" where
  "start_server os us server_fd management_fd k =
     bindE (selector_register (os_realloc os) zero_item server_fd (Some accept_handler) OP_READ None
              (initial_world us k)) (\<lambda>(status, w).
     if status \<noteq> SELECTOR_SUCCESS then Inr None
     else
       bindE (selector_register (os_realloc os) zero_item management_fd (Some management_accept_handler)
                OP_READ None w) (\<lambda>(status, w).
       if status \<noteq> SELECTOR_SUCCESS then Inr None
       else Inr (Some \<lparr>sv_world = w,
              sv_signals = \<lparr>shutdown_requested = False, force_shutdown = False\<rparr>,
              sv_server_fd = server_fd, sv_management_fd = management_fd, sv_stopped = False,
              sv_running = True\<rparr>)))"

end
