(* ===== verification/Invariant.thy ===== *)
theory Invariant
  imports Connection
begin

text \<open>
  The invariant of the running server, which every handler is proved to keep: what a session
  may look like in each stage, which descriptors are registered for it and for what, which
  resolver job belongs to it, and that its two relay directions hold exactly the bytes that
  were received and not yet sent.

  A handler breaks and restores the invariant of one session only. \<open>focus\<close> says that the rest
  of the world is as it should be while the handler works on session \<open>c\<close>; every operation on
  that session has one lemma about \<open>focus\<close>.
\<close>

section \<open>Sessions\<close>

definition pending_c2t :: "client_state \<Rightarrow> byte list" where
  "pending_c2t st = take (c2t_len st - c2t_off st) (drop (c2t_off st) (c2t_buffer st))"

definition pending_t2c :: "client_state \<Rightarrow> byte list" where
  "pending_t2c st = take (t2c_len st - t2c_off st) (drop (t2c_off st) (t2c_buffer st))"

definition arrays_ok :: "client_state \<Rightarrow> bool" where
  "arrays_ok st \<longleftrightarrow>
     length (read_buffer st) = SERVER_BUFFER_SIZE \<and> length (write_buffer st) = SERVER_BUFFER_SIZE
   \<and> length (c2t_buffer st) = SERVER_BUFFER_SIZE \<and> length (t2c_buffer st) = SERVER_BUFFER_SIZE
   \<and> length (username st) = CLIENT_USERNAME_MAX + 1
   \<and> length (destination_host st) = CLIENT_DESTINATION_MAX + 1"

text \<open>A buffer with bytes in it still has some to send.\<close>

definition region_ok :: "nat \<Rightarrow> nat \<Rightarrow> bool" where
  "region_ok off len \<longleftrightarrow> (if len = 0 then off = 0 else off < len \<and> len \<le> SERVER_BUFFER_SIZE)"

definition regions_ok :: "client_state \<Rightarrow> bool" where
  "regions_ok st \<longleftrightarrow> region_ok (write_off st) (write_len st)
     \<and> region_ok (c2t_off st) (c2t_len st) \<and> region_ok (t2c_off st) (t2c_len st)"

definition handshake :: "client_stage \<Rightarrow> bool" where
  "handshake s \<longleftrightarrow> s = CLIENT_STAGE_GREETING \<or> s = CLIENT_STAGE_AUTH \<or> s = CLIENT_STAGE_REQUEST"

definition stage_ok :: "client_state \<Rightarrow> bool" where
  "stage_ok st \<longleftrightarrow> client_fd st \<noteq> -1 \<and> client_fd st \<noteq> target_fd st
   \<and> (target_fd st \<noteq> -1 \<longleftrightarrow> stage st = CLIENT_STAGE_CONNECTING \<or> stage st = CLIENT_STAGE_RELAY)
   \<and> (resolver_job st \<noteq> None \<longleftrightarrow> stage st = CLIENT_STAGE_RESOLVING)
   \<and> (relay_started st \<longrightarrow> stage st = CLIENT_STAGE_RELAY \<and> write_len st = 0)
   \<and> (\<not> relay_started st \<longrightarrow> c2t_len st = 0 \<and> t2c_len st = 0)
   \<and> (stage st = CLIENT_STAGE_RELAY \<and> \<not> relay_started st \<longrightarrow> 0 < write_len st)
   \<and> (stage st = CLIENT_STAGE_CLOSING \<longrightarrow> 0 < write_len st)
   \<and> (stage st = CLIENT_STAGE_GREETING \<or> stage st = CLIENT_STAGE_RESOLVING
        \<or> stage st = CLIENT_STAGE_CONNECTING \<longrightarrow> write_len st = 0)
   \<and> (if handshake (stage st) then read_len st < 513 else read_len st \<le> SERVER_BUFFER_SIZE)"

definition session_wf :: "client_state \<Rightarrow> bool" where
  "session_wf st \<longleftrightarrow> arrays_ok st \<and> regions_ok st \<and> stage_ok st"

text \<open>What the selector has to wait for on the session's behalf.\<close>

definition client_interest :: "client_state \<Rightarrow> fd_interest" where
  "client_interest st =
     (if relay_started st then client_relay_interest st
      else if 0 < write_len st then OP_WRITE
      else if handshake (stage st) then OP_READ
      else OP_NOOP)"

definition target_interest :: "client_state \<Rightarrow> fd_interest" where
  "target_interest st =
     (if stage st = CLIENT_STAGE_CONNECTING then OP_WRITE
      else if relay_started st then target_relay_interest st
      else OP_NOOP)"

type_synonym registrations = "int \<Rightarrow> (fd_interest \<times> handler) option"

definition expected_regs :: "client_state \<Rightarrow> registrations" where
  "expected_regs st =
     (if target_fd st = -1 then [client_fd st \<mapsto> (client_interest st, client_handler)]
      else [client_fd st \<mapsto> (client_interest st, client_handler),
            target_fd st \<mapsto> (target_interest st, target_handler)])"

text \<open>The part of the selector's table that belongs to one heap object.\<close>

definition owned :: "(int \<Rightarrow> (handler, ref) registration option) \<Rightarrow> ref \<Rightarrow> registrations" where
  "owned R d fd = (case R fd of Some (i, h, Some d') \<Rightarrow> if d' = d then Some (i, h) else None | _ \<Rightarrow> None)"

text \<open>
  What the selector is doing: its list of notifications, the rest of it that is still to be
  handled (all of it, unless \<open>handle_block_notifications\<close> is under way), the listening sockets
  that are registered, and the item whose handlers it is calling, by descriptor, handler and
  data.
\<close>

record turn =
  listed :: "int list"
  unhandled :: "int list"
  listens :: "int \<Rightarrow> handler option"
  at_fd :: int
  at_handler :: handler
  at_data :: "ref option"

text \<open>
  The job of a session: no other job refers to the session, and the one that does is being
  worked on by its thread, or the selector's notification of it is on its way or in the list.
\<close>

definition job_link :: "turn \<Rightarrow> 'k world \<Rightarrow> nat \<Rightarrow> nat option \<Rightarrow> int \<Rightarrow> bool" where
  "job_link ns w c oj fd \<longleftrightarrow>
     (\<forall>j job. jobs w j = Some job \<longrightarrow> job_state job = Some c \<longrightarrow> oj = Some j)
   \<and> (\<forall>j. oj = Some j \<longrightarrow> (\<exists>job. jobs w j = Some job \<and> job_state job = Some c \<and> job_client_fd job = fd
        \<and> (if job_done job then threads w j = Some (Notifying fd) \<or> (threads w j = None \<and> fd \<in> set (unhandled ns))
           else threads w j = Some Resolving)))"

definition streams_ok :: "'k world \<Rightarrow> nat \<Rightarrow> byte list \<Rightarrow> byte list \<Rightarrow> bool" where
  "streams_ok w c p q \<longleftrightarrow>
     stream (ToTarget c) (io w) @ p = stream (FromClient c) (io w)
   \<and> stream (ToClient c) (io w) @ q = stream (FromTarget c) (io w)"

definition session_inv :: "turn \<Rightarrow> 'k world \<Rightarrow> nat \<Rightarrow> bool" where
  "session_inv ns w c \<longleftrightarrow>
     (clients w c = None \<longrightarrow>
        owned (registered w) (ClientRef c) = Map.empty \<and> job_link ns w c None 0
        \<and> (\<exists>p q. streams_ok w c p q))
   \<and> (\<forall>st. clients w c = Some st \<longrightarrow>
        session_wf st \<and> owned (registered w) (ClientRef c) = expected_regs st
        \<and> job_link ns w c (resolver_job st) (client_fd st)
        \<and> streams_ok w c (pending_c2t st) (pending_t2c st))"

section \<open>The rest of the world\<close>

definition mgmt_wf :: "management_state \<Rightarrow> bool" where
  "mgmt_wf st \<longleftrightarrow> length (mg_read_buffer st) = MANAGEMENT_BUFFER_SIZE
     \<and> length (mg_write_buffer st) = MANAGEMENT_BUFFER_SIZE
     \<and> mg_read_len st < MANAGEMENT_BUFFER_SIZE \<and> mg_write_len st \<le> MANAGEMENT_BUFFER_SIZE
     \<and> mg_write_off st \<le> mg_write_len st"

definition mgmt_inv :: "'k world \<Rightarrow> nat \<Rightarrow> bool" where
  "mgmt_inv w m \<longleftrightarrow>
     (mgmts w m = None \<longrightarrow> owned (registered w) (MgmtRef m) = Map.empty)
   \<and> (\<forall>st. mgmts w m = Some st \<longrightarrow> mgmt_wf st \<and>
        (\<exists>fd i. owned (registered w) (MgmtRef m) = [fd \<mapsto> (i, management_client_handler)]
           \<and> (i = OP_READ \<and> mg_read_len st < MANAGEMENT_BUFFER_SIZE - 1 \<or> i = OP_WRITE)))"

definition selector_inv :: "'k world \<Rightarrow> bool" where
  "selector_inv w \<longleftrightarrow> selector_wf w \<and> length (fds w) = FD_SETSIZE + 1
     \<and> (\<forall>fd i h. registered w fd = Some (i, h, None) \<longrightarrow>
          i = OP_READ \<and> (h = accept_handler \<or> h = management_accept_handler))"

definition jobs_inv :: "turn \<Rightarrow> 'k world \<Rightarrow> bool" where
  "jobs_inv ns w \<longleftrightarrow>
     (\<forall>j job. jobs w j = Some job \<longrightarrow> job_state job = None \<longrightarrow>
        \<not> job_done job \<and> threads w j = Some Resolving)
   \<and> (\<forall>j. threads w j = Some Resolving \<longrightarrow> (\<exists>job. jobs w j = Some job \<and> \<not> job_done job))
   \<and> (\<forall>j fd. threads w j = Some (Notifying fd) \<longrightarrow>
        (\<exists>job. jobs w j = Some job \<and> job_done job \<and> job_state job \<noteq> None \<and> job_client_fd job = fd))
   \<and> distinct (unhandled ns)
   \<and> (\<forall>fd \<in> set (unhandled ns). \<exists>j job. jobs w j = Some job \<and> job_done job \<and> job_state job \<noteq> None
        \<and> job_client_fd job = fd \<and> threads w j = None)"

definition fresh_inv :: "'k world \<Rightarrow> bool" where
  "fresh_inv w \<longleftrightarrow> (\<forall>a \<ge> next_ref w. clients w a = None \<and> mgmts w a = None \<and> jobs w a = None
     \<and> threads w a = None \<and> (\<forall>ch \<in> {FromClient a, ToTarget a, FromTarget a, ToClient a}. stream ch (io w) = []))"

text \<open>How many bytes went out to the targets and to the clients of the relays.\<close>

definition sent_total :: "bool \<Rightarrow> (channel \<times> byte list) list \<Rightarrow> nat" where
  "sent_total to_target evs = sum_list (map (\<lambda>(ch, bs).
     case ch of ToTarget c \<Rightarrow> (if to_target then length bs else 0)
     | ToClient c \<Rightarrow> (if to_target then 0 else length bs) | _ \<Rightarrow> 0) evs)"

definition counters_inv :: "'k world \<Rightarrow> bool" where
  "counters_inv w \<longleftrightarrow> finite (dom (clients w)) \<and> card (dom (clients w)) \<le> FD_SETSIZE
     \<and> active_client_connections w = of_nat (card (dom (clients w)))
     \<and> concurrent_connections (current_metrics w) = of_nat (card (dom (clients w)))
     \<and> bytes_client_to_target (current_metrics w) = of_nat (sent_total True (io w))
     \<and> bytes_target_to_client (current_metrics w) = of_nat (sent_total False (io w))"

text \<open>
  The item's registration is gone or still the same: its handler's key is not stale. What is
  registered with no data is the listening sockets.
\<close>

definition guard_ok :: "turn \<Rightarrow> 'k world \<Rightarrow> bool" where
  "guard_ok ns w \<longleftrightarrow> (registered w (at_fd ns) = None
       \<or> (\<exists>i. registered w (at_fd ns) = Some (i, at_handler ns, at_data ns)))
     \<and> (\<forall>x i h. registered w x = Some (i, h, None) \<longleftrightarrow> i = OP_READ \<and> listens ns x = Some h)"

lemma guard_unlistened: "guard_ok ns w \<Longrightarrow> registered w x = None \<Longrightarrow> listens ns x = None"
  unfolding guard_ok_def by (metis option.distinct(1) option.exhaust)

definition base :: "turn \<Rightarrow> 'k world \<Rightarrow> bool" where
  "base ns w \<longleftrightarrow> selector_inv w \<and> (\<forall>m. mgmt_inv w m) \<and> jobs_inv ns w \<and> fresh_inv w
     \<and> counters_inv w \<and> users_wf (managed_users w) \<and> resolution_jobs w = listed ns \<and> guard_ok ns w"

definition world_inv :: "turn \<Rightarrow> 'k world \<Rightarrow> bool" where
  "world_inv ns w \<longleftrightarrow> base ns w \<and> (\<forall>c. session_inv ns w c)"

definition focus ::
  "nat \<Rightarrow> turn \<Rightarrow> 'k world \<Rightarrow> nat option \<Rightarrow> int \<Rightarrow> byte list \<Rightarrow> byte list \<Rightarrow> registrations \<Rightarrow> bool" where
  "focus c ns w oj fd p q R \<longleftrightarrow> base ns w \<and> (\<forall>c'. c' \<noteq> c \<longrightarrow> session_inv ns w c')
     \<and> owned (registered w) (ClientRef c) = R \<and> job_link ns w c oj fd
     \<and> streams_ok w c p q"

section \<open>Focusing\<close>

lemma focusI:
  assumes "world_inv ns w" "clients w c = Some st"
  shows "focus c ns w (resolver_job st) (client_fd st) (pending_c2t st) (pending_t2c st) (expected_regs st)
     \<and> session_wf st"
proof -
  have "session_inv ns w c'" for c' using assms(1) by (simp add: world_inv_def)
  moreover from this [of c] have "session_wf st" "owned (registered w) (ClientRef c) = expected_regs st"
    "job_link ns w c (resolver_job st) (client_fd st)" "streams_ok w c (pending_c2t st) (pending_t2c st)"
    using assms(2) by (simp_all add: session_inv_def)
  ultimately show ?thesis using assms by (simp add: focus_def world_inv_def)
qed

lemma unfocus:
  assumes "focus c ns w (resolver_job st) (client_fd st) (pending_c2t st) (pending_t2c st) (expected_regs st)"
    and "clients w c = Some st" "session_wf st"
  shows "world_inv ns w"
proof -
  have "session_inv ns w c" using assms by (simp add: focus_def session_inv_def)
  moreover have "base ns w" "\<And>c'. c' \<noteq> c \<Longrightarrow> session_inv ns w c'"
    using assms(1) by (simp_all add: focus_def)
  ultimately show ?thesis by (metis world_inv_def)
qed

section \<open>What the parts of the invariant depend on\<close>

lemma registered_world [simp]:
  "registered (w\<lparr>clients := a\<rparr>) = registered w" "registered (w\<lparr>mgmts := b\<rparr>) = registered w"
  "registered (w\<lparr>jobs := c\<rparr>) = registered w" "registered (w\<lparr>threads := d\<rparr>) = registered w"
  "registered (w\<lparr>next_ref := e\<rparr>) = registered w"
  "registered (w\<lparr>active_client_connections := f\<rparr>) = registered w"
  "registered (w\<lparr>current_metrics := g\<rparr>) = registered w"
  "registered (w\<lparr>managed_users := h\<rparr>) = registered w" "registered (w\<lparr>access_log := i\<rparr>) = registered w"
  "registered (w\<lparr>errno := j\<rparr>) = registered w" "registered (w\<lparr>io := k\<rparr>) = registered w"
  "registered (w\<lparr>kern := l\<rparr>) = registered w"
  "registered (w\<lparr>resolution_jobs := m\<rparr>) = registered w"
  "registered (w\<lparr>slave_r := n\<rparr>) = registered w" "registered (w\<lparr>slave_w := n\<rparr>) = registered w"
  by (simp_all add: registered_def fun_eq_iff)

lemma selector_wf_cong:
  "fds s' = fds s \<Longrightarrow> max_fd s' = max_fd s \<Longrightarrow> master_r s' = master_r s \<Longrightarrow> master_w s' = master_w s \<Longrightarrow>
     selector_wf s' = selector_wf s"
proof -
  assume eq: "fds s' = fds s" "max_fd s' = max_fd s" "master_r s' = master_r s" "master_w s' = master_w s"
  then have "registered s' = registered s" by (simp add: registered_def fun_eq_iff)
  then show ?thesis using eq by (simp add: selector_wf_def interested_def)
qed

lemma selector_inv_world [simp]:
  "selector_inv (w\<lparr>clients := a\<rparr>) = selector_inv w" "selector_inv (w\<lparr>mgmts := b\<rparr>) = selector_inv w"
  "selector_inv (w\<lparr>jobs := c\<rparr>) = selector_inv w" "selector_inv (w\<lparr>threads := d\<rparr>) = selector_inv w"
  "selector_inv (w\<lparr>next_ref := e\<rparr>) = selector_inv w"
  "selector_inv (w\<lparr>active_client_connections := f\<rparr>) = selector_inv w"
  "selector_inv (w\<lparr>current_metrics := g\<rparr>) = selector_inv w"
  "selector_inv (w\<lparr>managed_users := h\<rparr>) = selector_inv w"
  "selector_inv (w\<lparr>access_log := i\<rparr>) = selector_inv w"
  "selector_inv (w\<lparr>errno := j\<rparr>) = selector_inv w" "selector_inv (w\<lparr>io := k\<rparr>) = selector_inv w"
  "selector_inv (w\<lparr>kern := l\<rparr>) = selector_inv w"
  "selector_inv (w\<lparr>resolution_jobs := m\<rparr>) = selector_inv w"
  "selector_inv (w\<lparr>slave_r := n\<rparr>) = selector_inv w" "selector_inv (w\<lparr>slave_w := n\<rparr>) = selector_inv w"
  by (simp_all add: selector_inv_def cong: selector_wf_cong)

lemmas world_parts = focus_def base_def guard_ok_def mgmt_inv_def jobs_inv_def fresh_inv_def counters_inv_def
  session_inv_def job_link_def streams_ok_def world_inv_def

lemma world_inv_world [simp]:
  "world_inv ns (w\<lparr>kern := k\<rparr>) = world_inv ns w" "world_inv ns (w\<lparr>errno := e\<rparr>) = world_inv ns w"
  "world_inv ns (w\<lparr>access_log := l\<rparr>) = world_inv ns w"
  "world_inv ns (w\<lparr>slave_r := r\<rparr>) = world_inv ns w" "world_inv ns (w\<lparr>slave_w := r\<rparr>) = world_inv ns w"
  by (simp_all add: world_parts)

lemma focus_world [simp]:
  "focus c ns (w\<lparr>kern := k\<rparr>) = focus c ns w" "focus c ns (w\<lparr>errno := e\<rparr>) = focus c ns w"
  "focus c ns (w\<lparr>access_log := l\<rparr>) = focus c ns w"
  by (simp_all add: world_parts fun_eq_iff)

lemma focus_metrics [simp]:
  "focus c ns (w\<lparr>current_metrics := metrics_connection_succeeded m\<rparr>) = focus c ns (w\<lparr>current_metrics := m\<rparr>)"
  "focus c ns (w\<lparr>current_metrics := metrics_connection_failed m\<rparr>) = focus c ns (w\<lparr>current_metrics := m\<rparr>)"
  "w\<lparr>current_metrics := current_metrics w\<rparr> = w"
  by (simp_all add: world_parts metrics_defs fun_eq_iff)

lemma session_inv_cong:
  assumes "clients w' c = clients w c" "jobs w' = jobs w" "threads w' = threads w"
    and "owned (registered w') (ClientRef c) = owned (registered w) (ClientRef c)"
    and "\<And>ch. ch \<in> {FromClient c, ToTarget c, FromTarget c, ToClient c} \<Longrightarrow>
           stream ch (io w') = stream ch (io w)"
  shows "session_inv ns w' c = session_inv ns w c"
  using assms by (simp add: session_inv_def job_link_def streams_ok_def)

lemma job_link_cong:
  "jobs w' = jobs w \<Longrightarrow> threads w' = threads w \<Longrightarrow> job_link ns w' c oj fd = job_link ns w c oj fd"
  by (simp add: job_link_def)

text \<open>A step on session \<open>c\<close> that leaves the jobs alone.\<close>

lemma focus_step:
  assumes "focus c ns w oj fd p q R" "base ns w'"
    and "\<And>c'. c' \<noteq> c \<Longrightarrow> clients w' c' = clients w c'" "jobs w' = jobs w" "threads w' = threads w"
    and "\<And>c'. c' \<noteq> c \<Longrightarrow> owned (registered w') (ClientRef c') = owned (registered w) (ClientRef c')"
    and "\<And>c' ch. c' \<noteq> c \<Longrightarrow> ch \<in> {FromClient c', ToTarget c', FromTarget c', ToClient c'} \<Longrightarrow>
           stream ch (io w') = stream ch (io w)"
  shows "focus c ns w' oj fd p' q' (owned (registered w') (ClientRef c)) = streams_ok w' c p' q'"
proof -
  have "session_inv ns w' c' = session_inv ns w c'" if "c' \<noteq> c" for c'
    using that assms by (intro session_inv_cong) blast+
  moreover have "job_link ns w' c oj fd = job_link ns w c oj fd"
    using assms(4,5) by (rule job_link_cong)
  ultimately show ?thesis using assms(1,2) by (auto simp: focus_def)
qed

lemma focus_put:
  assumes "focus c ns w oj fd p q R" and c: "clients w c \<noteq> None"
  shows "focus c ns (put_client (Some (ClientRef c)) st w) oj fd p q R"
proof -
  let ?w = "put_client (Some (ClientRef c)) st w"
  have f: "base ns w" "owned (registered w) (ClientRef c) = R" "streams_ok w c p q"
    using assms(1) by (simp_all add: focus_def)
  have d: "dom (clients ?w) = dom (clients w)" using c by (auto simp: put_client.simps)
  have "fresh_inv ?w" using f c by (auto simp: base_def fresh_inv_def put_client.simps)
  moreover have "mgmt_inv ?w m = mgmt_inv w m" "jobs_inv ns ?w = jobs_inv ns w"
    "guard_ok ns ?w = guard_ok ns w" for m
    by (simp_all add: mgmt_inv_def jobs_inv_def guard_ok_def put_client.simps)
  moreover have "counters_inv ?w" using f(1) d by (simp add: base_def counters_inv_def put_client.simps)
  ultimately have "base ns ?w" using f(1) by (simp add: base_def put_client.simps)
  from focus_step [OF assms(1) this, of p q] f(2,3) show ?thesis by (simp add: streams_ok_def put_client.simps)
qed

lemma get_put_client [simp]:
  "get_client (Some (ClientRef c)) (put_client (Some (ClientRef c)) st w) = Inr st"
  "clients (put_client (Some (ClientRef c)) st w) c = Some st"
  by (simp_all add: put_client.simps get_client.simps)

lemma get_client_some: "clients w c = Some st \<Longrightarrow> get_client (Some (ClientRef c)) w = Inr st"
  by (simp add: get_client.simps)

section \<open>The ghost record\<close>

lemma stream_append [simp]:
  "stream ch (evs @ [(ch', bs)]) = stream ch evs @ (if ch' = ch then bs else [])"
  by (simp add: stream_def)

lemma sent_total_append [simp]:
  "sent_total b (evs @ [(ch, bs)]) = sent_total b evs +
     (case ch of ToTarget c \<Rightarrow> (if b then length bs else 0) | ToClient c \<Rightarrow> (if b then 0 else length bs) | _ \<Rightarrow> 0)"
  by (simp add: sent_total_def)

lemma focus_fresh: "focus c ns w oj fd p q R \<Longrightarrow> clients w c \<noteq> None \<Longrightarrow> c < next_ref w"
  unfolding focus_def base_def fresh_inv_def by (meson not_le)

text \<open>Bytes that went through a socket of session \<open>c\<close>, with the counters as \<open>m\<close>.\<close>

lemma focus_moved:
  assumes f: "focus c ns w oj fd p q R" and c: "c < next_ref w"
    and ch: "ch \<in> {Other, FromClient c, ToTarget c, FromTarget c, ToClient c}"
    and m: "concurrent_connections m = concurrent_connections (current_metrics w)"
      "bytes_client_to_target m = bytes_client_to_target (current_metrics w)
         + of_nat (if ch = ToTarget c then length bs else 0)"
      "bytes_target_to_client m = bytes_target_to_client (current_metrics w)
         + of_nat (if ch = ToClient c then length bs else 0)"
    and s: "streams_ok (w\<lparr>io := io w @ [(ch, bs)]\<rparr>) c p' q'"
  shows "focus c ns (w\<lparr>io := io w @ [(ch, bs)], current_metrics := m\<rparr>) oj fd p' q' R"
proof -
  let ?w = "w\<lparr>io := io w @ [(ch, bs)], current_metrics := m\<rparr>"
  have b: "base ns w" "owned (registered w) (ClientRef c) = R" "c < next_ref w"
    using f c by (simp_all add: focus_def)
  have "fresh_inv ?w" using b ch by (auto simp: base_def fresh_inv_def)
  moreover have "mgmt_inv ?w m = mgmt_inv w m" "jobs_inv ns ?w = jobs_inv ns w"
    "guard_ok ns ?w = guard_ok ns w" for m
    by (simp_all add: mgmt_inv_def jobs_inv_def guard_ok_def)
  moreover have "counters_inv ?w" using b(1) m ch by (auto simp: base_def counters_inv_def)
  ultimately have "base ns ?w" using b(1) by (simp add: base_def)
  moreover have "stream ch' (io ?w) = stream ch' (io w)"
    if "c' \<noteq> c" "ch' \<in> {FromClient c', ToTarget c', FromTarget c', ToClient c'}" for c' ch'
    using that ch by auto
  ultimately have "focus c ns ?w oj fd p' q' (owned (registered ?w) (ClientRef c)) = streams_ok ?w c p' q'"
    by (intro focus_step [OF f]) simp_all
  then show ?thesis using b(2) s by (simp add: streams_ok_def)
qed

lemma focus_io:
  assumes "focus c ns w oj fd p q R" "c < next_ref w"
  shows "focus c ns (w\<lparr>io := io w @ [(Other, bs)]\<rparr>) oj fd p q R"
    and "focus c ns (w\<lparr>io := io w @ [(FromClient c, bs)]\<rparr>) oj fd (p @ bs) q R"
    and "focus c ns (w\<lparr>io := io w @ [(FromTarget c, bs)]\<rparr>) oj fd p (q @ bs) R"
proof -
  have s: "streams_ok w c p q" using assms(1) by (simp add: focus_def)
  note * = focus_moved [OF assms, where m = "current_metrics w" and bs = bs]
  show "focus c ns (w\<lparr>io := io w @ [(Other, bs)]\<rparr>) oj fd p q R"
    using * [of Other p q] s by (simp add: streams_ok_def)
  show "focus c ns (w\<lparr>io := io w @ [(FromClient c, bs)]\<rparr>) oj fd (p @ bs) q R"
    using * [of "FromClient c" "p @ bs" q] s by (simp add: streams_ok_def)
  show "focus c ns (w\<lparr>io := io w @ [(FromTarget c, bs)]\<rparr>) oj fd p (q @ bs) R"
    using * [of "FromTarget c" p "q @ bs"] s by (simp add: streams_ok_def)
qed

lemma focus_sent:
  assumes f: "focus c ns w oj fd p q R" and c: "c < next_ref w"
  shows "take (length bs) p = bs \<Longrightarrow> focus c ns (w\<lparr>io := io w @ [(ToTarget c, bs)],
           current_metrics := count_client_to_target (length bs) (current_metrics w)\<rparr>)
           oj fd (drop (length bs) p) q R"
    and "take (length bs) q = bs \<Longrightarrow> focus c ns (w\<lparr>io := io w @ [(ToClient c, bs)],
           current_metrics := count_target_to_client (length bs) (current_metrics w)\<rparr>)
           oj fd p (drop (length bs) q) R"
proof -
  have s: "streams_ok w c p q" using f by (simp add: focus_def)
  have d: "take (length bs) xs = bs \<Longrightarrow> bs @ drop (length bs) xs = xs" for xs
    by (metis append_take_drop_id)
  show "focus c ns (w\<lparr>io := io w @ [(ToTarget c, bs)],
           current_metrics := count_client_to_target (length bs) (current_metrics w)\<rparr>)
           oj fd (drop (length bs) p) q R" if "take (length bs) p = bs"
    using s d [OF that]
    by (intro focus_moved [OF f c]) (simp_all add: count_client_to_target_def metrics_defs streams_ok_def)
  show "focus c ns (w\<lparr>io := io w @ [(ToClient c, bs)],
           current_metrics := count_target_to_client (length bs) (current_metrics w)\<rparr>)
           oj fd p (drop (length bs) q) R" if "take (length bs) q = bs"
    using s d [OF that]
    by (intro focus_moved [OF f c]) (simp_all add: count_target_to_client_def metrics_defs streams_ok_def)
qed

section \<open>The selector under focus\<close>

lemma sel_frame_world:
  assumes "sel_frame w w'"
  shows "clients w' = clients w" "mgmts w' = mgmts w" "jobs w' = jobs w" "threads w' = threads w"
    "next_ref w' = next_ref w" "active_client_connections w' = active_client_connections w"
    "current_metrics w' = current_metrics w" "managed_users w' = managed_users w"
    "access_log w' = access_log w" "errno w' = errno w" "io w' = io w" "kern w' = kern w"
    "length (fds w') = length (fds w)" "resolution_jobs w' = resolution_jobs w"
    "slave_r w' = slave_r w" "slave_w w' = slave_w w"
  using assms by (cases w; cases w'; simp add: sel_frame_def)+

text \<open>An entry of the table that belongs to the object \<open>d\<close>, or to nobody.\<close>

definition of_ref :: "ref \<Rightarrow> (handler, ref) registration option \<Rightarrow> bool" where
  "of_ref d r \<longleftrightarrow> r = None \<or> (\<exists>i h. r = Some (i, h, Some d))"

lemma of_ref_simps [simp]: "of_ref d None" "of_ref d (Some (i, h, d')) = (d' = Some d)"
  by (auto simp: of_ref_def)

lemma owned_of_ref: "of_ref d r \<Longrightarrow> R x = r \<Longrightarrow> d' \<noteq> d \<Longrightarrow> owned R d' x = None"
  by (auto simp: owned_def of_ref_def)

lemma owned_update:
  assumes "of_ref d (R x)" "of_ref d r"
  shows "owned (R(x := r)) d = (owned R d)(x := map_option (\<lambda>(i, h, d). (i, h)) r)"
    and "d' \<noteq> d \<Longrightarrow> owned (R(x := r)) d' = owned R d'"
  using assms by (auto simp: owned_def fun_eq_iff of_ref_def split: option.splits)

lemma ownedD: "owned R d x = Some (i, h) \<longleftrightarrow> R x = Some (i, h, Some d)"
  by (auto simp: owned_def split: option.splits if_splits)

lemma base_selector:
  assumes b: "base ns w" and wf: "selector_wf w'" and f: "sel_frame w w'"
    and reg: "registered w' = (registered w)(x := r)"
    and r: "of_ref (ClientRef c) (registered w x)" "of_ref (ClientRef c) r" and g: "guard_ok ns w'"
  shows "base ns w'"
proof -
  have "owned (registered w') (MgmtRef m) = owned (registered w) (MgmtRef m)" for m
    unfolding reg by (rule owned_update(2) [where R = "registered w" and x = x, OF r]) simp
  then have "mgmt_inv w' m = mgmt_inv w m" for m
    by (simp add: mgmt_inv_def sel_frame_world [OF f])
  moreover have "selector_inv w'"
    using b wf r(2) sel_frame_world [OF f] by (auto simp: base_def selector_inv_def reg)
  moreover have "jobs_inv ns w' = jobs_inv ns w" "fresh_inv w' = fresh_inv w" "counters_inv w' = counters_inv w"
    by (simp_all add: jobs_inv_def fresh_inv_def counters_inv_def sel_frame_world [OF f])
  ultimately show ?thesis using b g by (simp add: base_def sel_frame_world [OF f])
qed

lemma focus_selector:
  assumes f: "focus c ns w oj fd p q R" and wf: "selector_wf w'" and fr: "sel_frame w w'"
    and reg: "registered w' = (registered w)(x := r)"
    and r: "of_ref (ClientRef c) (registered w x)" "of_ref (ClientRef c) r" and g: "guard_ok ns w'"
  shows "focus c ns w' oj fd p q (R(x := map_option (\<lambda>(i, h, d). (i, h)) r)) \<and> clients w' = clients w"
proof -
  have b: "base ns w" "owned (registered w) (ClientRef c) = R" "streams_ok w c p q"
    using f by (simp_all add: focus_def)
  note w = sel_frame_world [OF fr]
  have o: "owned (registered w') (ClientRef c) = R(x := map_option (\<lambda>(i, h, d). (i, h)) r)"
    unfolding reg b(2) [symmetric] using r by (intro owned_update)
  have "owned (registered w') (ClientRef c') = owned (registered w) (ClientRef c')" if "c' \<noteq> c" for c'
    unfolding reg by (rule owned_update(2) [where R = "registered w" and x = x, OF r]) (simp add: that)
  then have "focus c ns w' oj fd p q (owned (registered w') (ClientRef c)) = streams_ok w' c p q"
    by (intro focus_step [OF f base_selector [OF b(1) wf fr reg r g]]) (simp_all add: w)
  then show ?thesis using b(3) w by (simp add: o streams_ok_def)
qed

lemma focus_wf: "focus c ns w oj fd p q R \<Longrightarrow> selector_wf w \<and> length (fds w) = FD_SETSIZE + 1"
  by (simp add: focus_def base_def selector_inv_def)

lemma focus_owned: "focus c ns w oj fd p q R \<Longrightarrow> R x = Some (i, h) \<Longrightarrow> registered w x = Some (i, h, Some (ClientRef c))"
  unfolding focus_def by (metis ownedD)

text \<open>Three ways to keep the item's registration: the same handler, a removal, a descriptor not its own.\<close>

lemma guard_update:
  assumes g: "guard_ok ns w" and reg: "registered w' = (registered w)(x := r)"
    and u: "\<forall>i h. registered w x \<noteq> Some (i, h, None)"
    and r: "r = None \<or> (\<exists>i0 i h d. registered w x = Some (i0, h, d) \<and> r = Some (i, h, d))
      \<or> registered w x = None \<and> registered w (at_fd ns) \<noteq> None
      \<or> (\<exists>i. r = Some (i, at_handler ns, at_data ns))"
    and n: "\<forall>i h. r \<noteq> Some (i, h, None)"
  shows "guard_ok ns w'"
  using assms by (auto simp: guard_ok_def)

lemma focus_guard: "focus c ns w oj fd p q R \<Longrightarrow> guard_ok ns w"
  by (simp add: focus_def base_def)

lemma focus_set_interest:
  assumes f: "focus c ns w oj fd p q R" and x: "R x = Some (i0, h)"
  shows "returns (drop_status (selector_set_interest x i w))
           (\<lambda>w'. focus c ns w' oj fd p q (R(x \<mapsto> (i, h))) \<and> clients w' = clients w)"
proof -
  note reg = focus_owned [OF f x]
  from selector_set_interest_registered [OF conjunct1 [OF focus_wf [OF f]] reg, of i]
  obtain w' where w': "selector_set_interest x i w = Inr (SELECTOR_SUCCESS, w')" "selector_wf w'"
    "registered w' = (registered w)(x \<mapsto> (i, h, Some (ClientRef c)))" "sel_frame w w'"
    by (auto simp: returns_iff)
  have "guard_ok ns w'" using guard_update [OF focus_guard [OF f] w'(3)] reg by auto
  from focus_selector [OF f w'(2,4,3) _ _ this] reg show ?thesis
    by (simp add: drop_status_def w'(1))
qed

lemma focus_register:
  assumes f: "focus c ns w oj fd p q R"
    and g: "registered w (at_fd ns) \<noteq> None \<or> (at_handler ns = h \<and> at_data ns = Some (ClientRef c))"
  shows "returns (selector_register ok junk x (Some h) i (Some (ClientRef c)) w) (\<lambda>(status, w').
           if status = SELECTOR_SUCCESS
           then focus c ns w' oj fd p q (R(x \<mapsto> (i, h))) \<and> clients w' = clients w \<and> errno w' = errno w
             \<and> registered w x = None \<and> 0 \<le> x
           else w' = w)"
proof (cases "INVALID_FD x \<or> registered w x \<noteq> None")
  case True
  then show ?thesis
    using selector_register_invalid [of x ok junk "Some h" i "Some (ClientRef c)" w]
      selector_register_used [of x w ok junk h i "Some (ClientRef c)"]
    by (cases "INVALID_FD x") auto
next
  case False
  then have x: "\<not> INVALID_FD x" "registered w x = None" by blast+
  then have n: "nat x < length (fds w)" "0 \<le> x"
    using focus_wf [OF f] by (auto simp: INVALID_FD_def FD_SETSIZE_def)
  from selector_register_new [OF conjunct1 [OF focus_wf [OF f]] x(1) n(1) x(2), of ok junk h i "Some (ClientRef c)"]
  obtain w' where w': "selector_register ok junk x (Some h) i (Some (ClientRef c)) w = Inr (SELECTOR_SUCCESS, w')"
    "selector_wf w'" "registered w' = (registered w)(x \<mapsto> (i, h, Some (ClientRef c)))" "sel_frame w w'"
    by (auto simp: returns_iff)
  have "guard_ok ns w'" using guard_update [OF focus_guard [OF f] w'(3)] x(2) g by auto
  from focus_selector [OF f w'(2,4,3) _ _ this] x n sel_frame_world [OF w'(4)] show ?thesis
    by (simp add: w'(1))
qed

lemma focus_clear:
  assumes f: "focus c ns w oj fd p q R" and x: "R x = Some (i, h)"
  shows "returns (selector_clear x w) (\<lambda>w'. focus c ns w' oj fd p q (R(x := None)) \<and> clients w' = clients w)"
proof -
  note reg = focus_owned [OF f x]
  from selector_clear_registered [OF conjunct1 [OF focus_wf [OF f]], of x] reg
  obtain w' where w': "selector_clear x w = Inr w'" "selector_wf w'"
    "registered w' = (registered w)(x := None)" "sel_frame w w'"
    by (auto simp: returns_iff)
  have "guard_ok ns w'" using guard_update [OF focus_guard [OF f] w'(3)] reg by auto
  from focus_selector [OF f w'(2,4,3) _ _ this] reg show ?thesis by (simp add: w'(1))
qed

section \<open>Freeing a session\<close>

lemma unfocus_closed:
  assumes "focus c ns w None fd p q Map.empty" "clients w c = None"
  shows "world_inv ns w"
proof -
  have "job_link ns w c None 0" using assms(1) by (simp add: focus_def job_link_def)
  then have "session_inv ns w c" using assms by (auto simp: focus_def session_inv_def)
  moreover have "base ns w" "\<And>c'. c' \<noteq> c \<Longrightarrow> session_inv ns w c'"
    using assms(1) by (simp_all add: focus_def)
  ultimately show ?thesis by (metis world_inv_def)
qed

lemma of_nat_card_word:
  "0 < n \<Longrightarrow> n \<le> FD_SETSIZE \<Longrightarrow> (of_nat n :: 64 word) > 0"
proof -
  assume n: "0 < n" "n \<le> FD_SETSIZE"
  then have "unat (of_nat n :: 64 word) = n" by (simp add: unat_of_nat FD_SETSIZE_def)
  with n(1) show ?thesis by (metis unat_0 neq0_conv word_gt_0)
qed

lemma focus_free:
  assumes f: "focus c ns w oj fd p q R" and c: "clients w c \<noteq> None"
  shows "focus c ns (free_session (Some (ClientRef c)) w) oj fd p q R"
proof -
  let ?w = "free_session (Some (ClientRef c)) w"
  have b: "base ns w" "owned (registered w) (ClientRef c) = R" "streams_ok w c p q"
    using f by (simp_all add: focus_def)
  have "fresh_inv ?w" using b by (auto simp: base_def fresh_inv_def free_session_def)
  moreover have "mgmt_inv ?w m = mgmt_inv w m" "jobs_inv ns ?w = jobs_inv ns w"
    "guard_ok ns ?w = guard_ok ns w" for m
    by (simp_all add: mgmt_inv_def jobs_inv_def guard_ok_def free_session_def)
  moreover have "counters_inv ?w"
  proof -
    have cnt: "finite (dom (clients w))" "card (dom (clients w)) \<le> FD_SETSIZE"
      "active_client_connections w = of_nat (card (dom (clients w)))"
      "concurrent_connections (current_metrics w) = of_nat (card (dom (clients w)))"
      using b(1) by (simp_all add: base_def counters_inv_def)
    have "c \<in> dom (clients w)" using c by auto
    then obtain n where n: "card (dom (clients w)) = Suc n" "card (dom (clients w) - {c}) = n"
      using cnt(1) by (metis card.remove)
    have "dom (clients ?w) = dom (clients w) - {c}" by (auto simp: free_session_def)
    with n cnt of_nat_card_word [of "Suc n"] b(1) show ?thesis
      by (simp add: base_def counters_inv_def metrics_connection_closed_def free_session_def)
  qed
  moreover have "selector_inv ?w = selector_inv w" "managed_users ?w = managed_users w"
    "resolution_jobs ?w = resolution_jobs w"
    by (simp_all add: free_session_def)
  ultimately have "base ns ?w" using b(1) by (simp add: base_def)
  then have "focus c ns ?w oj fd p q (owned (registered ?w) (ClientRef c)) = streams_ok ?w c p q"
    by (intro focus_step [OF f]) (simp_all add: free_session_def)
  then show ?thesis using b by (simp add: streams_ok_def free_session_def)
qed

end
