(* ===== verification/Session.thy ===== *)
theory Session
  imports Invariant Target_Connection
begin

text \<open>
  What the operations on one session do to the invariant. \<open>sess c ns w st R\<close> says that the
  world \<open>w\<close> is as it should be but for session \<open>c\<close>, which is in state \<open>st\<close> and owns the
  registrations \<open>R\<close>; every operation has one lemma from \<open>sess\<close> to \<open>sess\<close>, and a handler's
  proof goes from the invariant to \<open>sess\<close>, through its operations, and back.
\<close>

section \<open>A session in focus\<close>

definition sess :: "nat \<Rightarrow> turn \<Rightarrow> 'k world \<Rightarrow> client_state \<Rightarrow> registrations \<Rightarrow> bool" where
  "sess c ns w st R \<longleftrightarrow>
     focus c ns w (resolver_job st) (client_fd st) (pending_c2t st) (pending_t2c st) R
     \<and> clients w c = Some st"

lemma sess_focus:
  "world_inv ns w \<Longrightarrow> clients w c = Some st \<Longrightarrow> sess c ns w st (expected_regs st) \<and> session_wf st"
  using focusI [of ns w c st] by (simp add: sess_def)

lemma sess_unfocus: "sess c ns w st (expected_regs st) \<Longrightarrow> session_wf st \<Longrightarrow> world_inv ns w"
  using unfocus [of c ns w st] by (simp add: sess_def)

lemma sess_get: "sess c ns w st R \<Longrightarrow> get_client (Some (ClientRef c)) w = Inr st"
  by (simp add: sess_def get_client.simps)

lemma sess_world [simp]:
  "sess c ns (w\<lparr>kern := k\<rparr>) = sess c ns w" "sess c ns (w\<lparr>errno := e\<rparr>) = sess c ns w"
  "sess c ns (w\<lparr>access_log := l\<rparr>) = sess c ns w"
  "sess c ns (w\<lparr>current_metrics := metrics_connection_succeeded m\<rparr>) = sess c ns (w\<lparr>current_metrics := m\<rparr>)"
  "sess c ns (w\<lparr>current_metrics := metrics_connection_failed m\<rparr>) = sess c ns (w\<lparr>current_metrics := m\<rparr>)"
  "sess c ns (sys_close os x w) = sess c ns w"
  by (simp_all add: sess_def fun_eq_iff sys_close_def)

lemma job_link_None: "job_link ns w c None fd = job_link ns w c None fd'"
  by (simp add: job_link_def)

lemma focus_None: "focus c ns w None fd p q R = focus c ns w None fd' p q R"
  unfolding focus_def job_link_None [of ns w c fd fd'] by (rule refl)

lemma sess_put:
  assumes "sess c ns w st R" "resolver_job st' = resolver_job st"
    and "resolver_job st = None \<or> client_fd st' = client_fd st"
    and "pending_c2t st' = pending_c2t st" "pending_t2c st' = pending_t2c st"
  shows "sess c ns (put_client (Some (ClientRef c)) st' w) st' R"
proof -
  have "focus c ns w (resolver_job st') (client_fd st') (pending_c2t st') (pending_t2c st') R"
    using assms focus_None [of c ns w "client_fd st" _ _ R "client_fd st'"] by (auto simp: sess_def)
  then show ?thesis
    using focus_put [of c ns w _ _ _ _ R st'] assms(1) by (simp add: sess_def)
qed

text \<open>Updates that concern neither the relay nor the job.\<close>

lemma pending_simps [simp]:
  "pending_c2t (st\<lparr>read_buffer := a\<rparr>) = pending_c2t st" "pending_c2t (st\<lparr>write_buffer := a\<rparr>) = pending_c2t st"
  "pending_c2t (st\<lparr>read_len := n\<rparr>) = pending_c2t st" "pending_c2t (st\<lparr>write_len := n\<rparr>) = pending_c2t st"
  "pending_c2t (st\<lparr>write_off := n\<rparr>) = pending_c2t st" "pending_c2t (st\<lparr>client_fd := x\<rparr>) = pending_c2t st"
  "pending_c2t (st\<lparr>target_fd := x\<rparr>) = pending_c2t st" "pending_c2t (st\<lparr>stage := s\<rparr>) = pending_c2t st"
  "pending_c2t (st\<lparr>relay_started := b\<rparr>) = pending_c2t st"
  "pending_c2t (st\<lparr>t2c_len := n\<rparr>) = pending_c2t st" "pending_c2t (st\<lparr>t2c_off := n\<rparr>) = pending_c2t st"
  "pending_c2t (st\<lparr>t2c_buffer := a\<rparr>) = pending_c2t st"
  "pending_c2t (st\<lparr>last_connect_error := e\<rparr>) = pending_c2t st"
  "pending_c2t (st\<lparr>access_logged := b\<rparr>) = pending_c2t st" "pending_c2t (st\<lparr>username := a\<rparr>) = pending_c2t st"
  "pending_c2t (st\<lparr>destination_host := a\<rparr>) = pending_c2t st"
  "pending_c2t (st\<lparr>destination_port := po\<rparr>) = pending_c2t st"
  "pending_c2t (st\<lparr>target_addr := ad\<rparr>) = pending_c2t st"
  "pending_c2t (st\<lparr>target_addr_len := n\<rparr>) = pending_c2t st"
  "pending_c2t (st\<lparr>target_addresses := al\<rparr>) = pending_c2t st"
  "pending_c2t (st\<lparr>target_address_current := ac\<rparr>) = pending_c2t st"
  "pending_c2t (st\<lparr>resolver_job := oj\<rparr>) = pending_c2t st"
  "pending_t2c (st\<lparr>read_buffer := a\<rparr>) = pending_t2c st" "pending_t2c (st\<lparr>write_buffer := a\<rparr>) = pending_t2c st"
  "pending_t2c (st\<lparr>read_len := n\<rparr>) = pending_t2c st" "pending_t2c (st\<lparr>write_len := n\<rparr>) = pending_t2c st"
  "pending_t2c (st\<lparr>write_off := n\<rparr>) = pending_t2c st" "pending_t2c (st\<lparr>client_fd := x\<rparr>) = pending_t2c st"
  "pending_t2c (st\<lparr>target_fd := x\<rparr>) = pending_t2c st" "pending_t2c (st\<lparr>stage := s\<rparr>) = pending_t2c st"
  "pending_t2c (st\<lparr>relay_started := b\<rparr>) = pending_t2c st"
  "pending_t2c (st\<lparr>c2t_len := n\<rparr>) = pending_t2c st" "pending_t2c (st\<lparr>c2t_off := n\<rparr>) = pending_t2c st"
  "pending_t2c (st\<lparr>c2t_buffer := a\<rparr>) = pending_t2c st"
  "pending_t2c (st\<lparr>last_connect_error := e\<rparr>) = pending_t2c st"
  "pending_t2c (st\<lparr>access_logged := b\<rparr>) = pending_t2c st" "pending_t2c (st\<lparr>username := a\<rparr>) = pending_t2c st"
  "pending_t2c (st\<lparr>destination_host := a\<rparr>) = pending_t2c st"
  "pending_t2c (st\<lparr>destination_port := po\<rparr>) = pending_t2c st"
  "pending_t2c (st\<lparr>target_addr := ad\<rparr>) = pending_t2c st"
  "pending_t2c (st\<lparr>target_addr_len := n\<rparr>) = pending_t2c st"
  "pending_t2c (st\<lparr>target_addresses := al\<rparr>) = pending_t2c st"
  "pending_t2c (st\<lparr>target_address_current := ac\<rparr>) = pending_t2c st"
  "pending_t2c (st\<lparr>resolver_job := oj\<rparr>) = pending_t2c st"
  by (simp_all add: pending_c2t_def pending_t2c_def)

lemma sess_set_interest:
  assumes "sess c ns w st R" "R x = Some (i0, h)"
  shows "returns (drop_status (selector_set_interest x i w)) (\<lambda>w'. sess c ns w' st (R(x \<mapsto> (i, h))))"
proof -
  have "returns (drop_status (selector_set_interest x i w))
      (\<lambda>w'. focus c ns w' (resolver_job st) (client_fd st) (pending_c2t st) (pending_t2c st) (R(x \<mapsto> (i, h)))
        \<and> clients w' = clients w)"
    using assms by (intro focus_set_interest) (simp_all add: sess_def)
  then show ?thesis by (rule returns_mono) (use assms(1) in \<open>simp add: sess_def\<close>)
qed

section \<open>Sending\<close>

lemma send_loop_rule:
  assumes os: "posix_ok os" and len: "len \<le> length buf"
    and kern: "\<And>w p k. I p w \<Longrightarrow> I p (w\<lparr>kern := k\<rparr>)"
    and step: "\<And>w p bs. I p w \<Longrightarrow> take (length bs) p = bs \<Longrightarrow>
      I (drop (length bs) p) (w\<lparr>io := io w @ [(ch, bs)],
         current_metrics := count (length bs) (current_metrics w)\<rparr>)"
    and count0: "\<And>m. count 0 m = m"
    and fail: "\<And>w p e. I p w \<Longrightarrow> I p (w\<lparr>errno := e\<rparr>)"
  shows "off \<le> len \<Longrightarrow> I (take (len - off) (drop off buf)) w \<Longrightarrow>
    returns (send_loop os count ch x buf off len w) (\<lambda>(e, off', w').
      I (take (len - off') (drop off' buf)) w' \<and> off \<le> off' \<and> off' \<le> len \<and> (e = SendDone \<longleftrightarrow> off' = len))"
proof (induction "len - off" arbitrary: off w rule: less_induct)
  case less
  let ?p = "take (len - off) (drop off buf)"
  show ?case
  proof (cases "off < len")
    case False
    with less.prems show ?thesis by (subst send_loop.simps) simp
  next
    case True
    then have r: "array_read buf off (len - off) = Inr ?p" using len by simp
    show ?thesis
    proof (cases "os_send os x ?p (kern w)")
      case (Pair ret k)
      show ?thesis
      proof (cases ret)
        case (Inl e)
        then show ?thesis
          using True r Pair kern [OF fail [OF less.prems(2), where e = e], where k = k] less.prems(1)
          by (subst send_loop.simps) (auto simp: sys_send_def)
      next
        case (Inr n)
        with Pair os have n: "n \<le> length ?p" using posix_send by metis
        then have tl: "length (take n ?p) = n" by simp
        have s: "I (drop n ?p) (w\<lparr>kern := k, io := io w @ [(ch, take n ?p)],
            current_metrics := count n (current_metrics w)\<rparr>)"
          using step [OF kern [OF less.prems(2), where k = k], where bs = "take n ?p"] n unfolding tl by simp
        have d: "drop n ?p = take (len - (off + n)) (drop (off + n) buf)"
          by (simp add: drop_take ac_simps)
        show ?thesis
        proof (cases "n = 0")
          case True
          have "w\<lparr>kern := k, io := e, current_metrics := count 0 (current_metrics w)\<rparr> = w\<lparr>kern := k, io := e\<rparr>" for e
            unfolding count0 by simp
          with True s have "I ?p (w\<lparr>kern := k, io := io w @ [(ch, [])]\<rparr>)" by simp
          then show ?thesis
            using True \<open>off < len\<close> r Pair Inr less.prems(1)
            by (subst send_loop.simps) (simp add: sys_send_def)
        next
          case False
          have "off + n \<le> len" using n True len by simp
          with less.hyps [of "off + n"] s d False True
          have "returns (send_loop os count ch x buf (off + n) len
              (w\<lparr>kern := k, io := io w @ [(ch, take n ?p)], current_metrics := count n (current_metrics w)\<rparr>))
            (\<lambda>(e, off', w'). I (take (len - off') (drop off' buf)) w' \<and> off + n \<le> off' \<and> off' \<le> len
               \<and> (e = SendDone \<longleftrightarrow> off' = len))" by simp
          then show ?thesis
            using True r Pair Inr False
            by (subst send_loop.simps) (auto simp: sys_send_def elim!: returns_mono)
        qed
      qed
    qed
  qed
qed

lemma count_client_to_target_0: "count_client_to_target 0 m = m"
  and count_target_to_client_0: "count_target_to_client 0 m = m"
  by (simp_all add: count_client_to_target_def count_target_to_client_def metrics_defs)

lemma sess_fresh: "sess c ns w st R \<Longrightarrow> c < next_ref w"
  using focus_fresh by (simp add: sess_def) blast

lemma sess_send_reply:
  assumes os: "posix_ok os" and s: "sess c ns w st R" and len: "write_len st \<le> length (write_buffer st)"
    and off: "write_off st \<le> write_len st"
  shows "returns (send_loop os count_nothing Other x (write_buffer st) (write_off st) (write_len st) w)
    (\<lambda>(e, off', w'). sess c ns w' st R \<and> write_off st \<le> off' \<and> off' \<le> write_len st
       \<and> (e = SendDone \<longleftrightarrow> off' = write_len st))"
proof -
  have "returns (send_loop os count_nothing Other x (write_buffer st) (write_off st) (write_len st) w)
    (\<lambda>(e, off', w'). (sess c ns w' st R \<and> c < next_ref w') \<and> write_off st \<le> off' \<and> off' \<le> write_len st
       \<and> (e = SendDone \<longleftrightarrow> off' = write_len st))"
    by (rule send_loop_rule [OF os len, where I = "\<lambda>p w. sess c ns w st R \<and> c < next_ref w"])
      (use off s sess_fresh [OF s] in \<open>auto simp: count_nothing_def sess_def intro: focus_io(1)\<close>)
  then show ?thesis by (rule returns_mono) auto
qed

text \<open>The two directions of the relay: what was sent is taken off the front of what is pending.\<close>

lemma sess_send_c2t:
  assumes os: "posix_ok os" and s: "sess c ns w st R" and len: "c2t_len st \<le> length (c2t_buffer st)"
    and off: "c2t_off st \<le> c2t_len st"
  shows "returns (send_loop os count_client_to_target (ToTarget c) x (c2t_buffer st) (c2t_off st) (c2t_len st) w)
    (\<lambda>(e, off', w'). sess c ns (put_client (Some (ClientRef c)) (st\<lparr>c2t_off := off'\<rparr>) w') (st\<lparr>c2t_off := off'\<rparr>) R
       \<and> c2t_off st \<le> off' \<and> off' \<le> c2t_len st \<and> (e = SendDone \<longleftrightarrow> off' = c2t_len st))"
proof -
  let ?I = "\<lambda>p w. focus c ns w (resolver_job st) (client_fd st) p (pending_t2c st) R
    \<and> clients w c = Some st \<and> c < next_ref w"
  have "returns (send_loop os count_client_to_target (ToTarget c) x (c2t_buffer st) (c2t_off st) (c2t_len st) w)
    (\<lambda>(e, off', w'). ?I (take (c2t_len st - off') (drop off' (c2t_buffer st))) w' \<and> c2t_off st \<le> off'
       \<and> off' \<le> c2t_len st \<and> (e = SendDone \<longleftrightarrow> off' = c2t_len st))"
    by (rule send_loop_rule [OF os len, where I = ?I])
      (use off s sess_fresh [OF s] in
        \<open>auto simp: sess_def count_client_to_target_0 pending_c2t_def intro: focus_sent(1)\<close>)
  then show ?thesis
    by (rule returns_mono)
      (auto simp: sess_def pending_c2t_def pending_t2c_def intro!: focus_put)
qed

lemma sess_send_t2c:
  assumes os: "posix_ok os" and s: "sess c ns w st R" and len: "t2c_len st \<le> length (t2c_buffer st)"
    and off: "t2c_off st \<le> t2c_len st"
  shows "returns (send_loop os count_target_to_client (ToClient c) x (t2c_buffer st) (t2c_off st) (t2c_len st) w)
    (\<lambda>(e, off', w'). sess c ns (put_client (Some (ClientRef c)) (st\<lparr>t2c_off := off'\<rparr>) w') (st\<lparr>t2c_off := off'\<rparr>) R
       \<and> t2c_off st \<le> off' \<and> off' \<le> t2c_len st \<and> (e = SendDone \<longleftrightarrow> off' = t2c_len st))"
proof -
  let ?I = "\<lambda>q w. focus c ns w (resolver_job st) (client_fd st) (pending_c2t st) q R
    \<and> clients w c = Some st \<and> c < next_ref w"
  have "returns (send_loop os count_target_to_client (ToClient c) x (t2c_buffer st) (t2c_off st) (t2c_len st) w)
    (\<lambda>(e, off', w'). ?I (take (t2c_len st - off') (drop off' (t2c_buffer st))) w' \<and> t2c_off st \<le> off'
       \<and> off' \<le> t2c_len st \<and> (e = SendDone \<longleftrightarrow> off' = t2c_len st))"
    by (rule send_loop_rule [OF os len, where I = ?I])
      (use off s sess_fresh [OF s] in
        \<open>auto simp: sess_def count_target_to_client_0 pending_t2c_def intro: focus_sent(2)\<close>)
  then show ?thesis
    by (rule returns_mono)
      (auto simp: sess_def pending_c2t_def pending_t2c_def intro!: focus_put)
qed

section \<open>Closing\<close>

abbreviation of_session :: "nat \<Rightarrow> ref option" where
  "of_session c \<equiv> Some (ClientRef c)"

lemma sess_target_close:
  assumes s: "sess c ns w st R"
  shows "returns (target_close os \<lparr>key_fd = x, key_data = of_session c\<rparr> w)
    (\<lambda>w'. sess c ns w' (if target_fd st = x then st\<lparr>target_fd := -1\<rparr> else st) R)"
  using s sess_put [OF s, of "st\<lparr>target_fd := -1\<rparr>"]
  by (simp add: target_close_def sess_get [OF s])

lemma sess_clear:
  assumes "sess c ns w st R" "R x = Some (i, h)"
  shows "returns (selector_clear x w) (\<lambda>w'. sess c ns w' st (R(x := None)))"
proof -
  have "returns (selector_clear x w)
      (\<lambda>w'. focus c ns w' (resolver_job st) (client_fd st) (pending_c2t st) (pending_t2c st) (R(x := None))
        \<and> clients w' = clients w)"
    using assms by (intro focus_clear) (simp_all add: sess_def)
  then show ?thesis by (rule returns_mono) (use assms(1) in \<open>simp add: sess_def\<close>)
qed

lemma sess_registered: "sess c ns w st R \<Longrightarrow> R x = Some (i, h) \<Longrightarrow> registered w x = Some (i, h, of_session c)"
  using focus_owned by (simp add: sess_def) blast

lemma sess_selector_wf: "sess c ns w st R \<Longrightarrow> selector_wf w"
  using focus_wf by (simp add: sess_def) blast

lemma sess_unregister_target:
  assumes s: "sess c ns w st R" and x: "R x = Some (i, target_handler)"
    and cb: "close_cb target_handler = Some (target_close os)"
  shows "returns (selector_unregister_fd close_cb x w) (\<lambda>(ret, w'). ret = SELECTOR_SUCCESS
    \<and> sess c ns w' (if target_fd st = x then st\<lparr>target_fd := -1\<rparr> else st) (R(x := None)))"
  unfolding selector_unregister_fd_eq [OF sess_selector_wf [OF s] sess_registered [OF s x]] cb
  using sess_clear [where R = R and x = x, OF _ x]
  by (auto intro!: returns_mono [OF sess_target_close [OF s]])

definition without_target :: "client_state \<Rightarrow> registrations \<Rightarrow> registrations" where
  "without_target st R = (if target_fd st = -1 then R else R(target_fd st := None))"

text \<open>A session that has no job is freed, with its target; its own registration is left to the selector.\<close>

lemma sess_free_addresses:
  assumes s: "sess c ns w st R"
  shows "returns (target_connection_free_addresses (of_session c) w)
    (\<lambda>w'. \<exists>al ac. sess c ns w' (st\<lparr>target_addresses := al, target_address_current := ac\<rparr>) R)"
proof -
  have "st\<lparr>target_addresses := target_addresses st, target_address_current := target_address_current st\<rparr> = st"
    by simp
  then have "\<exists>al ac. sess c ns w (st\<lparr>target_addresses := al, target_address_current := ac\<rparr>) R"
    using s by metis
  moreover have "sess c ns (put_client (of_session c) (st\<lparr>target_addresses := None, target_address_current := []\<rparr>) w)
      (st\<lparr>target_addresses := None, target_address_current := []\<rparr>) R"
    using sess_put [OF s] by simp
  ultimately show ?thesis
    by (auto simp: target_connection_free_addresses_def sess_get [OF s])
qed

lemma sess_close_target:
  assumes s: "sess c ns w st R"
    and t: "target_fd st = -1 \<or> (\<exists>i. R (target_fd st) = Some (i, target_handler))"
  shows "returns (close_target os (of_session c) w)
    (\<lambda>w'. sess c ns w' (st\<lparr>target_fd := -1\<rparr>) (without_target st R))"
proof (cases "target_fd st = -1")
  case True
  then have e: "st\<lparr>target_fd := -1\<rparr> = st" by simp
  show ?thesis unfolding e using True s by (simp add: close_target_def sess_get [OF s] without_target_def)
next
  case False
  then obtain i where i: "R (target_fd st) = Some (i, target_handler)" using t by auto
  have s2: "sess c ns (put_client (of_session c) (st\<lparr>target_fd := -1\<rparr>) w) (st\<lparr>target_fd := -1\<rparr>) R"
    using sess_put [OF s] by simp
  show ?thesis
    using False by (auto simp: close_target_def sess_get [OF s] without_target_def
        intro!: returns_mono [OF sess_unregister_target [OF s2 i]])
qed

lemma sess_client_close:
  assumes s: "sess c ns w st R" and j: "resolver_job st = None"
    and t: "target_fd st = -1 \<or> (\<exists>i. R (target_fd st) = Some (i, target_handler))"
  shows "returns (client_close os \<lparr>key_fd = x, key_data = of_session c\<rparr> w)
    (\<lambda>w'. clients w' c = None \<and> (\<exists>p q. focus c ns w' None 0 p q (without_target st R)))"
proof -
  define st1 where "st1 = (if client_fd st = x then st\<lparr>client_fd := -1\<rparr> else st)"
  have s1: "sess c ns (put_client (of_session c) st1 w) st1 R"
    using sess_put [OF s, of st1] j by (simp add: st1_def)
  have t1: "target_fd st1 = target_fd st" "resolver_job st1 = None" using j by (simp_all add: st1_def)
  obtain w2 where w2: "close_target os (of_session c) (put_client (of_session c) st1 w) = Inr w2"
    and s2: "sess c ns w2 (st1\<lparr>target_fd := -1\<rparr>) (without_target st R)"
    using returnsE [OF sess_close_target [OF s1]] t t1 by (metis without_target_def)
  have det: "target_connection_detach_resolver (of_session c) w2 = Inr w2"
    using t1 by (simp add: target_connection_detach_resolver_def sess_get [OF s2])
  obtain w3 al ac where w3: "target_connection_free_addresses (of_session c) w2 = Inr w3"
    and s3: "sess c ns w3 (st1\<lparr>target_fd := -1, target_addresses := al, target_address_current := ac\<rparr>)
      (without_target st R)"
    by (rule returnsE [OF sess_free_addresses [OF s2]]) auto
  have f3: "\<exists>fd p q. focus c ns w3 None fd p q (without_target st R)" "clients w3 c \<noteq> None"
    using s3 t1 by (auto simp: sess_def)
  then obtain p q where "focus c ns w3 None 0 p q (without_target st R)" using focus_None by blast
  from focus_free [OF this f3(2)] show ?thesis
    by (auto simp: client_close_def sess_get [OF s] st1_def [symmetric] w2 det w3 sys_close_def
        free_session_def)
qed

lemma sess_unregister_client:
  assumes s: "sess c ns w st R" and x: "R x = Some (i, client_handler)" and j: "resolver_job st = None"
    and t: "target_fd st = -1 \<or> (\<exists>i. R (target_fd st) = Some (i, target_handler))"
    and R: "(without_target st R)(x := None) = Map.empty" and xt: "target_fd st \<noteq> x"
  shows "returns (selector_unregister_fd (handle_close os) x w) (\<lambda>(ret, w'). world_inv ns w' \<and> clients w' c = None)"
proof -
  have "without_target st R x = Some (i, client_handler)" using x xt by (simp add: without_target_def)
  then have "returns (selector_clear x w') (\<lambda>w'. world_inv ns w' \<and> clients w' c = None)"
    if "focus c ns w' None 0 p q (without_target st R)" "clients w' c = None" for w' p q
    using focus_clear [OF that(1), of x i client_handler] that(2) R
    by (auto elim!: returns_mono intro: unfocus_closed [of c ns _ 0 p q])
  then show ?thesis
    unfolding selector_unregister_fd_eq [OF sess_selector_wf [OF s] sess_registered [OF s x]]
    by (auto intro!: returns_mono [OF sess_client_close [OF s j t]])
qed

text \<open>Registrations with the session's descriptors and handlers, whatever the interests.\<close>

definition has_regs :: "client_state \<Rightarrow> registrations \<Rightarrow> bool" where
  "has_regs st R \<longleftrightarrow> client_fd st \<noteq> -1 \<and> client_fd st \<noteq> target_fd st
     \<and> (\<exists>i j. R = (if target_fd st = -1 then [client_fd st \<mapsto> (i, client_handler)]
          else [client_fd st \<mapsto> (i, client_handler), target_fd st \<mapsto> (j, target_handler)]))"

lemma has_regs_expected: "session_wf st \<Longrightarrow> has_regs st (expected_regs st)"
  unfolding has_regs_def expected_regs_def session_wf_def stage_ok_def by (intro conjI exI) blast+

lemma has_regs_cong:
  "client_fd st' = client_fd st \<Longrightarrow> target_fd st' = target_fd st \<Longrightarrow> has_regs st' R = has_regs st R"
  by (simp add: has_regs_def)

lemma sess_close_connection:
  assumes s: "sess c ns w st R" and h: "has_regs st R" and j: "resolver_job st = None"
  shows "returns (client_session_close_connection os (of_session c) w)
    (\<lambda>w'. world_inv ns w' \<and> clients w' c = None)"
proof -
  let ?st = "st\<lparr>client_fd := -1\<rparr>"
  from h obtain i k where fd: "client_fd st \<noteq> -1" "client_fd st \<noteq> target_fd st"
    and R: "R = (if target_fd st = -1 then [client_fd st \<mapsto> (i, client_handler)]
      else [client_fd st \<mapsto> (i, client_handler), target_fd st \<mapsto> (k, target_handler)])"
    by (auto simp: has_regs_def)
  have s1: "sess c ns (put_client (of_session c) ?st w) ?st R" using sess_put [OF s] j by simp
  have "returns (selector_unregister_fd (handle_close os) (client_fd st) (put_client (of_session c) ?st w))
      (\<lambda>(ret, w'). world_inv ns w' \<and> clients w' c = None)"
    by (rule sess_unregister_client [OF s1]) (use fd R j in \<open>auto simp: without_target_def\<close>)
  then show ?thesis
    using fd by (auto simp: client_session_close_connection_def sess_get [OF s] drop_status_def
        elim!: returns_mono)
qed

lemma sess_close_inv:
  assumes "sess c ns w st R" "has_regs st R" "resolver_job st = None"
  shows "returns (client_session_close_connection os (of_session c) w) (world_inv ns)"
  by (rule returns_mono [OF sess_close_connection [OF assms]]) simp

lemma sess_update_relay_interests:
  assumes s: "sess c ns w st R" and h: "has_regs st R" and r: "relay_started st"
    and st: "target_fd st \<noteq> -1" "stage st = CLIENT_STAGE_RELAY"
  shows "returns (client_session_update_relay_interests (of_session c) w) (\<lambda>w'. sess c ns w' st (expected_regs st))"
proof -
  from h st obtain i k where fd: "client_fd st \<noteq> -1" "client_fd st \<noteq> target_fd st"
    and R: "R = [client_fd st \<mapsto> (i, client_handler), target_fd st \<mapsto> (k, target_handler)]"
    by (auto simp: has_regs_def)
  define R1 where "R1 = R(client_fd st \<mapsto> (client_relay_interest st, client_handler))"
  have c: "R (client_fd st) = Some (i, client_handler)" using R fd by simp
  have t: "R1 (target_fd st) = Some (k, target_handler)" using R fd by (simp add: R1_def)
  have e: "R1(target_fd st \<mapsto> (target_relay_interest st, target_handler)) = expected_regs st"
    using R fd st r by (simp add: R1_def expected_regs_def client_interest_def target_interest_def fun_upd_twist)
  have "returns (drop_status (selector_set_interest (client_fd st) (client_relay_interest st) w))
      (\<lambda>w1. returns (drop_status (selector_set_interest (target_fd st) (target_relay_interest st) w1))
        (\<lambda>w'. sess c ns w' st (expected_regs st)))"
    using sess_set_interest [where R = R1 and st = st, OF _ t, where i = "target_relay_interest st"]
    by (auto simp: e R1_def [symmetric]
        intro!: returns_mono [OF sess_set_interest [where i = "client_relay_interest st", OF s c]])
  then show ?thesis
    using r fd st by (simp add: client_session_update_relay_interests_def sess_get [OF s])
qed

section \<open>Writing\<close>

lemma session_wfD:
  assumes "session_wf st"
  shows "write_len st \<le> length (write_buffer st)" "c2t_len st \<le> length (c2t_buffer st)"
    "t2c_len st \<le> length (t2c_buffer st)" "write_off st \<le> write_len st" "c2t_off st \<le> c2t_len st"
    "t2c_off st \<le> t2c_len st" "length (c2t_buffer st) = SERVER_BUFFER_SIZE"
    "length (t2c_buffer st) = SERVER_BUFFER_SIZE" "length (read_buffer st) = SERVER_BUFFER_SIZE"
    "length (write_buffer st) = SERVER_BUFFER_SIZE"
  using assms by (auto simp: session_wf_def arrays_ok_def regions_ok_def region_ok_def split: if_splits)

text \<open>
  Sending what a relay buffer holds, once the relay runs: the session keeps what was not sent,
  or the buffer is empty again and its source is read from, or the session is closed.
\<close>

lemma target_write_relay:
  fixes w :: "'k world"
  assumes os: "posix_ok os" and inv: "world_inv ns w" and c: "clients w c = Some st" and r: "relay_started st"
  shows "returns (target_write os \<lparr>key_fd = target_fd st, key_data = of_session c\<rparr> w) (world_inv ns)"
proof -
  from sess_focus [OF inv c] have s: "sess c ns w st (expected_regs st)" and wf: "session_wf st" by simp_all
  from wf r have st: "stage st = CLIENT_STAGE_RELAY" "target_fd st \<noteq> -1" "resolver_job st = None"
    "write_len st = 0"
    by (auto simp: session_wf_def stage_ok_def)
  note h = has_regs_expected [OF wf]
  have "returns (send_loop os count_client_to_target (ToTarget c) (target_fd st) (c2t_buffer st)
      (c2t_off st) (c2t_len st) w) (\<lambda>(e, off', w'). returns (case e of
         SendAgain \<Rightarrow> Inr (put_client (of_session c) (st\<lparr>c2t_off := off'\<rparr>) w')
       | SendFailed \<Rightarrow> client_session_close_connection os (of_session c)
                       (put_client (of_session c) (st\<lparr>c2t_off := off'\<rparr>) w')
       | SendDone \<Rightarrow> client_session_update_relay_interests (of_session c)
                       (put_client (of_session c) (st\<lparr>c2t_len := 0, c2t_off := 0\<rparr>) w')) (world_inv ns))"
  proof (rule returns_mono [OF sess_send_c2t [OF os s session_wfD(2) [OF wf] session_wfD(5) [OF wf]]], clarify)
    fix e off' and w' :: "'k world"
    let ?st = "st\<lparr>c2t_off := off'\<rparr>" and ?empty = "st\<lparr>c2t_len := 0, c2t_off := 0\<rparr>"
    assume s': "sess c ns (put_client (of_session c) ?st w') ?st (expected_regs st)"
      and off: "c2t_off st \<le> off'" "off' \<le> c2t_len st" and e: "e = SendDone \<longleftrightarrow> off' = c2t_len st"
    have h': "has_regs ?st (expected_regs st)" using h has_regs_cong [of ?st st] by simp
    show "returns (case e of
         SendAgain \<Rightarrow> Inr (put_client (of_session c) ?st w')
       | SendFailed \<Rightarrow> client_session_close_connection os (of_session c) (put_client (of_session c) ?st w')
       | SendDone \<Rightarrow> client_session_update_relay_interests (of_session c)
                       (put_client (of_session c) ?empty w')) (world_inv ns)"
    proof (cases e)
      case SendAgain
      have lt: "off' < c2t_len st" using SendAgain e off by simp
      have "client_relay_interest ?st = client_relay_interest st"
        "target_relay_interest ?st = target_relay_interest st"
        using lt off by (simp_all add: client_relay_interest_def target_relay_interest_def)
      then have e1: "expected_regs ?st = expected_regs st"
        by (simp add: expected_regs_def client_interest_def target_interest_def)
      have wf': "session_wf ?st"
        using wf off lt
        by (simp add: session_wf_def arrays_ok_def regions_ok_def region_ok_def stage_ok_def)
      show ?thesis
        using sess_unfocus [OF s' [folded e1] wf'] SendAgain by simp
    next
      case SendFailed
      then show ?thesis
        using sess_close_inv [OF s' h'] st by simp
    next
      case SendDone
      have p: "pending_c2t ?empty = pending_c2t ?st" using SendDone e by (simp add: pending_c2t_def)
      have "sess c ns (put_client (of_session c) ?empty (put_client (of_session c) ?st w')) ?empty (expected_regs st)"
        using sess_put [OF s', of ?empty] p st by simp
      then have s0: "sess c ns (put_client (of_session c) ?empty w') ?empty (expected_regs st)"
        by (simp add: put_client.simps)
      have "has_regs ?empty (expected_regs st)" using h has_regs_cong [of ?empty st] by simp
      moreover have "session_wf ?empty"
        using wf by (auto simp: session_wf_def arrays_ok_def regions_ok_def region_ok_def stage_ok_def)
      ultimately show ?thesis
        using SendDone st r sess_unfocus
        by (auto intro!: returns_mono [OF sess_update_relay_interests [OF s0]])
    qed
  qed
  then show ?thesis
    using st by (auto simp: target_write_def sess_get [OF s] relay_channel_def Let_def case_prod_beta
        cong: send_end.case_cong elim!: returns_mono)
qed

lemma client_write_relay_inv:
  fixes w :: "'k world"
  assumes os: "posix_ok os" and inv: "world_inv ns w" and c: "clients w c = Some st" and r: "relay_started st"
  shows "returns (client_write_relay os \<lparr>key_fd = client_fd st, key_data = of_session c\<rparr> w) (world_inv ns)"
proof -
  from sess_focus [OF inv c] have s: "sess c ns w st (expected_regs st)" and wf: "session_wf st" by simp_all
  from wf r have st: "stage st = CLIENT_STAGE_RELAY" "target_fd st \<noteq> -1" "resolver_job st = None"
    by (auto simp: session_wf_def stage_ok_def)
  note h = has_regs_expected [OF wf]
  have "returns (send_loop os count_target_to_client (ToClient c) (client_fd st) (t2c_buffer st)
      (t2c_off st) (t2c_len st) w) (\<lambda>(e, off', w'). returns (case e of
         SendAgain \<Rightarrow> Inr (put_client (of_session c) (st\<lparr>t2c_off := off'\<rparr>) w')
       | SendFailed \<Rightarrow> client_session_close_connection os (of_session c)
                       (put_client (of_session c) (st\<lparr>t2c_off := off'\<rparr>) w')
       | SendDone \<Rightarrow> client_session_update_relay_interests (of_session c)
                       (put_client (of_session c) (st\<lparr>t2c_len := 0, t2c_off := 0\<rparr>) w')) (world_inv ns))"
  proof (rule returns_mono [OF sess_send_t2c [OF os s session_wfD(3) [OF wf] session_wfD(6) [OF wf]]], clarify)
    fix e off' and w' :: "'k world"
    let ?st = "st\<lparr>t2c_off := off'\<rparr>" and ?empty = "st\<lparr>t2c_len := 0, t2c_off := 0\<rparr>"
    assume s': "sess c ns (put_client (of_session c) ?st w') ?st (expected_regs st)"
      and off: "t2c_off st \<le> off'" "off' \<le> t2c_len st" and e: "e = SendDone \<longleftrightarrow> off' = t2c_len st"
    have h': "has_regs ?st (expected_regs st)" using h has_regs_cong [of ?st st] by simp
    show "returns (case e of
         SendAgain \<Rightarrow> Inr (put_client (of_session c) ?st w')
       | SendFailed \<Rightarrow> client_session_close_connection os (of_session c) (put_client (of_session c) ?st w')
       | SendDone \<Rightarrow> client_session_update_relay_interests (of_session c)
                       (put_client (of_session c) ?empty w')) (world_inv ns)"
    proof (cases e)
      case SendAgain
      have lt: "off' < t2c_len st" using SendAgain e off by simp
      have "client_relay_interest ?st = client_relay_interest st"
        "target_relay_interest ?st = target_relay_interest st"
        using lt off by (simp_all add: client_relay_interest_def target_relay_interest_def)
      then have e1: "expected_regs ?st = expected_regs st"
        by (simp add: expected_regs_def client_interest_def target_interest_def)
      have wf': "session_wf ?st"
        using wf off lt
        by (simp add: session_wf_def arrays_ok_def regions_ok_def region_ok_def stage_ok_def)
      show ?thesis
        using sess_unfocus [OF s' [folded e1] wf'] SendAgain by simp
    next
      case SendFailed
      then show ?thesis
        using sess_close_inv [OF s' h'] st by simp
    next
      case SendDone
      have p: "pending_t2c ?empty = pending_t2c ?st" using SendDone e by (simp add: pending_t2c_def)
      have "sess c ns (put_client (of_session c) ?empty (put_client (of_session c) ?st w')) ?empty (expected_regs st)"
        using sess_put [OF s', of ?empty] p st by simp
      then have s0: "sess c ns (put_client (of_session c) ?empty w') ?empty (expected_regs st)"
        by (simp add: put_client.simps)
      have "has_regs ?empty (expected_regs st)" using h has_regs_cong [of ?empty st] by simp
      moreover have "session_wf ?empty"
        using wf by (simp add: session_wf_def arrays_ok_def regions_ok_def region_ok_def stage_ok_def)
      ultimately show ?thesis
        using SendDone st r sess_unfocus
        by (auto intro!: returns_mono [OF sess_update_relay_interests [OF s0]])
    qed
  qed
  then show ?thesis
    by (auto simp: client_write_relay_def sess_get [OF s] relay_channel_def Let_def case_prod_beta
        cong: send_end.case_cong elim!: returns_mono)
qed

text \<open>The reply is out: the session goes on, or ends.\<close>

lemma client_write_reply_inv:
  assumes s: "sess c ns w st (expected_regs st)" and wf: "session_wf (st\<lparr>write_off := off\<rparr>)"
    and len: "0 < write_len st"
  shows "returns (client_write_reply os \<lparr>key_fd = client_fd st, key_data = of_session c\<rparr> w) (world_inv ns)"
proof -
  let ?st = "st\<lparr>write_len := 0, write_off := 0\<rparr>"
  have s1: "sess c ns (put_client (of_session c) ?st w) ?st (expected_regs st)"
    using sess_put [OF s] by simp
  from wf len have st: "\<not> relay_started st" "client_fd st \<noteq> -1" "client_fd st \<noteq> target_fd st"
    "resolver_job st = None" "c2t_len st = 0" "t2c_len st = 0"
    "target_fd st \<noteq> -1 \<longleftrightarrow> stage st = CLIENT_STAGE_RELAY"
    by (auto simp: session_wf_def stage_ok_def)
  have R: "expected_regs st = (if stage st = CLIENT_STAGE_RELAY
      then [client_fd st \<mapsto> (OP_WRITE, client_handler), target_fd st \<mapsto> (OP_NOOP, target_handler)]
      else [client_fd st \<mapsto> (OP_WRITE, client_handler)])"
    using st len by (auto simp: expected_regs_def client_interest_def target_interest_def)
  consider (closing) "stage st = CLIENT_STAGE_CLOSING" | (relay) "stage st = CLIENT_STAGE_RELAY"
    | (on) "stage st = CLIENT_STAGE_AUTH \<or> stage st = CLIENT_STAGE_REQUEST"
    using wf len by (cases "stage st") (auto simp: session_wf_def stage_ok_def)
  then show ?thesis
  proof cases
    case closing
    have "returns (selector_unregister_fd (handle_close os) (client_fd st) (put_client (of_session c) ?st w))
        (\<lambda>(ret, w'). world_inv ns w' \<and> clients w' c = None)"
      by (rule sess_unregister_client [OF s1]) (use closing st R in \<open>auto simp: without_target_def\<close>)
    then show ?thesis
      using closing
      by (auto simp: client_write_reply_def sess_get [OF s] drop_status_def Let_def elim!: returns_mono)
  next
    case relay
    let ?go = "st\<lparr>write_len := 0, write_off := 0, relay_started := True\<rparr>"
    have "sess c ns (put_client (of_session c) ?go (put_client (of_session c) ?st w)) ?go (expected_regs st)"
      using sess_put [OF s1, of ?go] by simp
    then have s2: "sess c ns (put_client (of_session c) ?go (put_client (of_session c) ?st w)) ?go (expected_regs st)" .
    have "has_regs ?go (expected_regs st)" using st relay by (auto simp: has_regs_def R)
    moreover have "session_wf ?go"
      using wf relay st by (simp add: session_wf_def arrays_ok_def regions_ok_def region_ok_def stage_ok_def
          handshake_def)
    ultimately have "returns (client_session_update_relay_interests (of_session c)
        (put_client (of_session c) ?go (put_client (of_session c) ?st w))) (world_inv ns)"
      using relay st by (intro returns_mono [OF sess_update_relay_interests [OF s2]]) (auto intro: sess_unfocus)
    then show ?thesis
      using relay st by (simp add: client_write_reply_def sess_get [OF s] Let_def)
  next
    case on
    have r: "expected_regs st (client_fd st) = Some (OP_WRITE, client_handler)" using on st R by auto
    have "(expected_regs st)(client_fd st \<mapsto> (OP_READ, client_handler)) = expected_regs ?st"
      unfolding R using on st by (auto simp: expected_regs_def client_interest_def handshake_def)
    moreover have "session_wf ?st"
      using wf on st
      by (elim disjE; simp add: session_wf_def arrays_ok_def regions_ok_def region_ok_def stage_ok_def handshake_def)
    ultimately have "returns (drop_status (selector_set_interest (client_fd st) OP_READ
        (put_client (of_session c) ?st w))) (world_inv ns)"
      using sess_unfocus by (intro returns_mono [OF sess_set_interest [OF s1 r]]) auto
    then show ?thesis
      using on by (auto simp: client_write_reply_def sess_get [OF s] Let_def)
  qed
qed

theorem client_write_inv:
  fixes w :: "'k world"
  assumes os: "posix_ok os" and inv: "world_inv ns w" and c: "clients w c = Some st"
    and due: "0 < write_len st \<or> relay_started st"
  shows "returns (client_write os \<lparr>key_fd = client_fd st, key_data = of_session c\<rparr> w) (world_inv ns)"
proof -
  from sess_focus [OF inv c] have s: "sess c ns w st (expected_regs st)" and wf: "session_wf st" by simp_all
  note h = has_regs_expected [OF wf]
  show ?thesis
  proof (cases "write_len st = 0")
    case True
    with due have r: "relay_started st" by simp
    from wf True r have st: "write_off st = 0" "stage st = CLIENT_STAGE_RELAY"
      by (auto simp: session_wf_def regions_ok_def region_ok_def stage_ok_def)
    have l: "send_loop os count_nothing Other (client_fd st) (write_buffer st) 0 0 w = Inr (SendDone, 0, w)"
      by (simp add: send_loop.simps)
    have same: "st\<lparr>write_off := 0\<rparr> = st" using st(1) by simp
    have "put_client (of_session c) (st\<lparr>write_off := 0\<rparr>) w = w"
      unfolding same using c by (simp add: put_client.simps fun_upd_idem)
    then show ?thesis
      using client_write_relay_inv [OF os inv c r] st True
      by (simp add: client_write_def sess_get [OF s] l Let_def)
  next
    case False
    then have st: "\<not> relay_started st" "resolver_job st = None" "stage st \<noteq> CLIENT_STAGE_CONNECTING"
      using wf by (auto simp: session_wf_def stage_ok_def)
    have "returns (send_loop os count_nothing Other (client_fd st) (write_buffer st) (write_off st)
        (write_len st) w) (\<lambda>(e, off', w'). returns (case e of
           SendAgain \<Rightarrow> Inr (put_client (of_session c) (st\<lparr>write_off := off'\<rparr>) w')
         | SendFailed \<Rightarrow> client_session_close_connection os (of_session c)
                         (put_client (of_session c) (st\<lparr>write_off := off'\<rparr>) w')
         | SendDone \<Rightarrow> client_write_reply os \<lparr>key_fd = client_fd st, key_data = of_session c\<rparr>
                         (put_client (of_session c) (st\<lparr>write_off := off'\<rparr>) w')) (world_inv ns))"
    proof (rule returns_mono [OF sess_send_reply [OF os s session_wfD(1) [OF wf] session_wfD(4) [OF wf]]], clarify)
      fix e off' and w' :: "'k world"
      let ?st = "st\<lparr>write_off := off'\<rparr>"
      assume "sess c ns w' st (expected_regs st)"
        and off: "write_off st \<le> off'" "off' \<le> write_len st" and e: "e = SendDone \<longleftrightarrow> off' = write_len st"
      then have s': "sess c ns (put_client (of_session c) ?st w') ?st (expected_regs st)"
        using sess_put [of c ns w' st _ ?st] by simp
      have e1: "expected_regs ?st = expected_regs st"
        by (simp add: expected_regs_def client_interest_def target_interest_def client_relay_interest_def
            target_relay_interest_def)
      show "returns (case e of
           SendAgain \<Rightarrow> Inr (put_client (of_session c) ?st w')
         | SendFailed \<Rightarrow> client_session_close_connection os (of_session c) (put_client (of_session c) ?st w')
         | SendDone \<Rightarrow> client_write_reply os \<lparr>key_fd = client_fd st, key_data = of_session c\<rparr>
                         (put_client (of_session c) ?st w')) (world_inv ns)"
      proof (cases e)
        case SendAgain
        then have "off' < write_len st" using e off by simp
        then have wf': "session_wf ?st"
          using wf off by (simp add: session_wf_def arrays_ok_def regions_ok_def region_ok_def stage_ok_def)
        then show ?thesis
          using sess_unfocus [OF s' [folded e1]] SendAgain by simp
      next
        case SendFailed
        have "has_regs ?st (expected_regs st)" using h has_regs_cong [of ?st st] by simp
        from sess_close_inv [OF s' this] show ?thesis
          using st SendFailed by simp
      next
        case SendDone
        have "?st\<lparr>write_off := write_off st\<rparr> = st" by simp
        then have "session_wf (?st\<lparr>write_off := write_off st\<rparr>)" using wf by simp
        from client_write_reply_inv [OF s' [folded e1] this] show ?thesis
          using False SendDone by simp
      qed
    qed
    then show ?thesis
      using False by (auto simp: client_write_def sess_get [OF s] Let_def case_prod_beta
          cong: send_end.case_cong elim!: returns_mono)
  qed
qed

section \<open>Reading in the relay\<close>

lemma sess_recv_failed:
  "sess c ns w st R \<Longrightarrow> sys_recv os x n ch w = (None, w') \<Longrightarrow> sess c ns w' st R"
  by (auto simp: sys_recv_def split: prod.splits sum.splits)

lemma sys_recv_length: "posix_ok os \<Longrightarrow> sys_recv os x n ch w = (Some bs, w') \<Longrightarrow> length bs \<le> n"
  by (auto simp: sys_recv_def split: prod.splits sum.splits dest: posix_recv)

lemma sess_recv_relay:
  assumes s: "sess c ns w st R"
  shows "sys_recv os x n (FromTarget c) w = (Some bs, w') \<Longrightarrow> pending_t2c st' = pending_t2c st @ bs \<Longrightarrow>
      pending_c2t st' = pending_c2t st \<Longrightarrow> resolver_job st' = resolver_job st \<Longrightarrow> client_fd st' = client_fd st \<Longrightarrow>
      sess c ns (put_client (of_session c) st' w') st' R"
    and "sys_recv os x n (FromClient c) w = (Some bs, w') \<Longrightarrow> pending_c2t st' = pending_c2t st @ bs \<Longrightarrow>
      pending_t2c st' = pending_t2c st \<Longrightarrow> resolver_job st' = resolver_job st \<Longrightarrow> client_fd st' = client_fd st \<Longrightarrow>
      sess c ns (put_client (of_session c) st' w') st' R"
    and "sys_recv os x n Other w = (Some bs, w') \<Longrightarrow> sess c ns w' st R"
proof -
  have f: "focus c ns (w\<lparr>kern := k\<rparr>) (resolver_job st) (client_fd st) (pending_c2t st) (pending_t2c st) R"
    "c < next_ref (w\<lparr>kern := k\<rparr>)" "clients w c = Some st" for k
    using s sess_fresh [OF s] by (simp_all add: sess_def)
  note io = focus_io [OF f(1,2)]
  show "sess c ns (put_client (of_session c) st' w') st' R"
    if "sys_recv os x n (FromTarget c) w = (Some bs, w')" "pending_t2c st' = pending_t2c st @ bs"
      "pending_c2t st' = pending_c2t st" "resolver_job st' = resolver_job st" "client_fd st' = client_fd st"
    using that f(3) io(3) by (auto simp: sess_def sys_recv_def split: prod.splits sum.splits intro!: focus_put)
  show "sess c ns (put_client (of_session c) st' w') st' R"
    if "sys_recv os x n (FromClient c) w = (Some bs, w')" "pending_c2t st' = pending_c2t st @ bs"
      "pending_t2c st' = pending_t2c st" "resolver_job st' = resolver_job st" "client_fd st' = client_fd st"
    using that f(3) io(2) by (auto simp: sess_def sys_recv_def split: prod.splits sum.splits intro!: focus_put)
  show "sess c ns w' st R" if "sys_recv os x n Other w = (Some bs, w')"
    using that f(3) io(1) by (auto simp: sess_def sys_recv_def split: prod.splits sum.splits)
qed

lemma take_overwrite_start: "length ys \<le> length xs \<Longrightarrow> take (length ys) (overwrite xs 0 ys) = ys"
  by (simp add: overwrite_def)

theorem target_read_inv:
  fixes w :: "'k world"
  assumes os: "posix_ok os" and inv: "world_inv ns w" and c: "clients w c = Some st"
    and r: "relay_started st" and due: "t2c_len st = 0"
  shows "returns (target_read os \<lparr>key_fd = target_fd st, key_data = of_session c\<rparr> w) (world_inv ns)"
proof -
  from sess_focus [OF inv c] have s: "sess c ns w st (expected_regs st)" and wf: "session_wf st" by simp_all
  from wf r have st: "stage st = CLIENT_STAGE_RELAY" "target_fd st \<noteq> -1" "resolver_job st = None"
    "write_len st = 0" "client_fd st \<noteq> -1"
    by (auto simp: session_wf_def stage_ok_def)
  note h = has_regs_expected [OF wf]
  obtain got w1 where recv: "sys_recv os (target_fd st) (length (t2c_buffer st)) (FromTarget c) w = (got, w1)"
    by fastforce
  show ?thesis
  proof (cases got)
    case None
    then have s1: "sess c ns w1 st (expected_regs st)" using sess_recv_failed [OF s] recv by simp
    show ?thesis
      using sess_unfocus [OF s1 wf] sess_close_inv [OF s1 h] st due recv None
      by (simp add: target_read_def sess_get [OF s] relay_channel_def)
  next
    case (Some bs)
    let ?st = "st\<lparr>t2c_buffer := overwrite (t2c_buffer st) 0 bs, t2c_len := length bs, t2c_off := 0\<rparr>"
    have len: "length bs \<le> length (t2c_buffer st)" using sys_recv_length [OF os] recv Some by metis
    have s1: "sess c ns (put_client (of_session c) ?st w1) ?st (expected_regs st)"
      by (rule sess_recv_relay(1) [OF s recv [unfolded Some]])
        (use due len in \<open>simp_all add: pending_t2c_def pending_c2t_def take_overwrite_start\<close>)
    show ?thesis
    proof (cases "bs = []")
      case False
      have h1: "has_regs ?st (expected_regs st)" using h has_regs_cong [of ?st st] by simp
      have wf1: "session_wf ?st"
        using wf len False st r
        by (simp add: session_wf_def arrays_ok_def regions_ok_def region_ok_def stage_ok_def)
      have "returns (client_session_update_relay_interests (of_session c) (put_client (of_session c) ?st w1))
          (\<lambda>w'. returns (client_write os \<lparr>key_fd = client_fd st, key_data = of_session c\<rparr> w') (world_inv ns))"
      proof (rule returns_mono [OF sess_update_relay_interests [OF s1 h1]])
        fix w' :: "'k world"
        assume s': "sess c ns w' ?st (expected_regs ?st)"
        then have "clients w' c = Some ?st" by (simp add: sess_def)
        from client_write_inv [OF os sess_unfocus [OF s' wf1] this] r
        show "returns (client_write os \<lparr>key_fd = client_fd st, key_data = of_session c\<rparr> w') (world_inv ns)"
          by simp
      qed (use r st in simp_all)
      then show ?thesis
        using due recv Some False len st
        by (simp add: target_read_def sess_get [OF s] relay_channel_def Let_def)
    next
      case True
      have same: "pending_t2c ?st = pending_t2c st"
        using due True by (simp add: pending_t2c_def)
      have "sess c ns (put_client (of_session c) st (put_client (of_session c) ?st w1)) st (expected_regs st)"
        using sess_put [OF s1, of st] same by (simp add: pending_c2t_def)
      moreover have "clients w1 c = Some st"
        using recv Some c by (auto simp: sys_recv_def split: prod.splits sum.splits)
      ultimately have "sess c ns w1 st (expected_regs st)"
        by (simp add: put_client.simps fun_upd_idem)
      then show ?thesis
        using sess_close_inv [OF _ h] st due recv Some True
        by (simp add: target_read_def sess_get [OF s] relay_channel_def)
    qed
  qed
qed

end
