(* ===== verification/Handlers.thy ===== *)
theory Handlers
  imports Session Client_Session
begin

text \<open>
  The handlers of a session keep the invariant: reading and writing in every stage, the request
  and the connection it leads to, the resolver's answer, and new clients. No handler runs into
  a fault.
\<close>

section \<open>The relay\<close>

theorem client_read_relay_inv:
  fixes w :: "'k world"
  assumes os: "posix_ok os" and inv: "world_inv ns w" and c: "clients w c = Some st"
    and r: "relay_started st" and due: "c2t_len st = 0"
  shows "returns (client_read_relay os \<lparr>key_fd = client_fd st, key_data = of_session c\<rparr> w) (world_inv ns)"
proof -
  from sess_focus [OF inv c] have s: "sess c ns w st (expected_regs st)" and wf: "session_wf st" by simp_all
  from wf r have st: "stage st = CLIENT_STAGE_RELAY" "target_fd st \<noteq> -1" "resolver_job st = None"
    "write_len st = 0" "client_fd st \<noteq> -1"
    by (auto simp: session_wf_def stage_ok_def)
  note h = has_regs_expected [OF wf]
  obtain got w1 where recv: "sys_recv os (client_fd st) (length (c2t_buffer st)) (FromClient c) w = (got, w1)"
    by fastforce
  show ?thesis
  proof (cases got)
    case None
    then have s1: "sess c ns w1 st (expected_regs st)" using sess_recv_failed [OF s] recv by simp
    show ?thesis
      using sess_unfocus [OF s1 wf] sess_close_inv [OF s1 h] st due recv None
      by (simp add: client_read_relay_def sess_get [OF s] relay_channel_def)
  next
    case (Some bs)
    let ?st = "st\<lparr>c2t_buffer := overwrite (c2t_buffer st) 0 bs, c2t_len := length bs, c2t_off := 0\<rparr>"
    have len: "length bs \<le> length (c2t_buffer st)" using sys_recv_length [OF os] recv Some by metis
    have s1: "sess c ns (put_client (of_session c) ?st w1) ?st (expected_regs st)"
      by (rule sess_recv_relay(2) [OF s recv [unfolded Some]])
        (use due len in \<open>simp_all add: pending_t2c_def pending_c2t_def take_overwrite_start\<close>)
    show ?thesis
    proof (cases "bs = []")
      case False
      have h1: "has_regs ?st (expected_regs st)" using h has_regs_cong [of ?st st] by simp
      have wf1: "session_wf ?st"
        using wf len False st r
        by (simp add: session_wf_def arrays_ok_def regions_ok_def region_ok_def stage_ok_def)
      have "returns (client_session_update_relay_interests (of_session c) (put_client (of_session c) ?st w1))
          (\<lambda>w'. returns (target_write os \<lparr>key_fd = target_fd st, key_data = of_session c\<rparr> w') (world_inv ns))"
      proof (rule returns_mono [OF sess_update_relay_interests [OF s1 h1]])
        fix w' :: "'k world"
        assume s': "sess c ns w' ?st (expected_regs ?st)"
        then have "clients w' c = Some ?st" by (simp add: sess_def)
        from target_write_relay [OF os sess_unfocus [OF s' wf1] this] r
        show "returns (target_write os \<lparr>key_fd = target_fd st, key_data = of_session c\<rparr> w') (world_inv ns)"
          by simp
      qed (use r st in simp_all)
      then show ?thesis
        using due recv Some False len st
        by (simp add: client_read_relay_def sess_get [OF s] relay_channel_def Let_def)
    next
      case True
      have same: "pending_c2t ?st = pending_c2t st"
        using due True by (simp add: pending_c2t_def)
      have "sess c ns (put_client (of_session c) st (put_client (of_session c) ?st w1)) st (expected_regs st)"
        using sess_put [OF s1, of st] same by (simp add: pending_t2c_def)
      moreover have "clients w1 c = Some st"
        using recv Some c by (auto simp: sys_recv_def split: prod.splits sum.splits)
      ultimately have "sess c ns w1 st (expected_regs st)"
        by (simp add: put_client.simps fun_upd_idem)
      then show ?thesis
        using sess_close_inv [OF _ h] st due recv Some True
        by (simp add: client_read_relay_def sess_get [OF s] relay_channel_def)
    qed
  qed
qed

section \<open>Connecting to the target\<close>

text \<open>The handler under way may register a target: it runs for the session's client, or for its target.\<close>

definition may_register :: "turn \<Rightarrow> nat \<Rightarrow> registrations \<Rightarrow> bool" where
  "may_register ns c R \<longleftrightarrow> R (at_fd ns) \<noteq> None \<or> (at_handler ns = target_handler \<and> at_data ns = of_session c)"

lemma sess_register:
  assumes s: "sess c ns w st R" and g: "may_register ns c R"
  shows "returns (selector_register ok junk x (Some target_handler) i (of_session c) w) (\<lambda>(status, w').
           if status = SELECTOR_SUCCESS then sess c ns w' st (R(x \<mapsto> (i, target_handler))) \<and> R x = None \<and> x \<noteq> -1
           else w' = w)"
proof -
  have f: "focus c ns w (resolver_job st) (client_fd st) (pending_c2t st) (pending_t2c st) R"
    and c: "clients w c = Some st" using s by (simp_all add: sess_def)
  have "registered w (at_fd ns) \<noteq> None \<or> (at_handler ns = target_handler \<and> at_data ns = of_session c)"
    using g sess_registered [OF s] by (auto simp: may_register_def)
  from focus_register [OF f this, of ok junk x i]
  show ?thesis
  proof (rule returns_mono, clarify)
    fix status w'
    assume "if status = SELECTOR_SUCCESS
      then focus c ns w' (resolver_job st) (client_fd st) (pending_c2t st) (pending_t2c st)
             (R(x \<mapsto> (i, target_handler))) \<and> clients w' = clients w \<and> errno w' = errno w
           \<and> registered w x = None \<and> 0 \<le> x
      else w' = w"
    moreover have "registered w x = None \<Longrightarrow> R x = None" using sess_registered [OF s] by (cases "R x") auto
    ultimately show "if status = SELECTOR_SUCCESS
      then sess c ns w' st (R(x \<mapsto> (i, target_handler))) \<and> R x = None \<and> x \<noteq> -1 else w' = w"
      using c by (auto simp: sess_def split: if_splits)
  qed
qed

text \<open>The outcome of trying one address, or the addresses that are left.\<close>

definition tried :: "nat \<Rightarrow> turn \<Rightarrow> client_state \<Rightarrow> registrations \<Rightarrow> bool \<times> 'k world \<Rightarrow> bool" where
  "tried c ns st R = (\<lambda>(started, w). \<exists>e ac.
     if started then \<exists>t. t \<noteq> -1 \<and> R t = None
       \<and> sess c ns w (st\<lparr>last_connect_error := e, target_address_current := ac, target_fd := t,
           stage := CLIENT_STAGE_CONNECTING\<rparr>) (R(t \<mapsto> (OP_WRITE, target_handler)))
     else sess c ns w (st\<lparr>last_connect_error := e, target_address_current := ac\<rparr>) R)"

lemma triedI:
  "sess c ns w (st\<lparr>last_connect_error := e, target_address_current := ac\<rparr>) R \<Longrightarrow> tried c ns st R (False, w)"
  by (auto simp: tried_def)

lemma tried_success:
  "sess c ns w (st\<lparr>last_connect_error := e, target_address_current := ac, target_fd := t,
     stage := CLIENT_STAGE_CONNECTING\<rparr>) (R(t \<mapsto> (OP_WRITE, target_handler))) \<Longrightarrow> t \<noteq> -1 \<Longrightarrow> R t = None \<Longrightarrow>
     tried c ns st R (True, w)"
  by (auto simp: tried_def)

lemma sys_frames:
  assumes s: "sess c ns w st R"
  shows "sys_socket os fam w = (fd, w') \<Longrightarrow> sess c ns w' st R"
    "set_nonblocking os x w = (ok, w') \<Longrightarrow> sess c ns w' st R"
    "sys_connect os x ad l w = (b, w') \<Longrightarrow> sess c ns w' st R"
    "sys_so_error os x w = (v, w') \<Longrightarrow> sess c ns w' st R"
    "ask f w = (y, w') \<Longrightarrow> sess c ns w' st R"
  using s by (auto simp: sys_socket_def set_nonblocking_def sys_connect_def sys_so_error_def ask_def
      split: prod.splits sum.splits option.splits)

lemma tried_plain:
  assumes "sess c ns w (st\<lparr>last_connect_error := e\<rparr>) R"
  shows "tried c ns st R (False, w)"
proof -
  have "st\<lparr>last_connect_error := e, target_address_current := target_address_current st\<rparr> = st\<lparr>last_connect_error := e\<rparr>" by simp
  with assms have "sess c ns w (st\<lparr>last_connect_error := e, target_address_current := target_address_current st\<rparr>) R"
    by (simp only:)
  then show ?thesis by (rule triedI)
qed

text \<open>Giving up a descriptor that is not yet registered, with \<open>target_fd\<close> as it was or already set.\<close>

lemma tried_undone:
  assumes "target_fd st = -1" "sess c ns w (st\<lparr>target_fd := x\<rparr>) R"
  shows "tried c ns st R (False, put_client (of_session c) (st\<lparr>last_connect_error := e, target_fd := -1\<rparr>) (sys_close os x w))"
proof -
  have "st\<lparr>last_connect_error := e, target_fd := -1\<rparr> = st\<lparr>last_connect_error := e\<rparr>" using assms(1) by simp
  moreover have "sess c ns (put_client (of_session c) (st\<lparr>last_connect_error := e, target_fd := -1\<rparr>)
      (sys_close os x w)) (st\<lparr>last_connect_error := e, target_fd := -1\<rparr>) R"
    using assms(2) by (intro sess_put [where st = "st\<lparr>target_fd := x\<rparr>"]) simp_all
  ultimately show ?thesis using tried_plain by simp
qed

lemma sess_register_connecting:
  fixes w :: "'k world"
  assumes s: "sess c ns w (st\<lparr>target_fd := x\<rparr>) R" and g: "may_register ns c R" and t: "target_fd st = -1"
  shows "returns (register_connecting_socket os (of_session c) x w) (tried c ns st R)"
  unfolding register_connecting_socket_def returns_simps
proof (rule returns_mono [OF sess_register [OF s g]], clarify)
  let ?st = "st\<lparr>target_fd := x\<rparr>"
  fix status and w5 :: "'k world"
  assume a: "if status = SELECTOR_SUCCESS
    then sess c ns w5 ?st (R(x \<mapsto> (OP_WRITE, target_handler))) \<and> R x = None \<and> x \<noteq> -1 else w5 = w"
  show "returns (bindE (get_client (of_session c) w5) (\<lambda>st.
      if status \<noteq> SELECTOR_SUCCESS
      then Inr (False, put_client (of_session c) (st\<lparr>last_connect_error := errno w5, target_fd := -1\<rparr>)
             (sys_close os x w5))
      else Inr (True, put_client (of_session c) (st\<lparr>stage := CLIENT_STAGE_CONNECTING\<rparr>) w5)))
    (tried c ns st R)"
  proof (cases "status = SELECTOR_SUCCESS")
    case True
    with a have s5: "sess c ns w5 ?st (R(x \<mapsto> (OP_WRITE, target_handler)))" "R x = None" "x \<noteq> -1"
      by simp_all
    let ?new = "?st\<lparr>stage := CLIENT_STAGE_CONNECTING\<rparr>"
    have e: "?new = st\<lparr>last_connect_error := last_connect_error st,
        target_address_current := target_address_current st, target_fd := x,
        stage := CLIENT_STAGE_CONNECTING\<rparr>" by simp
    have "sess c ns (put_client (of_session c) ?new w5) ?new (R(x \<mapsto> (OP_WRITE, target_handler)))"
      using s5(1) by (intro sess_put [where st = ?st]) simp_all
    from tried_success [OF this [unfolded e] s5(3,2)] show ?thesis
      using True by (simp add: sess_get [OF s5(1)])
  next
    case False
    with a have "w5 = w" by simp
    then show ?thesis using tried_undone [OF t s, of "errno w" os] False by (simp add: sess_get [OF s])
  qed
qed

lemma sess_start_target_connection:
  fixes w :: "'k world"
  assumes s: "sess c ns w st R" and g: "may_register ns c R" and t: "target_fd st = -1"
  shows "returns (start_target_connection os (of_session c) ad l w) (tried c ns st R)"
proof -
  obtain fd w1 where sock: "sys_socket os (sa_family ad) w = (fd, w1)" by fastforce
  note s1 = sys_frames(1) [OF s sock]
  show ?thesis
  proof (cases fd)
    case None
    have "tried c ns st R (False, put_client (of_session c) (st\<lparr>last_connect_error := errno w1\<rparr>) w1)"
      by (rule tried_plain, rule sess_put [OF s1]) simp_all
    then show ?thesis using None by (simp add: start_target_connection_def sock sess_get [OF s1])
  next
    case (Some x)
    obtain ok w2 where nb: "set_nonblocking os x w1 = (ok, w2)" by fastforce
    note s2 = sys_frames(2) [OF s1 nb]
    have close: "tried c ns st R (False, sys_close os x (put_client (of_session c) (st\<lparr>last_connect_error := errno w2\<rparr>) w2))"
      using sess_put [OF s2, of "st\<lparr>last_connect_error := errno w2\<rparr>"] by (intro tried_plain) simp
    let ?st = "st\<lparr>target_fd := x\<rparr>"
    have s3: "sess c ns (put_client (of_session c) ?st w2) ?st R" using sess_put [OF s2, of ?st] by simp
    obtain con w4 where cn: "sys_connect os x ad l (put_client (of_session c) ?st w2) = (con, w4)" by fastforce
    note s4 = sys_frames(3) [OF s3 cn]
    show ?thesis
      using close tried_undone [OF t s4, of "errno w4"] sess_register_connecting [OF s4 g t, of os] Some
      by (simp add: start_target_connection_def sock sess_get [OF s1] nb cn Let_def)
  qed
qed

lemma tried_state:
  "tried c ns (st\<lparr>last_connect_error := e, target_address_current := ac\<rparr>) R = tried c ns st R"
  by (simp add: tried_def)

lemma sess_next_target:
  fixes w :: "'k world"
  assumes g: "may_register ns c R" and t: "target_fd st = -1"
  shows "sess c ns w (st\<lparr>last_connect_error := e, target_address_current := ac\<rparr>) R \<Longrightarrow>
    returns (next_target_loop os (of_session c) addrs w) (tried c ns st R)"
proof (induction addrs arbitrary: w e ac)
  case Nil
  then show ?case by (auto intro: triedI)
next
  case (Cons a rest)
  let ?st = "st\<lparr>last_connect_error := e, target_address_current := ac\<rparr>"
  let ?w = "put_client (of_session c) (?st\<lparr>target_address_current := rest\<rparr>) w"
  have s1: "sess c ns ?w (st\<lparr>last_connect_error := e, target_address_current := rest\<rparr>) R"
    using sess_put [OF Cons.prems, of "st\<lparr>last_connect_error := e, target_address_current := rest\<rparr>"] by simp
  show ?case
  proof (cases "ai_family a \<noteq> AF_INET \<and> ai_family a \<noteq> AF_INET6")
    case True
    then show ?thesis using Cons.IH [OF s1] by (simp add: sess_get [OF Cons.prems] Let_def)
  next
    case False
    have "returns (start_target_connection os (of_session c) (ai_addr a) (ai_addrlen a) ?w) (tried c ns st R)"
      using sess_start_target_connection [OF s1 g] t by (simp add: tried_state)
    then have "returns (start_target_connection os (of_session c) (ai_addr a) (ai_addrlen a) ?w)
        (\<lambda>(started, w). returns (if started then Inr (True, w)
           else next_target_loop os (of_session c) rest w) (tried c ns st R))"
    proof (rule returns_mono, clarify)
      fix started and w' :: "'k world"
      assume tr: "tried c ns st R (started, w')"
      show "returns (if started then Inr (True, w') else next_target_loop os (of_session c) rest w')
          (tried c ns st R)"
      proof (cases started)
        case False
        with tr obtain e' ac' where "sess c ns w' (st\<lparr>last_connect_error := e', target_address_current := ac'\<rparr>) R"
          by (auto simp: tried_def)
        from Cons.IH [OF this] False show ?thesis by simp
      qed (use tr in simp)
    qed
    then show ?thesis
      using False by (auto simp: sess_get [OF Cons.prems] Let_def case_prod_beta elim!: returns_mono)
  qed
qed

lemma sess_start_next:
  fixes w :: "'k world"
  assumes s: "sess c ns w st R" and g: "may_register ns c R" and t: "target_fd st = -1"
  shows "returns (start_next_target_connection os (of_session c) w) (tried c ns st R)"
proof -
  have "st\<lparr>last_connect_error := last_connect_error st, target_address_current := target_address_current st\<rparr> = st"
    by simp
  then have "sess c ns w (st\<lparr>last_connect_error := last_connect_error st,
      target_address_current := target_address_current st\<rparr>) R" using s by (simp only:)
  from sess_next_target [OF g t this] show ?thesis
    by (simp add: start_next_target_connection_def sess_get [OF s])
qed

section \<open>Failing a request\<close>

text \<open>The invariant holds and the session is still there.\<close>

definition settled :: "nat \<Rightarrow> turn \<Rightarrow> 'k world \<Rightarrow> bool" where
  "settled c ns w \<longleftrightarrow> (\<exists>st. sess c ns w st (expected_regs st) \<and> session_wf st)"

lemma settled_inv: "settled c ns w \<Longrightarrow> world_inv ns w"
  using sess_unfocus by (auto simp: settled_def)

text \<open>A session that may be told anything: no job, nothing in the relay.\<close>

definition quiet :: "client_state \<Rightarrow> bool" where
  "quiet st \<longleftrightarrow> arrays_ok st \<and> client_fd st \<noteq> -1 \<and> client_fd st \<noteq> target_fd st \<and> resolver_job st = None
     \<and> \<not> relay_started st \<and> c2t_off st = 0 \<and> t2c_off st = 0 \<and> c2t_len st = 0 \<and> t2c_len st = 0 \<and> read_len st \<le> SERVER_BUFFER_SIZE"

lemma quiet_session:
  "session_wf st \<Longrightarrow> \<not> relay_started st \<Longrightarrow> resolver_job st = None \<Longrightarrow> quiet st"
  by (auto simp: quiet_def session_wf_def stage_ok_def regions_ok_def region_ok_def SERVER_BUFFER_SIZE_def split: if_splits)

lemma sess_reply:
  assumes s: "sess c ns w st R" and len: "length (write_buffer st) = SERVER_BUFFER_SIZE"
  shows "returns (reply_to_client (of_session c) reply w) (\<lambda>w'. \<exists>buf. length buf = SERVER_BUFFER_SIZE
    \<and> sess c ns w' (st\<lparr>write_buffer := buf, write_len := 10, write_off := 0\<rparr>) R)"
proof -
  let ?msg = "[5, reply, 0, 1, 0, 0, 0, 0, 0, 0]"
  have "sess c ns (put_client (of_session c)
      (st\<lparr>write_buffer := overwrite (write_buffer st) 0 ?msg, write_len := 10, write_off := 0\<rparr>) w)
      (st\<lparr>write_buffer := overwrite (write_buffer st) 0 ?msg, write_len := 10, write_off := 0\<rparr>) R"
    by (rule sess_put [OF s]) simp_all
  then show ?thesis
    using len by (auto simp: reply_to_client_def sess_get [OF s] socks5_prepare_request_response_def
        SERVER_BUFFER_SIZE_def intro!: exI [of _ "overwrite (write_buffer st) 0 ?msg"])
qed

lemma sess_access_log:
  assumes s: "sess c ns w st R" and len: "length (destination_host st) = CLIENT_DESTINATION_MAX + 1"
  shows "returns (access_log_client_connection os (of_session c) ok w)
    (\<lambda>w'. \<exists>b. sess c ns w' (st\<lparr>access_logged := b\<rparr>) R)"
proof -
  have same: "st\<lparr>access_logged := access_logged st\<rparr> = st" by simp
  have log: "sess c ns (access_log_connection os u h p ok w) st R" for u h p
    using s by (auto simp: access_log_connection_def ask_def Let_def split: prod.splits)
  have "sess c ns (put_client (of_session c) (st\<lparr>access_logged := True\<rparr>)
      (access_log_connection os u h p ok w)) (st\<lparr>access_logged := True\<rparr>) R" for u h p
    by (rule sess_put [OF log]) simp_all
  then have "\<exists>b. sess c ns (put_client (of_session c) (st\<lparr>access_logged := True\<rparr>)
      (access_log_connection os u h p ok w)) (st\<lparr>access_logged := b\<rparr>) R" for u h p by blast
  moreover have "\<exists>b. sess c ns w (st\<lparr>access_logged := b\<rparr>) R" using s same by metis
  ultimately show ?thesis
    using len by (simp add: access_log_client_connection_def sess_get [OF s])
qed

lemma sess_set_stage:
  assumes s: "sess c ns w st R"
  shows "returns (set_stage (of_session c) s w) (\<lambda>w'. sess c ns w' (st\<lparr>stage := s\<rparr>) R)"
  using sess_put [OF s, of "st\<lparr>stage := s\<rparr>"] by (simp add: set_stage_def sess_get [OF s])

lemma sess_fail_request:
  fixes w :: "'k world"
  assumes s: "sess c ns w st [client_fd st \<mapsto> (i, client_handler)]" and quiet: "quiet st" and t: "target_fd st = -1"
  shows "returns (fail_request os \<lparr>key_fd = client_fd st, key_data = of_session c\<rparr> (of_session c) reply w)
    (settled c ns)"
proof -
  let ?R = "[client_fd st \<mapsto> (i, client_handler)]"
  have len: "length (write_buffer st) = SERVER_BUFFER_SIZE"
    "length (destination_host st) = CLIENT_DESTINATION_MAX + 1"
    using quiet t by (simp_all add: quiet_def arrays_ok_def)
  obtain w1 buf where w1: "reply_to_client (of_session c) reply w = Inr w1" "length buf = SERVER_BUFFER_SIZE"
    and s1: "sess c ns w1 (st\<lparr>write_buffer := buf, write_len := 10, write_off := 0\<rparr>) ?R"
    by (rule returnsE [OF sess_reply [OF s len(1), of reply]]) auto
  let ?w2 = "w1\<lparr>current_metrics := metrics_connection_failed (current_metrics w1)\<rparr>"
  have s2: "sess c ns ?w2 (st\<lparr>write_buffer := buf, write_len := 10, write_off := 0\<rparr>) ?R"
    using s1 by simp
  obtain w3 b where w3: "access_log_client_connection os (of_session c) False ?w2 = Inr w3"
    and s3: "sess c ns w3 (st\<lparr>write_buffer := buf, write_len := 10, write_off := 0, access_logged := b\<rparr>) ?R"
    by (rule returnsE [OF sess_access_log [OF s2, of os False]]) (use len in auto)
  let ?st = "st\<lparr>write_buffer := buf, write_len := 10, write_off := 0, access_logged := b,
      stage := CLIENT_STAGE_CLOSING\<rparr>"
  obtain w4 where w4: "set_stage (of_session c) CLIENT_STAGE_CLOSING w3 = Inr w4" and s4: "sess c ns w4 ?st ?R"
    by (rule returnsE [OF sess_set_stage [OF s3]]) auto
  have wf: "session_wf ?st"
    using quiet t w1(2) by (simp add: quiet_def session_wf_def arrays_ok_def regions_ok_def region_ok_def
        stage_ok_def handshake_def SERVER_BUFFER_SIZE_def)
  have e: "?R(client_fd st \<mapsto> (OP_WRITE, client_handler)) = expected_regs ?st"
    using quiet t by (simp add: expected_regs_def client_interest_def quiet_def)
  have "returns (drop_status (selector_set_interest (client_fd st) OP_WRITE w4)) (settled c ns)"
  proof (rule returns_mono [OF sess_set_interest [where x = "client_fd st", OF s4]])
    show "?R (client_fd st) = Some (i, client_handler)" by simp
    fix w' :: "'k world" assume "sess c ns w' ?st (?R(client_fd st \<mapsto> (OP_WRITE, client_handler)))"
    then show "settled c ns w'" using wf unfolding e settled_def by blast
  qed
  then show ?thesis by (simp add: fail_request_def w1 w3 w4 Let_def)
qed

section \<open>The socket is connected, or not\<close>

lemma sess_finish_connecting:
  fixes w :: "'k world"
  assumes s: "sess c ns w st R" and quiet: "quiet st" and t: "connected \<longleftrightarrow> target_fd st \<noteq> -1"
    and R: "R = (if connected then [client_fd st \<mapsto> (i, client_handler), target_fd st \<mapsto> (OP_NOOP, target_handler)]
      else [client_fd st \<mapsto> (i, client_handler)])"
  shows "returns (finish_connecting os \<lparr>key_fd = x, key_data = of_session c\<rparr> connected w) (settled c ns)"
proof -
  let ?reply = "if connected then 0 else socks5_reply_for_errno (last_connect_error st)"
  have len: "length (write_buffer st) = SERVER_BUFFER_SIZE"
    "length (destination_host st) = CLIENT_DESTINATION_MAX + 1"
    using quiet by (simp_all add: quiet_def arrays_ok_def)
  obtain w1 buf where w1: "reply_to_client (of_session c) ?reply w = Inr w1" "length buf = SERVER_BUFFER_SIZE"
    and s1: "sess c ns w1 (st\<lparr>write_buffer := buf, write_len := 10, write_off := 0\<rparr>) R"
    by (rule returnsE [OF sess_reply [OF s len(1), of ?reply]]) auto
  let ?w2 = "w1\<lparr>current_metrics := (if connected then metrics_connection_succeeded (current_metrics w1)
      else metrics_connection_failed (current_metrics w1))\<rparr>"
  have s2: "sess c ns ?w2 (st\<lparr>write_buffer := buf, write_len := 10, write_off := 0\<rparr>) R"
    using s1 by (cases connected) simp_all
  obtain w3 b where w3: "access_log_client_connection os (of_session c) connected ?w2 = Inr w3"
    and s3: "sess c ns w3 (st\<lparr>write_buffer := buf, write_len := 10, write_off := 0, access_logged := b\<rparr>) R"
    by (rule returnsE [OF sess_access_log [OF s2, of os connected]]) (use len in auto)
  let ?stage = "if connected then CLIENT_STAGE_RELAY else CLIENT_STAGE_CLOSING"
  let ?st = "st\<lparr>write_buffer := buf, write_len := 10, write_off := 0, access_logged := b, stage := ?stage\<rparr>"
  obtain w4 where w4: "set_stage (of_session c) ?stage w3 = Inr w4" and s4: "sess c ns w4 ?st R"
    by (rule returnsE [OF sess_set_stage [OF s3]]) auto
  have wf: "session_wf ?st"
    using quiet w1(2) t by (simp add: quiet_def session_wf_def arrays_ok_def regions_ok_def region_ok_def
        stage_ok_def handshake_def SERVER_BUFFER_SIZE_def)
  have Rc: "R (client_fd st) = Some (i, client_handler)" using R quiet by (simp add: quiet_def)
  have e: "R(client_fd st \<mapsto> (OP_WRITE, client_handler)) = expected_regs ?st"
    using quiet R t by (simp add: expected_regs_def client_interest_def target_interest_def quiet_def fun_upd_twist)
  have "returns (drop_status (selector_set_interest (client_fd st) OP_WRITE w4)) (settled c ns)"
  proof (rule returns_mono [OF sess_set_interest [OF s4 Rc]])
    fix w' :: "'k world" assume "sess c ns w' ?st (R(client_fd st \<mapsto> (OP_WRITE, client_handler)))"
    then show "settled c ns w'" using wf unfolding e settled_def by blast
  qed
  then show ?thesis
    by (simp add: finish_connecting_def sess_get [OF s] sess_get [OF s4] w1 w3 w4 Let_def)
qed

text \<open>One address has failed and the next is tried: the session connects again, or answers.\<close>

lemma sess_next_or_finish:
  fixes w :: "'k world"
  assumes wf: "session_wf st" and st: "stage st = CLIENT_STAGE_CONNECTING" and may: "at_handler ns = target_handler" "at_data ns = of_session c"
    and s: "sess c ns w (st\<lparr>last_connect_error := e, target_fd := -1\<rparr>) [client_fd st \<mapsto> (OP_NOOP, client_handler)]"
  shows "returns (start_next_target_connection os (of_session c) w) (\<lambda>(started, w').
    returns (if started then Inr w' else finish_connecting os \<lparr>key_fd = x, key_data = of_session c\<rparr> False w') (settled c ns))"
proof (rule returns_mono [OF sess_start_next [OF s]], goal_cases)
  case 1 then show ?case using may by (simp add: may_register_def)
next
  case 2 then show ?case by simp
next
  case (3 res)
  let ?st2 = "st\<lparr>last_connect_error := e, target_fd := -1\<rparr>" and ?R2 = "[client_fd st \<mapsto> (OP_NOOP, client_handler)]"
  from wf st have t: "\<not> relay_started st" "resolver_job st = None" "write_len st = 0" "client_fd st \<noteq> -1" "target_fd st \<noteq> -1"
    by (auto simp: session_wf_def stage_ok_def)
  then have quiet: "quiet st" using quiet_session wf by blast
  obtain started w' where res: "res = (started, w')" by (cases res)
  show ?case
  proof (cases started)
    case True
    with 3 res obtain e' ac t' where t': "t' \<noteq> -1" "?R2 t' = None"
      and s4: "sess c ns w' (?st2\<lparr>last_connect_error := e', target_address_current := ac, target_fd := t',
        stage := CLIENT_STAGE_CONNECTING\<rparr>) (?R2(t' \<mapsto> (OP_WRITE, target_handler)))"
      by (auto simp: tried_def)
    let ?st4 = "?st2\<lparr>last_connect_error := e', target_address_current := ac, target_fd := t',
        stage := CLIENT_STAGE_CONNECTING\<rparr>"
    have ne: "client_fd st \<noteq> t'" using t'(2) by auto
    have "?R2(t' \<mapsto> (OP_WRITE, target_handler)) = expected_regs ?st4"
      using t' t by (simp add: expected_regs_def client_interest_def target_interest_def handshake_def)
    moreover have "session_wf ?st4"
      using wf st t t' ne by (simp add: session_wf_def arrays_ok_def regions_ok_def region_ok_def stage_ok_def)
    ultimately have "settled c ns w'" using s4 unfolding settled_def by metis
    then show ?thesis using res True by simp
  next
    case False
    with 3 res obtain e' ac where
      s4: "sess c ns w' (?st2\<lparr>last_connect_error := e', target_address_current := ac\<rparr>) ?R2"
      by (auto simp: tried_def)
    have "returns (finish_connecting os \<lparr>key_fd = x, key_data = of_session c\<rparr> False w') (settled c ns)"
      by (rule sess_finish_connecting [OF s4, where i = OP_NOOP])
        (use quiet in \<open>simp_all add: quiet_def arrays_ok_def\<close>)
    then show ?thesis using res False by simp
  qed
qed

theorem target_write_connecting_inv:
  fixes w :: "'k world"
  assumes inv: "world_inv ns w" and c: "clients w c = Some st" and st: "stage st = CLIENT_STAGE_CONNECTING"
    and at: "at_handler ns = target_handler" "at_data ns = of_session c"
  shows "returns (target_write os \<lparr>key_fd = target_fd st, key_data = of_session c\<rparr> w) (world_inv ns)"
proof -
  let ?key = "\<lparr>key_fd = target_fd st, key_data = of_session c\<rparr> :: ref selector_key"
  from sess_focus [OF inv c] have s: "sess c ns w st (expected_regs st)" and wf: "session_wf st" by simp_all
  from wf st have t: "target_fd st \<noteq> -1" "client_fd st \<noteq> target_fd st" "\<not> relay_started st"
    "resolver_job st = None" "write_len st = 0" "client_fd st \<noteq> -1"
    by (auto simp: session_wf_def stage_ok_def)
  have R: "expected_regs st = [client_fd st \<mapsto> (OP_NOOP, client_handler), target_fd st \<mapsto> (OP_WRITE, target_handler)]"
    using t st by (simp add: expected_regs_def client_interest_def target_interest_def handshake_def)
  have quiet: "quiet st" using quiet_session wf t by blast
  obtain connected e w1 where so: "target_connection_succeeded os (target_fd st) w = (connected, e, w1)"
    by (metis prod_cases3)
  then have s1: "sess c ns w1 st (expected_regs st)"
    using sys_frames(4) [OF s] by (auto simp: target_connection_succeeded_def split: prod.splits option.splits)
  have "returns (target_write_connecting os ?key w) (settled c ns)"
  proof (cases connected)
    case True
    have Rt: "expected_regs st (target_fd st) = Some (OP_WRITE, target_handler)" using R by simp
    have e: "(expected_regs st)(target_fd st \<mapsto> (OP_NOOP, target_handler)) =
        [client_fd st \<mapsto> (OP_NOOP, client_handler), target_fd st \<mapsto> (OP_NOOP, target_handler)]"
      using R by simp
    have "returns (drop_status (selector_set_interest (target_fd st) OP_NOOP w1))
        (\<lambda>w'. returns (finish_connecting os ?key True w') (settled c ns))"
      by (rule returns_mono [OF sess_set_interest [OF s1 Rt]])
        (rule sess_finish_connecting, assumption, use quiet t e in simp_all)
    then show ?thesis using True so by (simp add: target_write_connecting_def)
  next
    case False
    let ?st1 = "st\<lparr>last_connect_error := e\<rparr>" and ?st2 = "st\<lparr>last_connect_error := e, target_fd := -1\<rparr>"
    let ?R2 = "[client_fd st \<mapsto> (OP_NOOP, client_handler)]"
    have s2: "sess c ns (put_client (of_session c) ?st1 w1) ?st1 (expected_regs st)"
      by (rule sess_put [OF s1]) simp_all
    have Rt: "expected_regs st (target_fd st) = Some (OP_WRITE, target_handler)" using R by simp
    have e2: "(expected_regs st)(target_fd st := None) = ?R2" using R t by (auto simp: fun_eq_iff)
    have un: "returns (drop_status (selector_unregister_fd (handle_close os) (target_fd st)
        (put_client (of_session c) ?st1 w1))) (\<lambda>w'. sess c ns w' ?st2 ?R2)"
      unfolding drop_status_def returns_simps
      by (rule returns_mono [OF sess_unregister_target [OF s2 Rt]]) (use e2 in auto)
    have "returns (drop_status (selector_unregister_fd (handle_close os) (target_fd st)
        (put_client (of_session c) ?st1 w1))) (\<lambda>w2. returns (start_next_target_connection os (of_session c) w2)
        (\<lambda>(started, w'). returns (if started then Inr w' else finish_connecting os ?key False w') (settled c ns)))"
      by (rule returns_mono [OF un]) (rule sess_next_or_finish [OF wf st at])
    then show ?thesis
      using False so
      by (auto simp: target_write_connecting_def sess_get [OF s1] Let_def split: if_splits elim!: returns_mono)
  qed
  then show ?thesis
    using st by (auto simp: target_write_def sess_get [OF s] elim!: returns_mono intro: settled_inv)
qed

section \<open>Resolver jobs\<close>

text \<open>A session in focus gets a job, whose thread has just been created.\<close>

lemma focus_next_ref:
  assumes f: "focus c ns w oj fd p q R"
  shows "focus c ns (w\<lparr>next_ref := next_ref w + 1\<rparr>) oj fd p q R"
proof -
  let ?w = "w\<lparr>next_ref := next_ref w + 1\<rparr>"
  have b: "base ns w" "owned (registered w) (ClientRef c) = R" "streams_ok w c p q"
    using f by (simp_all add: focus_def)
  have "fresh_inv ?w" using b(1) by (simp add: base_def fresh_inv_def)
  moreover have "mgmt_inv ?w m = mgmt_inv w m" "jobs_inv ns ?w = jobs_inv ns w"
    "guard_ok ns ?w = guard_ok ns w" "counters_inv ?w = counters_inv w" for m
    by (simp_all add: mgmt_inv_def jobs_inv_def guard_ok_def counters_inv_def)
  ultimately have "base ns ?w" using b(1) by (simp add: base_def)
  then have "focus c ns ?w oj fd p q (owned (registered ?w) (ClientRef c)) = streams_ok ?w c p q"
    by (intro focus_step [OF f]) simp_all
  then show ?thesis using b by (simp add: streams_ok_def)
qed

lemma jobs_inv_new:
  assumes J: "jobs_inv ns w" and fresh: "jobs w j = None" "threads w j = None" and job: "job_state job \<noteq> None" "\<not> job_done job"
  shows "jobs_inv ns (w\<lparr>jobs := (jobs w)(j \<mapsto> job), next_ref := n, threads := (threads w)(j \<mapsto> Resolving)\<rparr>)"
proof -
  let ?w = "w\<lparr>jobs := (jobs w)(j \<mapsto> job), next_ref := n, threads := (threads w)(j \<mapsto> Resolving)\<rparr>"
  have "\<exists>j' job'. jobs ?w j' = Some job' \<and> job_done job' \<and> job_state job' \<noteq> None
      \<and> job_client_fd job' = x \<and> threads ?w j' = None" if x: "x \<in> set (unhandled ns)" for x
  proof -
    from J x obtain j' job' where *: "jobs w j' = Some job'" "job_done job'" "job_state job' \<noteq> None"
      "job_client_fd job' = x" "threads w j' = None" unfolding jobs_inv_def by blast
    then have "j' \<noteq> j" using fresh by auto
    with * show ?thesis by (intro exI [of _ j'] exI [of _ job']) simp
  qed
  moreover have "\<not> job_done job' \<and> threads ?w j' = Some Resolving"
    if "jobs ?w j' = Some job'" "job_state job' = None" for j' job'
    using that J job unfolding jobs_inv_def by (auto split: if_splits)
  moreover have "\<exists>job'. jobs ?w j' = Some job' \<and> \<not> job_done job'" if "threads ?w j' = Some Resolving" for j'
    using that J job(2) unfolding jobs_inv_def by (cases "j' = j") simp_all
  moreover have "\<exists>job'. jobs ?w j' = Some job' \<and> job_done job' \<and> job_state job' \<noteq> None \<and> job_client_fd job' = x"
    if "threads ?w j' = Some (Notifying x)" for j' x
    using that J unfolding jobs_inv_def by (cases "j' = j") simp_all
  ultimately show ?thesis using J unfolding jobs_inv_def by blast
qed

lemma job_link_new:
  assumes l: "job_link ns w c' oj fd'" and fresh: "jobs w j = None" and job: "job_state job = Some c" "c' \<noteq> c"
  shows "job_link ns (w\<lparr>jobs := (jobs w)(j \<mapsto> job), next_ref := n, threads := (threads w)(j \<mapsto> Resolving)\<rparr>) c' oj fd'"
proof -
  let ?w = "w\<lparr>jobs := (jobs w)(j \<mapsto> job), next_ref := n, threads := (threads w)(j \<mapsto> Resolving)\<rparr>"
  have "oj = Some j'" if "jobs ?w j' = Some jb" "job_state jb = Some c'" for j' jb
    using that l job unfolding job_link_def by (simp split: if_splits)
  moreover have "\<exists>jb. jobs ?w j' = Some jb \<and> job_state jb = Some c' \<and> job_client_fd jb = fd'
      \<and> (if job_done jb then threads ?w j' = Some (Notifying fd') \<or> (threads ?w j' = None \<and> fd' \<in> set (unhandled ns))
         else threads ?w j' = Some Resolving)" if "oj = Some j'" for j'
  proof -
    from l that obtain jb where jb: "jobs w j' = Some jb" "job_state jb = Some c'"
      "job_client_fd jb = fd'" "if job_done jb then threads w j' = Some (Notifying fd')
         \<or> (threads w j' = None \<and> fd' \<in> set (unhandled ns)) else threads w j' = Some Resolving"
      unfolding job_link_def by blast
    then have "j' \<noteq> j" using fresh by auto
    with jb show ?thesis by (intro exI [of _ jb]) simp
  qed
  ultimately show ?thesis unfolding job_link_def by blast
qed

lemma focus_new_job:
  fixes w :: "'k world"
  assumes f: "focus c ns w None fd p q R" and j: "j = next_ref w"
    and job: "job_state job = Some c" "\<not> job_done job" "job_client_fd job = fd"
  shows "focus c ns (w\<lparr>jobs := (jobs w)(j \<mapsto> job), next_ref := j + 1, threads := (threads w)(j \<mapsto> Resolving)\<rparr>)
    (Some j) fd p q R"
proof -
  let ?w = "w\<lparr>jobs := (jobs w)(j \<mapsto> job), next_ref := j + 1, threads := (threads w)(j \<mapsto> Resolving)\<rparr>"
  have b: "base ns w" "owned (registered w) (ClientRef c) = R" "streams_ok w c p q" "job_link ns w c None fd"
    "\<And>c'. c' \<noteq> c \<Longrightarrow> session_inv ns w c'"
    using f by (simp_all add: focus_def)
  have fresh: "jobs w j = None" "threads w j = None"
    using b(1) j by (simp_all add: base_def fresh_inv_def)
  have "fresh_inv ?w" using b(1) j by (auto simp: base_def fresh_inv_def)
  moreover have "mgmt_inv ?w m = mgmt_inv w m" "guard_ok ns ?w = guard_ok ns w" "counters_inv ?w = counters_inv w" for m
    by (simp_all add: mgmt_inv_def guard_ok_def counters_inv_def)
  moreover have "jobs_inv ns ?w"
    using b(1) by (intro jobs_inv_new fresh) (simp_all add: base_def job)
  ultimately have base: "base ns ?w" using b(1) by (simp add: base_def)
  have others: "session_inv ns ?w c'" if "c' \<noteq> c" for c'
    using b(5) [OF that] job_link_new [OF _ fresh(1) job(1) that] by (simp add: session_inv_def streams_ok_def)
  have "job_link ns ?w c (Some j) fd" using b(4) job by (auto simp: job_link_def)
  with base others b(2,3) show ?thesis by (simp add: focus_def streams_ok_def)
qed

text \<open>The thread was created, or not.\<close>

lemma sess_new_job:
  fixes w :: "'k world"
  assumes s: "sess c ns w st R" and st: "resolver_job st = None" and j: "j = next_ref w"
    and job: "job_state job = Some c" "\<not> job_done job" "job_client_fd job = client_fd st"
  defines "w' \<equiv> put_client (of_session c) (st\<lparr>resolver_job := Some j\<rparr>) (w\<lparr>jobs := (jobs w)(j \<mapsto> job), next_ref := j + 1\<rparr>)"
  shows "sess c ns (w'\<lparr>kern := k, threads := (threads w')(j \<mapsto> Resolving)\<rparr>) (st\<lparr>resolver_job := Some j\<rparr>) R"
proof -
  have f: "focus c ns w None (client_fd st) (pending_c2t st) (pending_t2c st) R" "clients w c = Some st"
    using s st by (simp_all add: sess_def)
  let ?w = "w\<lparr>jobs := (jobs w)(j \<mapsto> job), next_ref := j + 1, threads := (threads w)(j \<mapsto> Resolving)\<rparr>"
  have "focus c ns (put_client (of_session c) (st\<lparr>resolver_job := Some j\<rparr>) ?w)
      (Some j) (client_fd st) (pending_c2t st) (pending_t2c st) R"
    using focus_new_job [OF f(1) j job] f(2) by (intro focus_put) simp_all
  then have "sess c ns (put_client (of_session c) (st\<lparr>resolver_job := Some j\<rparr>) ?w) (st\<lparr>resolver_job := Some j\<rparr>) R"
    by (simp add: sess_def put_client.simps)
  moreover have "w'\<lparr>kern := k, threads := (threads w')(j \<mapsto> Resolving)\<rparr>
      = put_client (of_session c) (st\<lparr>resolver_job := Some j\<rparr>) ?w\<lparr>kern := k\<rparr>"
    by (simp add: w'_def put_client.simps)
  ultimately show ?thesis by (simp only: sess_world)
qed

lemma sess_no_job:
  fixes w :: "'k world" and job
  assumes s: "sess c ns w st R" and st: "resolver_job st = None" and j: "j = next_ref w"
  defines "w' \<equiv> put_client (of_session c) (st\<lparr>resolver_job := Some j\<rparr>) (w\<lparr>jobs := (jobs w)(j \<mapsto> job), next_ref := j + 1\<rparr>)"
  shows "sess c ns (put_client (of_session c) st (w'\<lparr>kern := k, jobs := (jobs w')(j := None)\<rparr>)) st R"
proof -
  have f: "focus c ns w None (client_fd st) (pending_c2t st) (pending_t2c st) R" "clients w c = Some st"
    using s st by (simp_all add: sess_def)
  have "jobs w j = None" using f(1) by (simp add: focus_def base_def fresh_inv_def j)
  then have "put_client (of_session c) st (w'\<lparr>kern := k, jobs := (jobs w')(j := None)\<rparr>)
      = put_client (of_session c) st (w\<lparr>next_ref := next_ref w + 1, kern := k\<rparr>)"
    by (simp add: w'_def put_client.simps j fun_upd_idem)
  moreover have "sess c ns (w\<lparr>next_ref := next_ref w + 1, kern := k\<rparr>) st R"
    using focus_next_ref [OF f(1)] f(2) st by (simp add: sess_def)
  then have "sess c ns (put_client (of_session c) st (w\<lparr>next_ref := next_ref w + 1, kern := k\<rparr>)) st R"
    by (rule sess_put) simp_all
  ultimately show ?thesis by simp
qed

lemma sess_start_resolution:
  fixes w :: "'k world"
  assumes s: "sess c ns w st R" and j: "resolver_job st = None"
  shows "returns (start_target_resolution os (of_session c) host port w) (\<lambda>(started, w'). \<exists>oj.
    (started \<longleftrightarrow> oj \<noteq> None) \<and> sess c ns w' (st\<lparr>resolver_job := oj\<rparr>) R)"
proof -
  have same: "st\<lparr>resolver_job := None\<rparr> = st" using j by simp
  obtain b1 w1 where a1: "ask (os_calloc os) w = (b1, w1)" by fastforce
  note s1 = sys_frames(5) [OF s a1]
  obtain b2 w2 where a2: "ask (os_mutex_init os) w1 = (b2, w2)" by fastforce
  note s2 = sys_frames(5) [OF s1 a2]
  have no: "\<exists>oj. (False \<longleftrightarrow> oj \<noteq> None) \<and> sess c ns w' (st\<lparr>resolver_job := oj\<rparr>) R"
    if "sess c ns w' st R" for w' :: "'k world"
    using that same by (intro exI [of _ None]) simp
  show ?thesis
  proof (cases "b1 \<and> b2")
    case False
    then show ?thesis using no [OF s1] no [OF s2] by (auto simp: start_target_resolution_def a1 a2)
  next
    case True
    obtain h where h: "c_snprintf (replicate (SOCKS5_MAX_DOMAIN_LENGTH + 1) 0) 0
        (SOCKS5_MAX_DOMAIN_LENGTH + 1) (cstr host) = Inr h"
      by (rule returnsE [OF returns_c_snprintf]) auto
    obtain p where p: "c_snprintf (replicate 6 0) 0 6 (dec (unat port)) = Inr p"
      by (rule returnsE [OF returns_c_snprintf]) auto
    define ji where "ji = next_ref w2"
    define job where "job = \<lparr>job_client_fd = client_fd st, job_state = Some c, job_host = h, job_port = p,
        job_result = None, job_status = EAI_AGAIN, job_done = False\<rparr>"
    define w3 where "w3 = put_client (of_session c) (st\<lparr>resolver_job := Some ji\<rparr>)
        (w2\<lparr>jobs := (jobs w2)(ji \<mapsto> job), next_ref := ji + 1\<rparr>)"
    obtain b4 w4 where a4: "ask (os_thread_create os) w3 = (b4, w4)" by fastforce
    then obtain k where w4: "w4 = w3\<lparr>kern := k\<rparr>" by (auto simp: ask_def split: prod.splits)
    have run: "start_target_resolution os (of_session c) host port w =
      (if \<not> b4 then Inr (False, put_client (of_session c) (st\<lparr>resolver_job := None\<rparr>)
           (w4\<lparr>jobs := (jobs w4)(ji := None)\<rparr>))
       else Inr (True, w4\<lparr>threads := (threads w4)(ji \<mapsto> Resolving)\<rparr>))"
      using True h p a4 by (simp add: start_target_resolution_def a1 a2 sess_get [OF s2] Let_def
          ji_def [symmetric] job_def [symmetric] w3_def [simplified, symmetric])
    have new: "sess c ns (w4\<lparr>threads := (threads w4)(ji \<mapsto> Resolving)\<rparr>) (st\<lparr>resolver_job := Some ji\<rparr>) R"
      using sess_new_job [OF s2 j ji_def, of job k] by (simp add: w4 w3_def job_def)
    have "sess c ns (put_client (of_session c) (st\<lparr>resolver_job := None\<rparr>) (w4\<lparr>jobs := (jobs w4)(ji := None)\<rparr>)) st R"
      using sess_no_job [OF s2 j ji_def, of job k] by (simp add: w4 w3_def same)
    from no [OF this] new run show ?thesis by (cases b4) auto
  qed
qed

section \<open>Starting a connection\<close>

lemma remember_destination:
  assumes os: "posix_ok os" and len: "length (destination_host st) = CLIENT_DESTINATION_MAX + 1"
  shows "returns (remember_request_destination os request st) (\<lambda>st'. \<exists>h. length h = CLIENT_DESTINATION_MAX + 1
    \<and> st' = st\<lparr>destination_port := req_port request, access_logged := False, destination_host := h\<rparr>)"
proof -
  let ?n = "CLIENT_DESTINATION_MAX + 1"
  have printed: "returns (bindE (c_snprintf (destination_host st) 0 ?n msg)
      (\<lambda>h. Inr (st\<lparr>destination_port := req_port request, access_logged := False, destination_host := h\<rparr>)))
    (\<lambda>st'. \<exists>h. length h = ?n
      \<and> st' = st\<lparr>destination_port := req_port request, access_logged := False, destination_host := h\<rparr>)" for msg
    unfolding returns_simps by (rule returns_mono [OF returns_c_snprintf]) (use len in auto)
  have written: "returns (bindE (array_write (destination_host st) 0 (msg @ [0]))
      (\<lambda>h. Inr (st\<lparr>destination_port := req_port request, access_logged := False, destination_host := h\<rparr>)))
    (\<lambda>st'. \<exists>h. length h = ?n
      \<and> st' = st\<lparr>destination_port := req_port request, access_logged := False, destination_host := h\<rparr>)"
    if "os_inet_ntop os af a = Some msg" for af a msg
  proof -
    have "length (msg @ [0]) \<le> length (destination_host st)"
      using posix_ntop [OF os that] len by (simp add: CLIENT_DESTINATION_MAX_def)
    then show ?thesis
      using len by (auto intro!: exI [of _ "overwrite (destination_host st) 0 (msg @ [0])"])
  qed
  show ?thesis
    using printed written len
    by (auto simp: remember_request_destination_def Let_def split: option.split)
qed

lemma sess_connect_outcome:
  fixes w :: "'k world"
  assumes tr: "tried c ns st [client_fd st \<mapsto> (i, client_handler)] (started, w)"
    and quiet: "quiet st" and t: "target_fd st = -1" and wr: "write_len st = 0" "write_off st = 0"
  shows "returns (if \<not> started then
      bindE (get_client (of_session c) w) (\<lambda>st'.
      fail_request os \<lparr>key_fd = client_fd st, key_data = of_session c\<rparr> (of_session c)
        (socks5_reply_for_errno (last_connect_error st')) w)
    else drop_status (selector_set_interest (client_fd st) OP_NOOP w)) (settled c ns)"
proof (cases started)
  case False
  with tr obtain e ac where s: "sess c ns w (st\<lparr>last_connect_error := e, target_address_current := ac\<rparr>)
      [client_fd st \<mapsto> (i, client_handler)]" by (auto simp: tried_def)
  have "quiet (st\<lparr>last_connect_error := e, target_address_current := ac\<rparr>)"
    using quiet by (simp add: quiet_def arrays_ok_def)
  then show ?thesis
    using sess_fail_request [of c ns w "st\<lparr>last_connect_error := e, target_address_current := ac\<rparr>" i os] s t False
    by (simp add: sess_get [OF s])
next
  case True
  with tr obtain e ac t where t: "t \<noteq> -1" "[client_fd st \<mapsto> (i, client_handler)] t = None"
    and s: "sess c ns w (st\<lparr>last_connect_error := e, target_address_current := ac, target_fd := t,
        stage := CLIENT_STAGE_CONNECTING\<rparr>) ([client_fd st \<mapsto> (i, client_handler)](t \<mapsto> (OP_WRITE, target_handler)))"
    by (auto simp: tried_def)
  let ?st = "st\<lparr>last_connect_error := e, target_address_current := ac, target_fd := t,
      stage := CLIENT_STAGE_CONNECTING\<rparr>"
  let ?R = "[client_fd st \<mapsto> (i, client_handler)](t \<mapsto> (OP_WRITE, target_handler))"
  have ne: "client_fd st \<noteq> t" using t(2) by auto
  have c: "?R (client_fd st) = Some (i, client_handler)" using ne by simp
  have e: "?R(client_fd st \<mapsto> (OP_NOOP, client_handler)) = expected_regs ?st"
    using t ne quiet wr
    by (simp add: expected_regs_def client_interest_def target_interest_def handshake_def quiet_def fun_upd_twist)
  have wf: "session_wf ?st"
    using quiet t ne wr
    by (simp add: session_wf_def quiet_def arrays_ok_def regions_ok_def region_ok_def stage_ok_def handshake_def)
  have "returns (drop_status (selector_set_interest (client_fd st) OP_NOOP w)) (settled c ns)"
  proof (rule returns_mono [OF sess_set_interest [OF s c]])
    fix w' :: "'k world" assume "sess c ns w' ?st (?R(client_fd st \<mapsto> (OP_NOOP, client_handler)))"
    then show "settled c ns w'" using wf unfolding e settled_def by blast
  qed
  then show ?thesis using True by simp
qed

text \<open>A target is connected to or resolved on behalf of the client's descriptor.\<close>

lemma sess_wait_resolution:
  fixes w :: "'k world"
  assumes s: "sess c ns w (st\<lparr>resolver_job := Some j\<rparr>) [client_fd st \<mapsto> (OP_READ, client_handler)]" and quiet: "quiet st"
    and st: "target_fd st = -1" "write_len st = 0" "write_off st = 0"
  shows "returns (bindE (set_stage (of_session c) CLIENT_STAGE_RESOLVING w)
    (\<lambda>w'. drop_status (selector_set_interest (client_fd st) OP_NOOP w'))) (settled c ns)"
proof -
  let ?R = "[client_fd st \<mapsto> (OP_READ, client_handler)]" and ?st = "st\<lparr>resolver_job := Some j, stage := CLIENT_STAGE_RESOLVING\<rparr>"
  have wf: "session_wf ?st"
    using quiet st by (simp add: session_wf_def quiet_def arrays_ok_def regions_ok_def region_ok_def stage_ok_def handshake_def)
  have e: "?R(client_fd st \<mapsto> (OP_NOOP, client_handler)) = expected_regs ?st"
    using st quiet by (simp add: expected_regs_def client_interest_def handshake_def quiet_def)
  have "returns (drop_status (selector_set_interest (client_fd st) OP_NOOP w4)) (settled c ns)"
    if s4: "sess c ns w4 ?st ?R" for w4 :: "'k world"
  proof (rule returns_mono [OF sess_set_interest [where x = "client_fd st", OF s4]])
    show "?R (client_fd st) = Some (OP_READ, client_handler)" by simp
    fix w5 :: "'k world" assume "sess c ns w5 ?st (?R(client_fd st \<mapsto> (OP_NOOP, client_handler)))"
    then show "settled c ns w5" using wf unfolding e settled_def by blast
  qed
  then show ?thesis unfolding returns_simps by (rule returns_mono [OF sess_set_stage [OF s]])
qed

lemma sess_begin_domain:
  fixes w :: "'k world"
  assumes s: "sess c ns w st [client_fd st \<mapsto> (OP_READ, client_handler)]" and quiet: "quiet st"
    and st: "target_fd st = -1" "write_len st = 0" "write_off st = 0"
  shows "returns (start_target_resolution os (of_session c) host port w)
    (\<lambda>(started, w'). returns (if \<not> started
         then fail_request os \<lparr>key_fd = client_fd st, key_data = of_session c\<rparr> (of_session c) SOCKS5_REPLY_GENERAL_FAILURE w'
       else bindE (set_stage (of_session c) CLIENT_STAGE_RESOLVING w')
         (\<lambda>w'. drop_status (selector_set_interest (client_fd st) OP_NOOP w'))) (settled c ns))"
proof -
  have job: "resolver_job st = None" using quiet by (simp add: quiet_def)
  show ?thesis
  proof (rule returns_mono [OF sess_start_resolution [OF s job]], goal_cases)
    case (1 res)
    then obtain started w' oj where res: "res = (started, w')" and oj: "started \<longleftrightarrow> oj \<noteq> None"
      and s3: "sess c ns w' (st\<lparr>resolver_job := oj\<rparr>) [client_fd st \<mapsto> (OP_READ, client_handler)]" by (cases res) auto
    show ?case
    proof (cases oj)
      case None
      then have "st\<lparr>resolver_job := oj\<rparr> = st" using job by simp
      with s3 have "sess c ns w' st [client_fd st \<mapsto> (OP_READ, client_handler)]" by (simp only:)
      from sess_fail_request [OF this quiet st(1)] None oj res show ?thesis by simp
    next
      case (Some j)
      then show ?thesis using sess_wait_resolution [OF s3 [unfolded Some] quiet st] oj res by simp
    qed
  qed
qed

lemma sess_begin_address:
  fixes w :: "'k world"
  assumes s: "sess c ns w st [client_fd st \<mapsto> (OP_READ, client_handler)]" and quiet: "quiet st"
    and st: "target_fd st = -1" "write_len st = 0" "write_off st = 0" and at: "at_fd ns = client_fd st"
  shows "returns (start_target_connection os (of_session c) ad l w)
    (\<lambda>(started, w'). returns (if \<not> started then bindE (get_client (of_session c) w') (\<lambda>st'.
         fail_request os \<lparr>key_fd = client_fd st, key_data = of_session c\<rparr> (of_session c)
           (socks5_reply_for_errno (last_connect_error st')) w')
       else drop_status (selector_set_interest (client_fd st) OP_NOOP w')) (settled c ns))"
proof (rule returns_mono [OF sess_start_target_connection [OF s _ st(1)]], goal_cases)
  case 1 then show ?case using at by (simp add: may_register_def)
next
  case (2 res)
  then have "tried c ns st [client_fd st \<mapsto> (OP_READ, client_handler)] (fst res, snd res)" by simp
  from sess_connect_outcome [OF this quiet, of os] st show ?case by (cases res) auto
qed

lemma sess_begin:
  fixes w :: "'k world"
  assumes os: "posix_ok os" and s: "sess c ns w st [client_fd st \<mapsto> (OP_READ, client_handler)]"
    and quiet: "quiet st" and st: "stage st = CLIENT_STAGE_REQUEST" "write_len st = 0" "write_off st = 0"
      "target_fd st = -1"
    and at: "at_fd ns = client_fd st"
  shows "returns (target_connection_begin os \<lparr>key_fd = client_fd st, key_data = of_session c\<rparr> (of_session c)
    request w) (settled c ns)"
proof -
  let ?R = "[client_fd st \<mapsto> (OP_READ, client_handler)]"
  let ?key = "\<lparr>key_fd = client_fd st, key_data = of_session c\<rparr> :: ref selector_key"
  have f: "target_fd st = -1" "resolver_job st = None" "\<not> relay_started st" "write_off st = 0"
    using st quiet by (simp_all add: quiet_def)
  obtain w1 al ac where w1: "target_connection_free_addresses (of_session c) w = Inr w1"
    and s1: "sess c ns w1 (st\<lparr>target_addresses := al, target_address_current := ac\<rparr>) ?R"
    by (rule returnsE [OF sess_free_addresses [OF s]]) auto
  let ?st1 = "st\<lparr>target_addresses := al, target_address_current := ac, last_connect_error := 0\<rparr>"
  obtain h where rem: "remember_request_destination os request ?st1 =
      Inr (?st1\<lparr>destination_port := req_port request, access_logged := False, destination_host := h\<rparr>)"
    and h: "length h = CLIENT_DESTINATION_MAX + 1"
    by (rule returnsE [OF remember_destination [OF os, of ?st1 request]])
      (use quiet in \<open>auto simp: quiet_def arrays_ok_def\<close>)
  define st2 where "st2 = ?st1\<lparr>destination_port := req_port request, access_logged := False, destination_host := h\<rparr>"
  define w2 where "w2 = put_client (of_session c) st2 w1"
  have s2: "sess c ns w2 st2 ?R" unfolding w2_def by (rule sess_put [OF s1]) (simp_all add: st2_def)
  have f2: "target_fd st2 = -1" "resolver_job st2 = None" "client_fd st2 = client_fd st" "write_len st2 = 0"
    "write_off st2 = 0" "stage st2 = CLIENT_STAGE_REQUEST" using f st by (simp_all add: st2_def)
  have quiet2: "quiet st2" using quiet h by (simp add: quiet_def arrays_ok_def st2_def)
  show ?thesis
  proof (cases "req_atyp request = SOCKS5_ATYP_DOMAIN")
    case True
    have det: "target_connection_detach_resolver (of_session c) w2 = Inr w2"
      using f2 by (simp add: target_connection_detach_resolver_def sess_get [OF s2])
    have "sess c ns w2 st2 [client_fd st2 \<mapsto> (OP_READ, client_handler)]" using s2 f2(3) by simp
    from sess_begin_domain [OF this quiet2 f2(1,4,5), of os "req_host request" "req_port request"] show ?thesis
      using True by (auto simp: target_connection_begin_def w1 sess_get [OF s1] rem st2_def [symmetric] f2(3)
          w2_def [symmetric] det Let_def split: if_splits elim!: returns_mono)
  next
    case False
    let ?st3 = "st2\<lparr>target_addr := req_addr request, target_addr_len := req_addr_len request\<rparr>"
    have "sess c ns (put_client (of_session c) ?st3 w2) ?st3 [client_fd ?st3 \<mapsto> (OP_READ, client_handler)]"
      using sess_put [OF s2, of ?st3] f2(3) by simp
    from sess_begin_address [OF this, of os "req_addr request" "req_addr_len request"] quiet2 f2 at show ?thesis
      using False by (auto simp: target_connection_begin_def w1 sess_get [OF s1] rem st2_def [symmetric] quiet_def arrays_ok_def
          w2_def [symmetric] Let_def split: if_splits elim!: returns_mono)
  qed
qed

section \<open>The resolver's answer\<close>

lemma world_inv_session:
  "world_inv ns w \<Longrightarrow> session_inv ns w c" "world_inv ns w \<Longrightarrow> base ns w"
  by (simp_all add: world_inv_def)

text \<open>A notification in the list belongs to a session that waits for exactly this job.\<close>

lemma notified_session:
  assumes inv: "world_inv ns w" and x: "x \<in> set (unhandled ns)"
  obtains c st j job where "clients w c = Some st" "client_fd st = x" "stage st = CLIENT_STAGE_RESOLVING"
    "resolver_job st = Some j" "jobs w j = Some job" "job_done job" "job_state job = Some c"
    "job_client_fd job = x" "threads w j = None"
proof -
  from world_inv_session(2) [OF inv] x obtain j job where j: "jobs w j = Some job" "job_done job"
    "job_state job \<noteq> None" "job_client_fd job = x" "threads w j = None"
    unfolding base_def jobs_inv_def by blast
  then obtain c where c: "job_state job = Some c" by blast
  note si = world_inv_session(1) [OF inv, of c]
  have "clients w c \<noteq> None"
  proof
    assume "clients w c = None"
    with si have "job_link ns w c None 0" by (simp add: session_inv_def)
    with j(1) c show False unfolding job_link_def by blast
  qed
  then obtain st where st: "clients w c = Some st" by blast
  with si have link: "job_link ns w c (resolver_job st) (client_fd st)" and wf: "session_wf st"
    by (simp_all add: session_inv_def)
  from link j(1) c have rj: "resolver_job st = Some j" unfolding job_link_def by blast
  with link obtain jb where "jobs w j = Some jb" "job_client_fd jb = client_fd st"
    unfolding job_link_def by blast
  with j(1,4) have "client_fd st = x" by simp
  moreover have "stage st = CLIENT_STAGE_RESOLVING" using wf rj by (auto simp: session_wf_def stage_ok_def)
  ultimately show thesis using that st rj j c by blast
qed

lemma jobs_inv_finish:
  assumes inv: "world_inv ns w" and ns: "unhandled ns = x # rest"
    and job: "jobs w j = Some job" "job_client_fd job = x" "threads w j = None"
  shows "jobs_inv (ns\<lparr>unhandled := rest\<rparr>) (w\<lparr>jobs := (jobs w)(j := None)\<rparr>)"
proof -
  let ?w = "w\<lparr>jobs := (jobs w)(j := None)\<rparr>"
  have J: "jobs_inv ns w" using inv by (simp add: world_inv_def base_def)
  have xr: "x \<notin> set rest" "distinct rest" using J ns by (auto simp: jobs_inv_def)
  have "\<exists>j' job'. jobs ?w j' = Some job' \<and> job_done job' \<and> job_state job' \<noteq> None \<and> job_client_fd job' = y
      \<and> threads ?w j' = None" if "y \<in> set rest" for y
  proof -
    from that ns have "y \<in> set (unhandled ns)" by simp
    from notified_session [OF inv this] obtain c' st' j' job' where
      *: "jobs w j' = Some job'" "job_done job'" "job_state job' = Some c'" "job_client_fd job' = y" "threads w j' = None" .
    then have "j' \<noteq> j" using job that xr(1) by auto
    with * show ?thesis by (intro exI [of _ j'] exI [of _ job']) simp
  qed
  moreover have "\<not> job_done job' \<and> threads ?w j' = Some Resolving"
    if "jobs ?w j' = Some job'" "job_state job' = None" for j' job'
    using that J unfolding jobs_inv_def by (simp split: if_splits)
  moreover have "\<exists>job'. jobs ?w j' = Some job' \<and> \<not> job_done job'" if "threads ?w j' = Some Resolving" for j'
    using that J job(3) unfolding jobs_inv_def by (cases "j' = j") simp_all
  moreover have "\<exists>job'. jobs ?w j' = Some job' \<and> job_done job' \<and> job_state job' \<noteq> None \<and> job_client_fd job' = y"
    if "threads ?w j' = Some (Notifying y)" for j' y
    using that J job(3) unfolding jobs_inv_def by (cases "j' = j") simp_all
  ultimately show ?thesis using xr(2) unfolding jobs_inv_def by simp
qed

lemma job_link_finish:
  assumes l: "job_link ns w c' oj y" and y: "oj \<noteq> None \<Longrightarrow> y \<noteq> x" and ns: "unhandled ns = x # rest"
    and job: "jobs w j = Some job" "job_state job = Some c" "c' \<noteq> c"
  shows "job_link (ns\<lparr>unhandled := rest\<rparr>) (w\<lparr>jobs := (jobs w)(j := None)\<rparr>) c' oj y"
proof -
  let ?w = "w\<lparr>jobs := (jobs w)(j := None)\<rparr>" and ?ns = "ns\<lparr>unhandled := rest\<rparr>"
  have "oj = Some j'" if "jobs ?w j' = Some jb" "job_state jb = Some c'" for j' jb
    using that l unfolding job_link_def by (simp split: if_splits)
  moreover have "\<exists>jb. jobs ?w j' = Some jb \<and> job_state jb = Some c' \<and> job_client_fd jb = y
      \<and> (if job_done jb then threads ?w j' = Some (Notifying y) \<or> (threads ?w j' = None \<and> y \<in> set (unhandled ?ns))
         else threads ?w j' = Some Resolving)" if "oj = Some j'" for j'
  proof -
    from l that obtain jb where jb: "jobs w j' = Some jb" "job_state jb = Some c'" "job_client_fd jb = y"
      "if job_done jb then threads w j' = Some (Notifying y) \<or> (threads w j' = None \<and> y \<in> set (unhandled ns))
       else threads w j' = Some Resolving"
      unfolding job_link_def by blast
    have "j' \<noteq> j" using jb(1,2) job by auto
    with jb y that ns show ?thesis by (intro exI [of _ jb]) auto
  qed
  ultimately show ?thesis unfolding job_link_def by blast
qed

lemma other_descriptor:
  assumes "world_inv ns w" "clients w c = Some st" "clients w c' = Some st'" "c' \<noteq> c"
  shows "client_fd st' \<noteq> client_fd st"
proof
  assume eq: "client_fd st' = client_fd st"
  have "registered w (client_fd s) = Some (client_interest s, client_handler, Some (ClientRef b))"
    if "clients w b = Some s" for b s
  proof -
    from world_inv_session(1) [OF assms(1), of b] that
    have "session_wf s" "owned (registered w) (ClientRef b) = expected_regs s" by (simp_all add: session_inv_def)
    moreover from this(1) have "expected_regs s (client_fd s) = Some (client_interest s, client_handler)"
      by (simp add: expected_regs_def session_wf_def stage_ok_def)
    ultimately show ?thesis by (metis ownedD)
  qed
  from this [OF assms(2)] this [OF assms(3)] eq assms(4) show False by simp
qed

lemma focus_finish_job:
  fixes w :: "'k world"
  assumes inv: "world_inv ns w" and ns: "unhandled ns = x # rest" and c: "clients w c = Some st"
    and st: "client_fd st = x" "resolver_job st = Some j" and job: "jobs w j = Some job" "job_done job"
      "job_state job = Some c" "threads w j = None"
  shows "focus c (ns\<lparr>unhandled := rest\<rparr>) (w\<lparr>jobs := (jobs w)(j := None)\<rparr>) None x
    (pending_c2t st) (pending_t2c st) (expected_regs st)"
proof -
  let ?w = "w\<lparr>jobs := (jobs w)(j := None)\<rparr>" and ?ns = "ns\<lparr>unhandled := rest\<rparr>"
  from focusI [OF inv c] have b: "base ns w" "job_link ns w c (Some j) x" "streams_ok w c (pending_c2t st) (pending_t2c st)"
    "owned (registered w) (ClientRef c) = expected_regs st"
    by (simp_all add: st focus_def)
  have "job_client_fd job = x" using b(2) job(1) unfolding job_link_def by auto
  note jobs' = jobs_inv_finish [OF inv ns job(1) this job(4)]
  have "fresh_inv ?w" using b(1) by (simp add: base_def fresh_inv_def)
  moreover have "mgmt_inv ?w m = mgmt_inv w m" "guard_ok ?ns ?w = guard_ok ns w"
    "counters_inv ?w = counters_inv w" for m
    by (simp_all add: mgmt_inv_def guard_ok_def counters_inv_def)
  ultimately have base: "base ?ns ?w" using b(1) jobs' by (simp add: base_def)
  have others: "session_inv ?ns ?w c'" if ne: "c' \<noteq> c" for c'
  proof (cases "clients w c'")
    case None
    with world_inv_session(1) [OF inv, of c'] job_link_finish [OF _ _ ns job(1,3) ne, of None 0]
    show ?thesis by (simp add: session_inv_def streams_ok_def)
  next
    case (Some st')
    then have "client_fd st' \<noteq> x" using other_descriptor [OF inv c _ ne] st(1) by simp
    with world_inv_session(1) [OF inv, of c'] Some job_link_finish [OF _ _ ns job(1,3) ne, of "resolver_job st'" "client_fd st'"]
    show ?thesis by (simp add: session_inv_def streams_ok_def)
  qed
  have "jobs w j' = Some job' \<Longrightarrow> job_state job' = Some c \<Longrightarrow> j' = j" for j' job'
    using b(2) unfolding job_link_def by auto
  then have "job_link ?ns ?w c None x" unfolding job_link_def by (simp split: if_splits) blast
  with base others b(3,4) show ?thesis by (simp add: focus_def streams_ok_def)
qed

lemma sess_connect_resolved:
  fixes w :: "'k world"
  assumes s: "sess c ns w st [client_fd st \<mapsto> (OP_NOOP, client_handler)]" and quiet: "quiet st"
    and st: "target_fd st = -1" "write_len st = 0" "write_off st = 0" and at: "at_fd ns = client_fd st"
  shows "returns (bindE (start_next_target_connection os (of_session c) w)
    (\<lambda>(started, w'). if \<not> started then bindE (get_client (of_session c) w') (\<lambda>st'.
         fail_request os \<lparr>key_fd = client_fd st, key_data = of_session c\<rparr> (of_session c)
           (socks5_reply_for_errno (last_connect_error st')) w')
       else drop_status (selector_set_interest (client_fd st) OP_NOOP w'))) (world_inv ns)"
  unfolding returns_simps
proof (rule returns_mono [OF sess_start_next [OF s _ st(1)]], goal_cases)
  case 1 then show ?case using at by (simp add: may_register_def)
next
  case (2 res)
  then have "tried c ns st [client_fd st \<mapsto> (OP_NOOP, client_handler)] (fst res, snd res)" by simp
  from sess_connect_outcome [OF this quiet, of os] st show ?case
    by (cases res) (auto elim!: returns_mono intro: settled_inv)
qed

theorem on_resolve_inv:
  fixes w :: "'k world"
  assumes inv: "world_inv ns w" and ns: "unhandled ns = x # rest" and at: "at_fd ns = x"
    and reg: "registered w x = Some (i, h, d)"
  shows "h = client_handler
    \<and> returns (target_connection_on_resolve os \<lparr>key_fd = x, key_data = d\<rparr> w) (world_inv (ns\<lparr>unhandled := rest\<rparr>))"
proof -
  have "x \<in> set (unhandled ns)" using ns by simp
  from notified_session [OF inv this] obtain c st j job where c: "clients w c = Some st"
    and st: "client_fd st = x" "stage st = CLIENT_STAGE_RESOLVING" "resolver_job st = Some j"
    and job: "jobs w j = Some job" "job_done job" "job_state job = Some c" "job_client_fd job = x" "threads w j = None" .
  let ?ns = "ns\<lparr>unhandled := rest\<rparr>" and ?R = "[x \<mapsto> (OP_NOOP, client_handler)]"
  from focusI [OF inv c] have wf: "session_wf st" by simp
  from sess_focus [OF inv c] have s0: "sess c ns w st (expected_regs st)" by simp
  from wf st have f: "target_fd st = -1" "\<not> relay_started st" "write_len st = 0" "write_off st = 0"
    by (auto simp: session_wf_def stage_ok_def regions_ok_def region_ok_def)
  have R: "expected_regs st = ?R"
    using f st by (simp add: expected_regs_def client_interest_def handshake_def)
  have "registered w x = Some (OP_NOOP, client_handler, of_session c)"
    using sess_registered [OF s0, of x] R by simp
  with reg have hd: "h = client_handler" "d = of_session c" by simp_all
  note f1 = focus_finish_job [OF inv ns c st(1,3) job(1,2,3,5)]
  let ?st = "st\<lparr>resolver_job := None\<rparr>" and ?w = "w\<lparr>jobs := (jobs w)(j := None)\<rparr>"
  have s1: "sess c ?ns (put_client (of_session c) ?st ?w) ?st ?R"
    using focus_put [OF f1, of ?st] c st(1) R by (simp add: sess_def)
  have quiet: "quiet ?st"
    using wf f st by (auto simp: quiet_def session_wf_def arrays_ok_def stage_ok_def regions_ok_def region_ok_def
        SERVER_BUFFER_SIZE_def split: if_splits)
  let ?key = "\<lparr>key_fd = x, key_data = of_session c\<rparr> :: ref selector_key"
  have fail: "returns (fail_request os ?key (of_session c) reply (put_client (of_session c) ?st ?w)) (world_inv ?ns)"
    for reply
  proof (rule returns_mono [OF _ settled_inv])
    have "sess c ?ns (put_client (of_session c) ?st ?w) ?st [client_fd ?st \<mapsto> (OP_NOOP, client_handler)]"
      using s1 st(1) by simp
    from sess_fail_request [OF this quiet, of os reply] f(1) st(1)
    show "returns (fail_request os ?key (of_session c) reply (put_client (of_session c) ?st ?w)) (settled c ?ns)"
      by simp
  qed
  have go: "returns (bindE (start_next_target_connection os (of_session c)
        (put_client (of_session c) (?st\<lparr>target_addresses := Some result, target_address_current := result\<rparr>)
          (put_client (of_session c) ?st ?w)))
      (\<lambda>(started, w'). if \<not> started then bindE (get_client (of_session c) w') (\<lambda>st'.
           fail_request os ?key (of_session c) (socks5_reply_for_errno (last_connect_error st')) w')
         else drop_status (selector_set_interest x OP_NOOP w'))) (world_inv ?ns)" for result
  proof -
    let ?st2 = "?st\<lparr>target_addresses := Some result, target_address_current := result\<rparr>"
    have x2: "client_fd ?st2 = x" using st(1) by simp
    have s2: "sess c ?ns (put_client (of_session c) ?st2 (put_client (of_session c) ?st ?w)) ?st2
        [client_fd ?st2 \<mapsto> (OP_NOOP, client_handler)]"
      using sess_put [OF s1, of ?st2] x2 by simp
    have quiet2: "quiet ?st2" using quiet by (simp add: quiet_def arrays_ok_def)
    show ?thesis by (rule sess_connect_resolved [OF s2 quiet2, unfolded x2]) (use f at in simp_all)
  qed
  have twice: "put_client (of_session c) b (put_client (of_session c) a w') = put_client (of_session c) b w'"
    for a b and w' :: "'k world" by (simp add: put_client.simps)
  have g: "get_client (of_session c) w = Inr st" using c by (rule get_client_some)
  have "returns (target_connection_on_resolve os ?key w) (world_inv ?ns)"
    using fail go st job
    unfolding target_connection_on_resolve_def selector_key.simps selector_set_interest_key_eq
    by (auto simp: g get_job_def Let_def twice split: option.split)
  then show ?thesis using hd by simp
qed

end
