(* ===== verification/Handshake.thy ===== *)
theory Handshake
  imports Handlers
begin

text \<open>
  The client's handshake keeps the invariant: what \<open>client_read\<close> does in the stages before the
  relay, whatever the client sends and however its bytes are cut.
\<close>

section \<open>Waiting, answering and closing\<close>

lemma session_received:
  assumes wf: "session_wf st" and st: "handshake (stage st)" "write_len st = 0"
    and buf: "length buf = SERVER_BUFFER_SIZE" and n: "n \<le> SERVER_BUFFER_SIZE"
  shows "quiet (st\<lparr>read_buffer := buf, read_len := n\<rparr>)"
    and "n < 513 \<Longrightarrow> session_wf (st\<lparr>read_buffer := buf, read_len := n\<rparr>)"
    and "expected_regs (st\<lparr>read_buffer := buf, read_len := n\<rparr>) = [client_fd st \<mapsto> (OP_READ, client_handler)]"
    and "target_fd st = -1" "write_off st = 0" "resolver_job st = None" "\<not> relay_started st" "client_fd st \<noteq> -1"
proof -
  show f: "target_fd st = -1" "write_off st = 0" "resolver_job st = None" "\<not> relay_started st" "client_fd st \<noteq> -1"
    using wf st by (auto simp: session_wf_def stage_ok_def regions_ok_def region_ok_def handshake_def)
  show "quiet (st\<lparr>read_buffer := buf, read_len := n\<rparr>)"
    using quiet_session [OF wf f(4,3)] buf n by (simp add: quiet_def arrays_ok_def)
  show "session_wf (st\<lparr>read_buffer := buf, read_len := n\<rparr>)" if "n < 513"
    using wf st buf that by (simp add: session_wf_def arrays_ok_def regions_ok_def stage_ok_def handshake_def)
  show "expected_regs (st\<lparr>read_buffer := buf, read_len := n\<rparr>) = [client_fd st \<mapsto> (OP_READ, client_handler)]"
    using f st by (simp add: expected_regs_def client_interest_def)
qed

text \<open>An answer is put into the write buffer and the session waits until it is sent.\<close>

lemma sess_answer:
  fixes w :: "'k world"
  assumes s: "sess c ns w st [client_fd st \<mapsto> (i, client_handler)]" and quiet: "quiet st'"
    and eq: "client_fd st' = client_fd st" "resolver_job st = None" "pending_c2t st' = pending_c2t st"
      "pending_t2c st' = pending_t2c st" "target_fd st' = -1"
    and len: "0 < write_len st'" "write_len st' \<le> SERVER_BUFFER_SIZE" "write_off st' = 0" "read_len st' = 0"
    and stage: "stage st' \<in> {CLIENT_STAGE_AUTH, CLIENT_STAGE_REQUEST, CLIENT_STAGE_CLOSING}"
  shows "returns (drop_status (selector_set_interest (client_fd st) OP_WRITE (put_client (of_session c) st' w)))
    (world_inv ns)"
proof -
  have j: "resolver_job st' = None" using quiet by (simp add: quiet_def)
  have s1: "sess c ns (put_client (of_session c) st' w) st' [client_fd st \<mapsto> (i, client_handler)]"
    using sess_put [OF s, of st'] eq j by simp
  have wf: "session_wf st'"
    using quiet eq len stage by (auto simp: session_wf_def quiet_def regions_ok_def region_ok_def stage_ok_def handshake_def)
  have e: "[client_fd st \<mapsto> (i, client_handler)](client_fd st \<mapsto> (OP_WRITE, client_handler)) = expected_regs st'"
    using eq len quiet by (simp add: expected_regs_def client_interest_def quiet_def)
  show ?thesis
  proof (rule returns_mono [OF sess_set_interest [where x = "client_fd st", OF s1]])
    show "[client_fd st \<mapsto> (i, client_handler)] (client_fd st) = Some (i, client_handler)" by simp
    fix w' :: "'k world"
    assume "sess c ns w' st' ([client_fd st \<mapsto> (i, client_handler)](client_fd st \<mapsto> (OP_WRITE, client_handler)))"
    then show "world_inv ns w'" using wf unfolding e by (rule sess_unfocus)
  qed
qed

lemma sess_close_waiting:
  assumes s: "sess c ns w st [client_fd st \<mapsto> (i, client_handler)]" and quiet: "quiet st" and t: "target_fd st = -1"
  shows "returns (client_session_close_connection os (of_session c) w) (world_inv ns)"
    and "returns (drop_status (selector_unregister_fd (handle_close os) (client_fd st) w)) (world_inv ns)"
proof -
  have f: "resolver_job st = None" "client_fd st \<noteq> -1" using quiet by (simp_all add: quiet_def)
  have "has_regs st [client_fd st \<mapsto> (i, client_handler)]" 
    using t f by (auto simp: has_regs_def intro!: exI [of _ i])
  from sess_close_inv [OF s this f(1)]
  show "returns (client_session_close_connection os (of_session c) w) (world_inv ns)" .
  have "returns (selector_unregister_fd (handle_close os) (client_fd st) w) (\<lambda>(ret, w'). world_inv ns w' \<and> clients w' c = None)"
    using f by (intro sess_unregister_client [OF s]) (auto simp: t without_target_def)
  then show "returns (drop_status (selector_unregister_fd (handle_close os) (client_fd st) w)) (world_inv ns)"
    by (auto simp: drop_status_def elim!: returns_mono)
qed

section \<open>The stages\<close>

text \<open>
  What the three branches of \<open>client_read\<close> start from: a session \<open>st\<close> with its newly received
  bytes, of which there may be any number that the buffer holds.
\<close>

definition received :: "nat \<Rightarrow> turn \<Rightarrow> 'k world \<Rightarrow> client_state \<Rightarrow> bool" where
  "received c ns w st \<longleftrightarrow> sess c ns w st [client_fd st \<mapsto> (OP_READ, client_handler)] \<and> quiet st
     \<and> target_fd st = -1 \<and> write_len st = 0 \<and> write_off st = 0
     \<and> (read_len st < 513 \<longrightarrow> session_wf st \<and> expected_regs st = [client_fd st \<mapsto> (OP_READ, client_handler)])"

lemma received_wait: "received c ns w st \<Longrightarrow> read_len st < 513 \<Longrightarrow> world_inv ns w"
  using sess_unfocus [of c ns w st] by (simp add: received_def)

lemma receivedD:
  assumes "received c ns w st"
  shows "length (read_buffer st) = SERVER_BUFFER_SIZE" "length (write_buffer st) = SERVER_BUFFER_SIZE"
    "read_len st \<le> length (read_buffer st)" "length (username st) = CLIENT_USERNAME_MAX + 1"
    "resolver_job st = None"
  using assms by (simp_all add: received_def quiet_def arrays_ok_def)

lemma received_answer:
  fixes w :: "'k world"
  assumes r: "received c ns w st" and u: "length u = CLIENT_USERNAME_MAX + 1"
    and buf: "length buf = SERVER_BUFFER_SIZE" and n: "0 < n" "n \<le> SERVER_BUFFER_SIZE"
    and stage: "s \<in> {CLIENT_STAGE_AUTH, CLIENT_STAGE_REQUEST, CLIENT_STAGE_CLOSING}"
  shows "returns (drop_status (selector_set_interest (client_fd st) OP_WRITE (put_client (of_session c)
    (st\<lparr>username := u, write_buffer := buf, write_len := n, write_off := 0, stage := s, read_len := 0\<rparr>) w)))
    (world_inv ns)"
  using r u buf n stage
  by (intro sess_answer [where st = st and i = OP_READ]) (simp_all add: received_def quiet_def arrays_ok_def)

lemma username_same: "st\<lparr>username := username st, write_buffer := b, write_len := n, write_off := k, stage := s, read_len := m\<rparr>
    = st\<lparr>write_buffer := b, write_len := n, write_off := k, stage := s, read_len := m\<rparr>"
  by simp

lemma read_greeting_inv:
  fixes w :: "'k world"
  assumes r: "received c ns w st"
  shows "returns (client_read_greeting os \<lparr>key_fd = client_fd st, key_data = of_session c\<rparr> st w) (world_inv ns)"
proof -
  let ?key = "\<lparr>key_fd = client_fd st, key_data = of_session c\<rparr> :: ref selector_key"
  note d = receivedD [OF r]
  have answer: "returns (answer_greeting ?key m s st w) (world_inv ns)"
    if "s \<in> {CLIENT_STAGE_AUTH, CLIENT_STAGE_REQUEST, CLIENT_STAGE_CLOSING}" for m s
    using received_answer [OF r d(4), of "overwrite (write_buffer st) 0 [5, m]" 2 s] d that
    by (simp add: answer_greeting_def socks5_prepare_greeting_response_def SERVER_BUFFER_SIZE_def)
  have close: "returns (drop_status (selector_unregister_fd (handle_close os) (client_fd st) w)) (world_inv ns)"
    using r by (intro sess_close_waiting) (auto simp: received_def)
  show ?thesis
  proof (cases "read_len st < 2")
    case True
    then show ?thesis using received_wait [OF r] by (simp add: client_read_greeting_def)
  next
    case False
    then have g: "array_get (read_buffer st) 0 = Inr (read_buffer st ! 0)"
      "array_get (read_buffer st) (Suc 0) = Inr (read_buffer st ! 1)" using d by simp_all
    have n: "unat (read_buffer st ! 1) \<le> 255" by (rule unat_byte_le)
    show ?thesis
    proof (cases "read_len st < 2 + unat (read_buffer st ! 1)")
      case True
      with n received_wait [OF r] close False show ?thesis by (simp add: client_read_greeting_def g)
    next
      case more: False
      then have "array_read (read_buffer st) 2 (unat (read_buffer st ! 1))
          = Inr (take (unat (read_buffer st ! 1)) (drop 2 (read_buffer st)))" using d by simp
      with False more close show ?thesis by (simp add: client_read_greeting_def g Let_def answer)
    qed
  qed
qed

lemma read_auth_inv:
  fixes w :: "'k world"
  assumes r: "received c ns w st" and us: "users_wf (managed_users w)"
  shows "returns (client_read_auth os \<lparr>key_fd = client_fd st, key_data = of_session c\<rparr> st w) (world_inv ns)"
proof -
  note d = receivedD [OF r]
  let ?r = "take (read_len st) (read_buffer st)" and ?us = "managed_users w"
  have "returns (auth_parse_request st ?us) (\<lambda>(done, ok, st').
      (done \<or> read_len st < 513) \<and> (\<exists>u. length u = CLIENT_USERNAME_MAX + 1 \<and> st' = st\<lparr>username := u\<rparr>))"
  proof -
    have same: "\<exists>u. length u = CLIENT_USERNAME_MAX + 1 \<and> st = st\<lparr>username := u\<rparr>"
      using d by (intro exI [of _ "username st"]) simp
    consider "auth_incomplete ?r" | "2 \<le> read_len st" "read_buffer st ! 0 \<noteq> SOCKS5_AUTH_VERSION"
      | n p rest where "length n < 256" "length p < 256" "?r = encode_auth n p @ rest"
      using encode_auth_split [of ?r] d by (fastforce simp: auth_incomplete_def)
    then show ?thesis
    proof cases
      case 1
      then show ?thesis using auth_parse_other(1) [OF d(3)] auth_incomplete_bound [OF 1] d(3) same by simp
    next
      case 2
      then show ?thesis using auth_parse_other(2) [OF d(3)] same by simp
    next
      case 3
      have e: "\<exists>u. length u = CLIENT_USERNAME_MAX + 1 \<and> st' = st\<lparr>username := u\<rparr>"
        if "st\<lparr>username := username st'\<rparr> = st'" "if ok then length (username st') = CLIENT_USERNAME_MAX + 1
          \<and> take (length n + 1) (username st') = n @ [0] else st' = st" for st' ok
        using that d by (intro exI [of _ "username st'"]) (auto split: if_splits)
      show ?thesis
      proof (rule returns_mono [OF auth_parse_encoded [OF d(3) us d(4) 3(3,1,2)]], goal_cases)
        case (1 x)
        obtain dn ok st' where x: "x = (dn, ok, st')" by (cases x)
        show ?case using 1 e [of st' ok] unfolding x prod.case by blast
      qed
    qed
  qed
  then obtain decided ok u where p: "auth_parse_request st ?us = Inr (decided, ok, st\<lparr>username := u\<rparr>)"
    and u: "decided \<or> read_len st < 513" "length u = CLIENT_USERNAME_MAX + 1"
    by (auto simp: returns_iff)
  show ?thesis
  proof (cases decided)
    case False
    then show ?thesis using received_wait [OF r] u by (simp add: client_read_auth_def p)
  next
    case True
    show ?thesis
      using True d received_answer [OF r u(2), of "overwrite (write_buffer st) 0 [1, if ok then 0 else 1]" 2
          "if ok then CLIENT_STAGE_REQUEST else CLIENT_STAGE_CLOSING"]
      by (simp add: client_read_auth_def p socks5_prepare_auth_response_def SERVER_BUFFER_SIZE_def)
  qed
qed

lemma read_request_inv:
  fixes w :: "'k world"
  assumes os: "posix_ok os" and r: "received c ns w st" and st: "stage st = CLIENT_STAGE_REQUEST"
    and at: "at_fd ns = client_fd st"
  shows "returns (client_read_request os \<lparr>key_fd = client_fd st, key_data = of_session c\<rparr> st w) (world_inv ns)"
proof -
  let ?key = "\<lparr>key_fd = client_fd st, key_data = of_session c\<rparr> :: ref selector_key"
  note d = receivedD [OF r]
  have "received c ns (w\<lparr>current_metrics := metrics_connection_failed (current_metrics w)\<rparr>) st"
    using r by (simp add: received_def)
  note a = received_answer [OF this d(4)]
  have reject: "returns (reject_request ?key reply st w) (world_inv ns)" for reply
    using a [of "overwrite (write_buffer st) 0 [5, reply, 0, 1, 0, 0, 0, 0, 0, 0]" 10 CLIENT_STAGE_CLOSING] d
    by (simp add: reject_request_def socks5_prepare_request_response_def SERVER_BUFFER_SIZE_def)
  have start: "returns (target_connection_begin os ?key (of_session c) request w)
    (\<lambda>w. returns (get_client (of_session c) w) (\<lambda>st. world_inv ns (put_client (of_session c) (st\<lparr>read_len := 0\<rparr>) w)))"
    for request
  proof (rule returns_mono [OF sess_begin [OF os, of c ns w st]])
    show "sess c ns w st [client_fd st \<mapsto> (OP_READ, client_handler)]" "quiet st" "stage st = CLIENT_STAGE_REQUEST"
      "write_len st = 0" "write_off st = 0" "target_fd st = -1" "at_fd ns = client_fd st"
      using r st at by (simp_all add: received_def)
    fix w' assume "settled c ns w'"
    then obtain st' where s: "sess c ns w' st' (expected_regs st')" and wf: "session_wf st'"
      by (auto simp: settled_def)
    have "sess c ns (put_client (of_session c) (st'\<lparr>read_len := 0\<rparr>) w') (st'\<lparr>read_len := 0\<rparr>) (expected_regs st')"
      by (rule sess_put [OF s]) simp_all
    moreover have "expected_regs (st'\<lparr>read_len := 0\<rparr>) = expected_regs st'"
      by (simp add: expected_regs_def client_interest_def target_interest_def client_relay_interest_def target_relay_interest_def)
    moreover have "session_wf (st'\<lparr>read_len := 0\<rparr>)"
      using wf by (simp add: session_wf_def arrays_ok_def regions_ok_def stage_ok_def)
    ultimately show "returns (get_client (of_session c) w')
        (\<lambda>st. world_inv ns (put_client (of_session c) (st\<lparr>read_len := 0\<rparr>) w'))"
      using sess_unfocus [of c ns "put_client (of_session c) (st'\<lparr>read_len := 0\<rparr>) w'" "st'\<lparr>read_len := 0\<rparr>"]
      by (simp add: sess_get [OF s])
  qed
  have wait: "world_inv ns w" if "incomplete (read_buffer st) (read_len st)"
    using received_wait [OF r] incomplete_bound [OF that] by simp
  show ?thesis
    using wait reject start received_wait [OF r]
    by (auto simp: client_read_request_def reply_for_eq [OF d(3)] incomplete_eq [OF d(3)] parse_eq_decode [OF d(3)]
        split: option.split)
qed

section \<open>Reading in any stage\<close>

lemma sess_recv_other:
  fixes w :: "'k world"
  assumes s: "sess c ns w st R" and r: "sys_recv os x n Other w = (Some bs, w')"
  shows "sess c ns w' st R"
proof -
  have "sess c ns (w'\<lparr>io := io w' @ [(Other, bs)]\<rparr>) st R" if s': "sess c ns w' st R" for w' :: "'k world"
    using focus_io(1) [OF _ sess_fresh [OF s']] s' by (simp add: sess_def)
  from this [of "w\<lparr>kern := k\<rparr>" for k] s have "sess c ns (w\<lparr>kern := k, io := io w @ [(Other, bs)]\<rparr>) st R" for k
    by simp
  with r show ?thesis by (auto simp: sys_recv_def split: prod.splits sum.splits)
qed

theorem client_read_inv:
  fixes w :: "'k world"
  assumes os: "posix_ok os" and inv: "world_inv ns w" and c: "clients w c = Some st"
    and due: "wants (client_interest st) OP_READ" and at: "at_fd ns = client_fd st"
  shows "returns (client_read os \<lparr>key_fd = client_fd st, key_data = of_session c\<rparr> w) (world_inv ns)"
proof -
  let ?key = "\<lparr>key_fd = client_fd st, key_data = of_session c\<rparr> :: ref selector_key"
  have g: "get_client (of_session c) w = Inr st" using c by (simp add: get_client.simps)
  from sess_focus [OF inv c] have s: "sess c ns w st (expected_regs st)" and wf: "session_wf st" by simp_all
  show ?thesis
  proof (cases "relay_started st")
    case True
    with wf have "stage st = CLIENT_STAGE_RELAY" by (simp add: session_wf_def stage_ok_def)
    moreover have "c2t_len st = 0"
      using due True by (simp add: client_interest_def client_relay_interest_def wants_def OP_NOOP_def OP_READ_def
          OP_WRITE_def split: if_splits)
    ultimately show ?thesis using client_read_relay_inv [OF os inv c True] by (simp add: client_read_def g)
  next
    case False
    then have st: "handshake (stage st)" "write_len st = 0"
      using due by (auto simp: client_interest_def split: if_splits)
    have rl: "length (read_buffer st) = SERVER_BUFFER_SIZE" "read_len st < 513"
      using wf st by (simp_all add: session_wf_def arrays_ok_def stage_ok_def)
    have rl': "read_len st \<le> SERVER_BUFFER_SIZE" using rl by (simp add: SERVER_BUFFER_SIZE_def)
    have same: "st\<lparr>read_buffer := read_buffer st, read_len := read_len st\<rparr> = st" by simp
    note now = session_received [OF wf st rl(1) rl', unfolded same]
    have s0: "sess c ns w st [client_fd st \<mapsto> (OP_READ, client_handler)]" using s now by simp
    have nr: "stage st \<noteq> CLIENT_STAGE_RELAY" using st by (auto simp: handshake_def)
    obtain got w1 where got: "sys_recv os (client_fd st) (SERVER_BUFFER_SIZE - read_len st) Other w = (got, w1)"
      by fastforce
    have s1: "sess c ns w1 st [client_fd st \<mapsto> (OP_READ, client_handler)]"
    proof (cases got)
      case None
      then show ?thesis using sess_recv_failed [OF s0] got by simp
    next
      case (Some bs)
      show ?thesis using sess_recv_other [OF s0] got Some by simp
    qed
    have quiet: "quiet st" using quiet_session [OF wf now(7,6)] .
    have ended: "returns (client_read_end os ?key got w1) (world_inv ns)"
    proof -
      have "world_inv ns w1" using sess_unfocus [OF s1 [folded now(3)] wf] .
      then show ?thesis using sess_close_waiting(1) [OF s1 quiet now(4), of os] by (simp add: client_read_end_def)
    qed
    show ?thesis
    proof (cases "got = None \<or> got = Some []")
      case True
      then show ?thesis using ended nr by (auto simp: client_read_def g rl got)
    next
      case False
      then obtain bs where bs: "got = Some bs" "length bs > 0" by auto
      let ?buf = "overwrite (read_buffer st) (read_len st) bs" and ?n = "read_len st + length bs"
      have n: "?n \<le> SERVER_BUFFER_SIZE" "length ?buf = SERVER_BUFFER_SIZE"
        using sys_recv_length [OF os got [unfolded bs]] rl rl' by simp_all
      let ?st = "st\<lparr>read_buffer := ?buf, read_len := ?n\<rparr>" and ?w = "put_client (of_session c)
        (st\<lparr>read_buffer := ?buf, read_len := ?n\<rparr>) w1"
      have r: "received c ns ?w ?st"
        using session_received [OF wf st n(2,1)] sess_put [OF s1, of ?st] st by (simp add: received_def)
      have us: "users_wf (managed_users ?w)"
        using r by (simp add: received_def sess_def focus_def base_def)
      have "stage st = CLIENT_STAGE_GREETING \<or> stage st = CLIENT_STAGE_AUTH \<or> stage st = CLIENT_STAGE_REQUEST"
        using st by (simp add: handshake_def)
      then show ?thesis
        using read_greeting_inv [OF r, of os] read_auth_inv [OF r us, of os] read_request_inv [OF os r] at n nr bs
        by (auto simp: client_read_def g rl got Let_def)
    qed
  qed
qed

end
