(* ===== verification/Accept.thy ===== *)
theory Accept
  imports Handshake Management
begin

text \<open>
  Accepting keeps the invariant: a new session or management session is allocated, registered
  and counted, or closed again. The loops end, since each turn takes a waiting connection.
\<close>

section \<open>What the calls of the loops leave alone\<close>

lemma os_call_frames:
  fixes w :: "'k world"
  assumes os: "posix_ok os"
  shows "sys_accept os x w = (r, w') \<Longrightarrow> world_inv ns w' = world_inv ns w \<and> registered w' = registered w
      \<and> os_backlog os x (kern w') + (if r = None then 0 else 1) \<le> os_backlog os x (kern w) + (if r = None then os_backlog os x (kern w') else 0)"
    and "set_nonblocking os y w = (b, w') \<Longrightarrow> world_inv ns w' = world_inv ns w \<and> registered w' = registered w
      \<and> os_backlog os x (kern w') \<le> os_backlog os x (kern w)"
    and "ask (os_calloc os) w = (a, w') \<Longrightarrow> world_inv ns w' = world_inv ns w \<and> registered w' = registered w
      \<and> os_backlog os x (kern w') \<le> os_backlog os x (kern w)"
    and "world_inv ns (sys_close os y w) = world_inv ns w \<and> registered (sys_close os y w) = registered w
      \<and> os_backlog os x (kern (sys_close os y w)) \<le> os_backlog os x (kern w)"
proof -
  note b = posix_backlog [OF os]
  show "world_inv ns w' = world_inv ns w \<and> registered w' = registered w
      \<and> os_backlog os x (kern w') + (if r = None then 0 else 1) \<le> os_backlog os x (kern w) + (if r = None then os_backlog os x (kern w') else 0)"
    if "sys_accept os x w = (r, w')"
    using that b(1) [of x "kern w"]
    by (auto simp: sys_accept_def split: prod.splits sum.splits)
  show "world_inv ns w' = world_inv ns w \<and> registered w' = registered w
      \<and> os_backlog os x (kern w') \<le> os_backlog os x (kern w)" if s: "set_nonblocking os y w = (b, w')"
  proof -
    obtain r k where k: "os_getfl os y (kern w) = (r, k)" by (cases "os_getfl os y (kern w)")
    have kb: "os_backlog os x k \<le> os_backlog os x (kern w)" using b(2) [of x y "kern w"] k by simp
    have "os_backlog os x k' \<le> os_backlog os x (kern w)" if "os_setfl os y fl k = (e, k')" for fl e k'
      using b(3) [of x y fl k] that kb by simp
    with s k kb show ?thesis
      by (auto simp: set_nonblocking_def split: prod.splits sum.splits option.splits)
  qed
  show "world_inv ns w' = world_inv ns w \<and> registered w' = registered w
      \<and> os_backlog os x (kern w') \<le> os_backlog os x (kern w)" if "ask (os_calloc os) w = (a, w')"
    using that b(5) [of x "kern w"] by (auto simp: ask_def split: prod.splits)
  show "world_inv ns (sys_close os y w) = world_inv ns w \<and> registered (sys_close os y w) = registered w
      \<and> os_backlog os x (kern (sys_close os y w)) \<le> os_backlog os x (kern w)"
    using b(4) [of x y "kern w"] by (simp add: sys_close_def)
qed

section \<open>New sessions\<close>

text \<open>Each session has a descriptor of its own, so that there are at most \<open>FD_SETSIZE\<close>.\<close>

lemma sessions_bounded:
  assumes wf: "selector_wf w"
    and fds: "\<And>c st. clients w c = Some st \<Longrightarrow> \<exists>i h. registered w (client_fd st) = Some (i, h, Some (ClientRef c))"
  shows "finite (dom (clients w)) \<and> card (dom (clients w)) \<le> FD_SETSIZE"
proof -
  let ?f = "\<lambda>c. client_fd (the (clients w c))"
  have inj: "inj_on ?f (dom (clients w))"
  proof (rule inj_onI)
    fix a b assume "a \<in> dom (clients w)" "b \<in> dom (clients w)" and e: "?f a = ?f b"
    then obtain sa sb where "clients w a = Some sa" "clients w b = Some sb" by blast
    with fds [of a sa] fds [of b sb] e show "a = b" by auto
  qed
  have sub: "?f ` dom (clients w) \<subseteq> {0 ..< int FD_SETSIZE}"
  proof
    fix x assume "x \<in> ?f ` dom (clients w)"
    then obtain c st where "clients w c = Some st" "x = client_fd st" by auto
    with fds [of c st] registeredD(1,2) [OF wf] show "x \<in> {0 ..< int FD_SETSIZE}" by fastforce
  qed
  have "finite (dom (clients w))" using inj_on_finite [OF inj sub] by simp
  moreover have "card (dom (clients w)) \<le> FD_SETSIZE"
    using card_inj_on_le [OF inj sub] by simp
  ultimately show ?thesis ..
qed

lemma session_registered:
  assumes "session_inv ns w c" "clients w c = Some st"
  shows "registered w (client_fd st) = Some (client_interest st, client_handler, Some (ClientRef c))"
    and "target_fd st \<noteq> -1 \<Longrightarrow> registered w (target_fd st) = Some (target_interest st, target_handler, Some (ClientRef c))"
proof -
  have o: "owned (registered w) (ClientRef c) = expected_regs st" and wf: "session_wf st"
    using assms by (simp_all add: session_inv_def)
  have "expected_regs st (client_fd st) = Some (client_interest st, client_handler)"
    "target_fd st \<noteq> -1 \<Longrightarrow> expected_regs st (target_fd st) = Some (target_interest st, target_handler)"
    using wf by (simp_all add: expected_regs_def session_wf_def stage_ok_def)
  then show "registered w (client_fd st) = Some (client_interest st, client_handler, Some (ClientRef c))"
    "target_fd st \<noteq> -1 \<Longrightarrow> registered w (target_fd st) = Some (target_interest st, target_handler, Some (ClientRef c))"
    using o by (metis ownedD)+
qed

lemma fresh_ref:
  assumes "world_inv ns w"
  shows "clients w (next_ref w) = None" "mgmts w (next_ref w) = None"
  using assms by (simp_all add: world_inv_def base_def fresh_inv_def)

lemma new_session_wf:
  assumes "fd \<noteq> -1"
  shows "returns (new_session fd) (\<lambda>st. session_wf st \<and> expected_regs st = [fd \<mapsto> (OP_READ, client_handler)]
     \<and> pending_c2t st = [] \<and> pending_t2c st = [] \<and> resolver_job st = None \<and> client_fd st = fd)"
  using assms
  by (simp add: new_session_def c_snprintf_def zero_client_state_def CLIENT_USERNAME_MAX_def bytes_def
      session_wf_def arrays_ok_def regions_ok_def region_ok_def stage_ok_def handshake_def expected_regs_def
      client_interest_def pending_c2t_def pending_t2c_def)

lemma accepted_inv:
  fixes w w' :: "'k world"
  assumes inv: "world_inv ns w" and at: "registered w (at_fd ns) \<noteq> None" and free: "registered w fd = None"
    and st: "session_wf st" "expected_regs st = [fd \<mapsto> (OP_READ, client_handler)]" "pending_c2t st = []"
      "pending_t2c st = []" "resolver_job st = None" "client_fd st = fd"
    and wf: "selector_wf w'" and fr: "sel_frame (snd (alloc_client st w)) w'"
    and reg: "registered w' = (registered w)(fd \<mapsto> (OP_READ, client_handler, Some (ClientRef (next_ref w))))"
  shows "world_inv ns (w'\<lparr>current_metrics := metrics_connection_opened (current_metrics w'),
           active_client_connections := active_client_connections w' + 1\<rparr>)"
proof -
  let ?c = "next_ref w" and ?w = "w'\<lparr>current_metrics := metrics_connection_opened (current_metrics w'),
           active_client_connections := active_client_connections w' + 1\<rparr>"
  note f = sel_frame_world [OF fr]
  have w': "clients w' = (clients w)(?c \<mapsto> st)" "mgmts w' = mgmts w" "jobs w' = jobs w" "threads w' = threads w"
    "next_ref w' = ?c + 1" "active_client_connections w' = active_client_connections w"
    "current_metrics w' = current_metrics w" "managed_users w' = managed_users w" "io w' = io w"
    "length (fds w') = length (fds w)" "resolution_jobs w' = resolution_jobs w"
    using f by (simp_all add: alloc_client_def)
  have b: "base ns w" using inv by (simp add: world_inv_def)
  have S: "session_inv ns w c" for c using inv by (simp add: world_inv_def)
  have c: "clients w ?c = None" using fresh_ref [OF inv] by simp
  have own: "owned (registered w') d = (if d = ClientRef ?c then (owned (registered w) d)(fd \<mapsto> (OP_READ, client_handler))
      else owned (registered w) d)" for d
    using free by (auto simp: reg owned_def fun_eq_iff)
  have sessions: "session_inv ns ?w c'" for c'
  proof (cases "c' = ?c")
    case True
    have n: "owned (registered w) (ClientRef ?c) = Map.empty" "job_link ns w ?c None 0"
      using S [of ?c] c by (simp_all add: session_inv_def)
    have str: "streams_ok w ?c [] []" using b by (simp add: base_def fresh_inv_def streams_ok_def)
    have "owned (registered w') (ClientRef ?c) = expected_regs st" using own [of "ClientRef ?c"] n st by simp
    then show ?thesis
      using True n str st w' job_link_None [of ns w ?c 0 fd]
      by (simp add: session_inv_def job_link_def streams_ok_def)
  next
    case False
    then have "session_inv ns ?w c' = session_inv ns w c'"
      using own [of "ClientRef c'"] w' by (intro session_inv_cong) simp_all
    then show ?thesis using S by simp
  qed
  have "finite (dom (clients ?w)) \<and> card (dom (clients ?w)) \<le> FD_SETSIZE"
  proof (rule sessions_bounded)
    show "selector_wf ?w" using wf by (simp cong: selector_wf_cong)
    show "\<exists>i h. registered ?w (client_fd st') = Some (i, h, Some (ClientRef c'))"
      if "clients ?w c' = Some st'" for c' st'
      using session_registered(1) [OF sessions that] by blast
  qed
  moreover have "card (dom (clients ?w)) = Suc (card (dom (clients w)))"
    using b c w' by (simp add: base_def counters_inv_def card_insert_if domIff)
  ultimately have "counters_inv ?w"
    using b w' by (simp add: base_def counters_inv_def metrics_connection_opened_def)
  moreover have "selector_inv ?w"
    using b wf w' by (auto simp: base_def selector_inv_def reg cong: selector_wf_cong)
  moreover have "mgmt_inv ?w m" for m
    using b own [of "MgmtRef m"] w' by (simp add: base_def mgmt_inv_def)
  moreover have "fresh_inv ?w" "jobs_inv ns ?w" "users_wf (managed_users ?w)" "resolution_jobs ?w = listed ns"
    using b w' by (simp_all add: base_def fresh_inv_def jobs_inv_def)
  moreover have "listens ns fd = None" using b free guard_unlistened [of ns w fd] by (simp add: base_def)
  then have "guard_ok ns ?w" using b at free by (auto simp: base_def guard_ok_def reg)
  ultimately show ?thesis using sessions by (simp add: world_inv_def base_def)
qed

lemma unused_ref_inv:
  fixes w :: "'k world"
  assumes inv: "world_inv ns w"
  shows "world_inv ns (free_client (Some (fst (alloc_client st w))) (snd (alloc_client st w)))"
    and "world_inv ns (free_mgmt (Some (fst (alloc_mgmt ms w))) (snd (alloc_mgmt ms w)))"
proof -
  note fr = fresh_ref [OF inv]
  have e: "(clients w)(next_ref w := None) = clients w" "(mgmts w)(next_ref w := None) = mgmts w"
    "w\<lparr>clients := clients w, next_ref := n\<rparr> = w\<lparr>next_ref := n\<rparr>"
    "w\<lparr>mgmts := mgmts w, next_ref := n\<rparr> = w\<lparr>next_ref := n\<rparr>" for n
    using fr by (simp_all add: fun_upd_idem)
  let ?w = "w\<lparr>next_ref := next_ref w + 1\<rparr>"
  have b: "base ns w" using inv by (simp add: world_inv_def)
  have "fresh_inv ?w" using b by (simp add: base_def fresh_inv_def)
  moreover have "mgmt_inv ?w m = mgmt_inv w m" "jobs_inv ns ?w = jobs_inv ns w"
    "guard_ok ns ?w = guard_ok ns w" "counters_inv ?w = counters_inv w" for m
    by (simp_all add: mgmt_inv_def jobs_inv_def guard_ok_def counters_inv_def)
  ultimately have "base ns ?w" using b by (simp add: base_def)
  moreover have "session_inv ns ?w c = session_inv ns w c" for c by (intro session_inv_cong) simp_all
  ultimately have "world_inv ns ?w" using inv by (simp add: world_inv_def)
  then show "world_inv ns (free_client (Some (fst (alloc_client st w))) (snd (alloc_client st w)))"
    "world_inv ns (free_mgmt (Some (fst (alloc_mgmt ms w))) (snd (alloc_mgmt ms w)))"
    by (simp_all add: alloc_client_def alloc_mgmt_def e)
qed

lemma register_at_most:
  fixes w :: "'k world"
  assumes wf: "selector_wf w" and len: "length (fds w) = FD_SETSIZE + 1"
  shows "returns (selector_register ok junk fd (Some h) i d w) (\<lambda>(status, w').
     if status = SELECTOR_SUCCESS
     then registered w fd = None \<and> fd \<noteq> -1 \<and> selector_wf w' \<and> sel_frame w w'
       \<and> registered w' = (registered w)(fd \<mapsto> (i, h, d))
     else w' = w)"
proof (cases "INVALID_FD fd \<or> registered w fd \<noteq> None")
  case True
  then show ?thesis
    using selector_register_invalid [of fd ok junk "Some h" i d w] selector_register_used [of fd w ok junk h i d]
    by (cases "INVALID_FD fd") auto
next
  case False
  then have x: "\<not> INVALID_FD fd" "registered w fd = None" by blast+
  have "nat fd < length (fds w)" "fd \<noteq> -1"
    using x(1) len by (auto simp: INVALID_FD_def FD_SETSIZE_def)
  with selector_register_new [OF wf x(1) _ x(2), of ok junk h i d] x(2) show ?thesis
    by (auto elim!: returns_mono)
qed

text \<open>A descriptor that was accepted is registered with its new session, or the session is freed.\<close>

lemma register_session:
  fixes w :: "'k world"
  assumes inv: "world_inv ns w" and at: "registered w (at_fd ns) \<noteq> None" and st: "new_session fd = Inr st"
  shows "returns (selector_register ok zero_item fd (Some client_handler) OP_READ (Some (ClientRef (next_ref w)))
      (snd (alloc_client st w))) (\<lambda>(status, w'). \<exists>w''.
      w'' = (if status \<noteq> SELECTOR_SUCCESS then free_client (Some (ClientRef (next_ref w))) w'
        else w'\<lparr>current_metrics := metrics_connection_opened (current_metrics w'),
                active_client_connections := active_client_connections w' + 1\<rparr>)
      \<and> world_inv ns w'' \<and> kern w'' = kern w \<and> registered w'' (at_fd ns) \<noteq> None
      \<and> (status \<noteq> SELECTOR_SUCCESS \<longrightarrow> registered w'' = registered w))"
proof -
  let ?w = "snd (alloc_client st w)" and ?c = "ClientRef (next_ref w)"
  have sel: "selector_inv ?w" using inv by (simp add: world_inv_def base_def alloc_client_def)
  have rw: "registered ?w = registered w" by (simp add: alloc_client_def)
  from sel have "selector_wf ?w" "length (fds ?w) = FD_SETSIZE + 1" by (simp_all add: selector_inv_def)
  from register_at_most [OF this, of ok zero_item fd client_handler OP_READ "Some ?c"] show ?thesis
  proof (rule returns_mono, goal_cases)
    case (1 p)
    obtain status w' where p: "p = (status, w')" by (cases p)
    show ?case
    proof (cases "status = SELECTOR_SUCCESS")
      case False
      with 1 p have "w' = ?w" by simp
      with unused_ref_inv(1) [OF inv, of st] at False show ?thesis by (simp add: p alloc_client_def)
    next
      case True
      with 1 p have reg: "registered w fd = None" "fd \<noteq> -1" "selector_wf w'" "sel_frame ?w w'"
        "registered w' = (registered w)(fd \<mapsto> (OP_READ, client_handler, Some ?c))"
        unfolding rw by simp_all
      have wf: "session_wf st" "expected_regs st = [fd \<mapsto> (OP_READ, client_handler)]" "pending_c2t st = []"
        "pending_t2c st = []" "resolver_job st = None" "client_fd st = fd"
        using new_session_wf [OF reg(2)] st by simp_all
      have "kern w' = kern w" using sel_frame_world(12) [OF reg(4)] by (simp add: alloc_client_def)
      with accepted_inv [OF inv _ _ wf reg(3,4)] at reg True show ?thesis by (simp add: p)
    qed
  qed
qed

lemma accept_loop_inv:
  fixes w :: "'k world"
  assumes os: "posix_ok os"
  shows "world_inv ns w \<Longrightarrow> registered w (at_fd ns) \<noteq> None \<Longrightarrow> os_backlog os (key_fd key) (kern w) < fuel \<Longrightarrow>
    returns (accept_loop os fuel key w) (world_inv ns)"
proof (induction fuel arbitrary: w)
  case 0
  then show ?case by simp
next
  case (Suc fuel)
  note inv = Suc.prems(1) and at = Suc.prems(2)
  obtain r w1 where a1: "sys_accept os (key_fd key) w = (r, w1)" by fastforce
  note f1 = os_call_frames(1) [OF os a1, of ns]
  show ?case
  proof (cases r)
    case None
    with a1 f1 inv show ?thesis by simp
  next
    case (Some fd)
    obtain nb w2 where a2: "set_nonblocking os fd w1 = (nb, w2)" by fastforce
    note f2 = os_call_frames(2) [OF os a2, of ns "key_fd key"]
    obtain al w3 where a3: "ask (os_calloc os) w2 = (al, w3)" by fastforce
    note f3 = os_call_frames(3) [OF os a3, of ns "key_fd key"]
    have closed: "returns (accept_loop os fuel key (sys_close os fd w')) (world_inv ns)"
      if "world_inv ns w'" "registered w' = registered w" "os_backlog os (key_fd key) (kern w') < fuel"
      for w' :: "'k world"
      using os_call_frames(4) [OF os, of ns fd w' "key_fd key"] that at
      by (intro Suc.IH) simp_all
    have i3: "world_inv ns w2" "world_inv ns w3" "registered w2 = registered w" "registered w3 = registered w"
      "os_backlog os (key_fd key) (kern w2) < fuel" "os_backlog os (key_fd key) (kern w3) < fuel"
      using f1 f2 f3 inv Suc.prems(3) Some by simp_all
    show ?thesis
    proof (cases "nb \<and> al")
      case False
      with closed [OF i3(1,3,5)] closed [OF i3(2,4,6)] show ?thesis by (auto simp: a1 a2 a3 Some)
    next
      case True
      let ?c = "ClientRef (next_ref w3)"
      have "returns (new_session fd) (\<lambda>_. True)"
        by (simp add: new_session_def c_snprintf_def zero_client_state_def CLIENT_USERNAME_MAX_def bytes_def)
      then obtain st where st: "new_session fd = Inr st" by (auto simp: returns_iff)
      have at3: "registered w3 (at_fd ns) \<noteq> None" using i3(4) at by simp
      obtain status w' w'' where r: "selector_register (os_realloc os) zero_item fd (Some client_handler) OP_READ (Some ?c)
          (snd (alloc_client st w3)) = Inr (status, w')"
        and w'': "w'' = (if status \<noteq> SELECTOR_SUCCESS then free_client (Some ?c) w'
            else w'\<lparr>current_metrics := metrics_connection_opened (current_metrics w'),
                    active_client_connections := active_client_connections w' + 1\<rparr>)"
          "world_inv ns w''" "kern w'' = kern w3" "registered w'' (at_fd ns) \<noteq> None"
          "status \<noteq> SELECTOR_SUCCESS \<longrightarrow> registered w'' = registered w3"
        using register_session [OF i3(2) at3 st, of "os_realloc os"] unfolding returns_iff split_paired_Ex prod.case by blast
      have "returns (accept_loop os fuel key (if status \<noteq> SELECTOR_SUCCESS then sys_close os fd w'' else w'')) (world_inv ns)"
        using closed [OF w''(2)] Suc.IH [OF w''(2,4)] w''(3,5) i3(4,6) by simp
      moreover obtain w4 where "alloc_client st w3 = (?c, w4)" by (simp add: alloc_client_def)
      ultimately show ?thesis using True r by (auto simp: a1 a2 a3 Some st w''(1) split: if_splits)
    qed
  qed
qed

theorem accept_connection_inv:
  assumes "posix_ok os" "world_inv ns w" "registered w (at_fd ns) \<noteq> None"
  shows "returns (accept_connection os key w) (world_inv ns)"
  unfolding accept_connection_def by (rule accept_loop_inv [OF assms]) simp

end
