(* ===== verification/Manage.thy ===== *)
theory Manage
  imports Accept
begin

text \<open>
  The management service keeps the invariant: reading and answering a line, sending the answer
  and closing, and accepting. \<open>mfocus\<close> says that everything but one management session is as it
  should be, as \<open>focus\<close> does for the sessions of clients.
\<close>

section \<open>Focusing on a management session\<close>

abbreviation of_mgmt :: "nat \<Rightarrow> ref option" where
  "of_mgmt m \<equiv> Some (MgmtRef m)"

definition mfocus :: "nat \<Rightarrow> turn \<Rightarrow> 'k world \<Rightarrow> registrations \<Rightarrow> bool" where
  "mfocus m ns w R \<longleftrightarrow> selector_inv w \<and> (\<forall>m'. m' \<noteq> m \<longrightarrow> mgmt_inv w m') \<and> jobs_inv ns w \<and> fresh_inv w
     \<and> counters_inv w \<and> users_wf (managed_users w) \<and> resolution_jobs w = listed ns \<and> guard_ok ns w
     \<and> (\<forall>c. session_inv ns w c) \<and> owned (registered w) (MgmtRef m) = R"

definition mregs :: "int \<Rightarrow> fd_interest \<Rightarrow> registrations" where
  "mregs x i = [x \<mapsto> (i, management_client_handler)]"

text \<open>What a management session waits for: its line while there is room for it, or to send.\<close>

definition mwaits :: "management_state \<Rightarrow> fd_interest \<Rightarrow> bool" where
  "mwaits st i \<longleftrightarrow> i = OP_READ \<and> mg_read_len st < MANAGEMENT_BUFFER_SIZE - 1 \<or> i = OP_WRITE"

lemma mfocusI:
  assumes inv: "world_inv ns w" and st: "mgmts w m = Some st"
    and reg: "registered w x = Some (i, h, of_mgmt m)"
  shows "mfocus m ns w (mregs x i)" "mgmt_wf st" "mwaits st i" "h = management_client_handler"
proof -
  have b: "base ns w" "\<And>c. session_inv ns w c" using inv by (simp_all add: world_inv_def)
  then have m: "mgmt_inv w m" by (simp add: base_def)
  from reg have "owned (registered w) (MgmtRef m) x = Some (i, h)" by (simp add: ownedD)
  moreover from m st obtain fd j where o: "owned (registered w) (MgmtRef m) = [fd \<mapsto> (j, management_client_handler)]"
    and j: "mwaits st j" and wf: "mgmt_wf st"
    by (auto simp: mgmt_inv_def mwaits_def)
  ultimately have e: "fd = x" "j = i" "h = management_client_handler" by (simp_all split: if_splits)
  show "mgmt_wf st" "mwaits st i" "h = management_client_handler" using wf j e by simp_all
  show "mfocus m ns w (mregs x i)" using b o e by (simp add: mfocus_def base_def mregs_def)
qed

lemma munfocus:
  assumes f: "mfocus m ns w (mregs x i)" and st: "mgmts w m = Some st" "mgmt_wf st" "mwaits st i"
  shows "world_inv ns w"
proof -
  have "mgmt_inv w m" using f st by (auto simp: mgmt_inv_def mfocus_def mregs_def mwaits_def)
  moreover have "\<And>m'. m' \<noteq> m \<Longrightarrow> mgmt_inv w m'" using f by (simp add: mfocus_def)
  ultimately have "\<And>m'. mgmt_inv w m'" by metis
  then show ?thesis using f by (simp add: mfocus_def world_inv_def base_def)
qed

lemma munfocus_closed:
  assumes f: "mfocus m ns w Map.empty" and st: "mgmts w m = None"
  shows "world_inv ns w"
proof -
  have "mgmt_inv w m" using f st by (simp add: mgmt_inv_def mfocus_def)
  moreover have "\<And>m'. m' \<noteq> m \<Longrightarrow> mgmt_inv w m'" using f by (simp add: mfocus_def)
  ultimately have "\<And>m'. mgmt_inv w m'" by metis
  then show ?thesis using f by (simp add: mfocus_def world_inv_def base_def)
qed

text \<open>Steps that leave the sessions, the jobs and the table alone.\<close>

lemma mfocus_step:
  assumes f: "mfocus m ns w R" and eq: "clients w' = clients w" "jobs w' = jobs w" "threads w' = threads w"
      "registered w' = registered w" "active_client_connections w' = active_client_connections w"
      "current_metrics w' = current_metrics w" "resolution_jobs w' = resolution_jobs w" "next_ref w' = next_ref w"
    and sel: "selector_inv w' = selector_inv w"
    and io: "\<And>ch. ch \<noteq> Other \<Longrightarrow> stream ch (io w') = stream ch (io w)" "\<And>b. sent_total b (io w') = sent_total b (io w)"
    and us: "users_wf (managed_users w')"
    and mg: "\<And>m'. m' \<noteq> m \<Longrightarrow> mgmts w' m' = mgmts w m'" "mgmts w m \<noteq> None"
  shows "mfocus m ns w' R"
proof -
  have "session_inv ns w' c = session_inv ns w c" for c
    using eq io by (intro session_inv_cong) auto
  moreover have "mgmt_inv w' m' = mgmt_inv w m'" if "m' \<noteq> m" for m'
    using eq mg(1) [OF that] by (simp add: mgmt_inv_def)
  moreover have "m < next_ref w" using f mg(2) unfolding mfocus_def fresh_inv_def by (meson not_le)
  then have "fresh_inv w'" using f eq io mg(1) unfolding mfocus_def fresh_inv_def by (metis channel.distinct(7,13,17,19) insertE singletonD not_le)
  moreover have "counters_inv w' = counters_inv w" "jobs_inv ns w' = jobs_inv ns w" "guard_ok ns w' = guard_ok ns w"
    using eq io by (simp_all add: counters_inv_def jobs_inv_def guard_ok_def)
  ultimately show ?thesis using f eq sel us by (simp add: mfocus_def)
qed

lemma mfocus_frames [simp]:
  "mfocus m ns (w\<lparr>kern := k\<rparr>) R = mfocus m ns w R" "mfocus m ns (w\<lparr>errno := e\<rparr>) R = mfocus m ns w R"
  "mfocus m ns (sys_close os x w) R = mfocus m ns w R"
  by (simp_all add: mfocus_def world_parts sys_close_def)

lemma mfocus_io:
  assumes "mfocus m ns w R" "mgmts w m \<noteq> None"
  shows "mfocus m ns (w\<lparr>io := io w @ [(Other, bs)]\<rparr>) R"
  using assms by (intro mfocus_step [OF assms(1)]) (simp_all add: mfocus_def)

lemma mfocus_put:
  assumes "mfocus m ns w R" "mgmts w m \<noteq> None" "users_wf us"
  shows "mfocus m ns (w\<lparr>mgmts := (mgmts w)(m := x)\<rparr>) R"
    and "mfocus m ns (w\<lparr>managed_users := us, mgmts := (mgmts w)(m := x)\<rparr>) R"
  using assms by (intro mfocus_step [OF assms(1)]; simp add: mfocus_def)+

section \<open>The selector under this focus\<close>

lemma mfocus_selector:
  assumes f: "mfocus m ns w R" and wf: "selector_wf w'" and fr: "sel_frame w w'"
    and reg: "registered w' = (registered w)(x := r)"
    and r: "of_ref (MgmtRef m) (registered w x)" "of_ref (MgmtRef m) r" and g: "guard_ok ns w'"
  shows "mfocus m ns w' (R(x := map_option (\<lambda>(i, h, d). (i, h)) r)) \<and> mgmts w' = mgmts w"
proof -
  note w = sel_frame_world [OF fr]
  note own = owned_update [where R = "registered w" and x = x, OF r]
  have "session_inv ns w' c = session_inv ns w c" for c
    using own(2) [of "ClientRef c"] w by (intro session_inv_cong) (simp_all add: reg)
  moreover have "mgmt_inv w' m' = mgmt_inv w m'" if "m' \<noteq> m" for m'
    using own(2) [of "MgmtRef m'"] that w by (simp add: mgmt_inv_def reg)
  moreover have "selector_inv w'"
    using f wf r(2) w by (auto simp: mfocus_def selector_inv_def reg)
  moreover have "jobs_inv ns w' = jobs_inv ns w" "fresh_inv w' = fresh_inv w" "counters_inv w' = counters_inv w"
    by (simp_all add: jobs_inv_def fresh_inv_def counters_inv_def w)
  ultimately show ?thesis using f g own(1) w by (simp add: mfocus_def reg)
qed

lemma mfocus_owned:
  "mfocus m ns w (mregs x i) \<Longrightarrow> registered w x = Some (i, management_client_handler, of_mgmt m)"
  by (metis ownedD mfocus_def mregs_def fun_upd_same)

lemma mfocus_wf: "mfocus m ns w R \<Longrightarrow> selector_wf w"
  by (simp add: mfocus_def selector_inv_def)

lemma mfocus_set_interest:
  assumes f: "mfocus m ns w (mregs x i0)"
  shows "returns (drop_status (selector_set_interest x i w)) (\<lambda>w'. mfocus m ns w' (mregs x i) \<and> mgmts w' = mgmts w)"
proof -
  note reg = mfocus_owned [OF f]
  from selector_set_interest_registered [OF mfocus_wf [OF f] reg, of i]
  obtain w' where w': "selector_set_interest x i w = Inr (SELECTOR_SUCCESS, w')" "selector_wf w'"
    "registered w' = (registered w)(x \<mapsto> (i, management_client_handler, of_mgmt m))" "sel_frame w w'"
    by (auto simp: returns_iff)
  have "guard_ok ns w" using f by (simp add: mfocus_def)
  then have "guard_ok ns w'" using guard_update [OF _ w'(3)] reg by auto
  from mfocus_selector [OF f w'(2,4,3) _ _ this] reg show ?thesis
    by (simp add: drop_status_def w'(1) mregs_def)
qed

lemma mfocus_clear:
  assumes f: "mfocus m ns w (mregs x i)"
  shows "returns (selector_clear x w) (\<lambda>w'. mfocus m ns w' Map.empty \<and> mgmts w' = mgmts w)"
proof -
  note reg = mfocus_owned [OF f]
  from selector_clear_registered [OF mfocus_wf [OF f], of x] reg
  obtain w' where w': "selector_clear x w = Inr w'" "selector_wf w'"
    "registered w' = (registered w)(x := None)" "sel_frame w w'"
    by (auto simp: returns_iff)
  have "guard_ok ns w" using f by (simp add: mfocus_def)
  then have "guard_ok ns w'" using guard_update [OF _ w'(3)] reg by auto
  from mfocus_selector [OF f w'(2,4,3) _ _ this] reg show ?thesis by (simp add: w'(1) mregs_def)
qed

lemma mgmt_unregister:
  assumes f: "mfocus m ns w (mregs x i)" and st: "mgmts w m = Some st"
  shows "returns (drop_status (selector_unregister_fd (handle_close os) x w)) (world_inv ns)"
proof -
  let ?w = "sys_close os x (w\<lparr>mgmts := (mgmts w)(m := None)\<rparr>)"
  have us: "users_wf (managed_users w)" using f by (simp add: mfocus_def)
  have "mfocus m ns ?w (mregs x i)" using mfocus_put(1) [OF f _ us] st by simp
  from mfocus_clear [OF this] have "returns (selector_clear x ?w) (world_inv ns)"
    by (rule returns_mono) (auto intro: munfocus_closed simp: sys_close_def)
  moreover have "management_close os \<lparr>key_fd = x, key_data = of_mgmt m\<rparr> w = Inr ?w"
    using st by (simp add: management_close_def get_mgmt.simps)
  ultimately show ?thesis
    unfolding selector_unregister_fd_eq [OF mfocus_wf [OF f] mfocus_owned [OF f]]
    by (auto simp: drop_status_def elim!: returns_mono)
qed

section \<open>The handlers\<close>

theorem management_write_inv:
  fixes w :: "'k world"
  assumes os: "posix_ok os" and inv: "world_inv ns w" and st: "mgmts w m = Some st"
    and reg: "registered w x = Some (i, h, of_mgmt m)"
  shows "returns (management_write os \<lparr>key_fd = x, key_data = of_mgmt m\<rparr> w) (world_inv ns)"
proof -
  note f = mfocusI [OF inv st reg]
  have len: "mg_write_len st \<le> length (mg_write_buffer st)" "mg_write_off st \<le> mg_write_len st"
    using f(2) by (simp_all add: mgmt_wf_def)
  let ?I = "\<lambda>(p :: byte list) w. mfocus m ns w (mregs x i) \<and> mgmts w m = Some st"
  have "returns (send_loop os count_nothing Other x (mg_write_buffer st) (mg_write_off st) (mg_write_len st) w)
    (\<lambda>(e, off', w'). ?I (take (mg_write_len st - off') (drop off' (mg_write_buffer st))) w'
       \<and> mg_write_off st \<le> off' \<and> off' \<le> mg_write_len st \<and> (e = SendDone \<longleftrightarrow> off' = mg_write_len st))"
  proof (rule send_loop_rule [where I = ?I, OF os len(1) _ _ _ _ len(2)])
    fix w :: "'k world" and p bs :: "byte list"
    assume I: "?I p w"
    have "w\<lparr>io := io w @ [(Other, bs)], current_metrics := count_nothing (length bs) (current_metrics w)\<rparr>
        = w\<lparr>io := io w @ [(Other, bs)]\<rparr>" by (simp add: count_nothing_def)
    then show "?I (drop (length bs) p) (w\<lparr>io := io w @ [(Other, bs)],
        current_metrics := count_nothing (length bs) (current_metrics w)\<rparr>)"
      using mfocus_io [of m ns w "mregs x i" bs] I by simp
  qed (use f(1) st in \<open>simp_all add: count_nothing_def\<close>)
  then obtain e off' w' where r: "send_loop os count_nothing Other x (mg_write_buffer st) (mg_write_off st)
      (mg_write_len st) w = Inr (e, off', w')"
    and w': "mfocus m ns w' (mregs x i)" "mgmts w' m = Some st" and off: "off' \<le> mg_write_len st"
    by (auto simp: returns_iff)
  let ?st = "st\<lparr>mg_write_off := off'\<rparr>" and ?w = "put_mgmt (of_mgmt m) (st\<lparr>mg_write_off := off'\<rparr>) w'"
  have us: "users_wf (managed_users w')" using w'(1) by (simp add: mfocus_def)
  have F: "mfocus m ns ?w (mregs x i)" "mgmts ?w m = Some ?st"
    using mfocus_put(1) [OF w'(1) _ us, of "Some ?st"] w'(2) by (simp_all add: put_mgmt.simps)
  have "mgmt_wf ?st" "mwaits ?st i" using f(2,3) off by (simp_all add: mgmt_wf_def mwaits_def)
  with munfocus [OF F] mgmt_unregister [OF F, of os] st r show ?thesis
    by (simp add: management_write_def get_mgmt.simps Let_def split: send_end.split)
qed

text \<open>A whole line is answered and the answer waits to be written.\<close>

lemma mgmt_answer:
  fixes w :: "'k world"
  assumes F: "mfocus m ns w (mregs x i)" "mgmts w m = Some st"
    and l: "length (mg_read_buffer st) = MANAGEMENT_BUFFER_SIZE" "mg_read_len st < MANAGEMENT_BUFFER_SIZE"
      "length (mg_write_buffer st) = MANAGEMENT_BUFFER_SIZE" and us: "users_wf (managed_users w)"
  shows "returns (management_prepare_response st (current_metrics w) (managed_users w)) (\<lambda>(st', us').
    returns (drop_status (selector_set_interest x OP_WRITE
      (put_mgmt (of_mgmt m) st' (w\<lparr>managed_users := us'\<rparr>)))) (world_inv ns))"
proof -
  obtain answer us' where us': "users_wf us'"
    and r: "returns (management_prepare_response st (current_metrics w) (managed_users w)) (\<lambda>(st', us2). us2 = us'
     \<and> cstr (mg_write_buffer st') = take (MANAGEMENT_BUFFER_SIZE - 1) answer
     \<and> mg_write_len st' = length (cstr (mg_write_buffer st')) \<and> mg_write_off st' = 0
     \<and> mg_read_len st' = mg_read_len st \<and> length (mg_read_buffer st') = MANAGEMENT_BUFFER_SIZE
     \<and> length (mg_write_buffer st') = MANAGEMENT_BUFFER_SIZE)"
    by (rule returnsE [OF prepare_exact [OF l us, of "current_metrics w"]]) auto
  show ?thesis
  proof (rule returns_mono [OF r], goal_cases)
    case (1 y)
    then obtain st' where y: "y = (st', us')" and st': "mg_write_len st' = length (cstr (mg_write_buffer st'))"
      "mg_write_off st' = 0" "mg_read_len st' = mg_read_len st" "length (mg_read_buffer st') = MANAGEMENT_BUFFER_SIZE"
      "length (mg_write_buffer st') = MANAGEMENT_BUFFER_SIZE" by (cases y) auto
    let ?w = "put_mgmt (of_mgmt m) st' (w\<lparr>managed_users := us'\<rparr>)"
    have F2: "mfocus m ns ?w (mregs x i)" "mgmts ?w m = Some st'"
      using mfocus_put(2) [OF F(1) _ us', of "Some st'"] F(2) by (simp_all add: put_mgmt.simps)
    have "mgmt_wf st'" using st' l(2) length_cstr_le [of "mg_write_buffer st'"] by (simp add: mgmt_wf_def)
    moreover have "mwaits st' OP_WRITE" by (simp add: mwaits_def)
    ultimately have "returns (drop_status (selector_set_interest x OP_WRITE ?w)) (world_inv ns)"
      by (intro returns_mono [OF mfocus_set_interest [OF F2(1)]]) (auto intro: munfocus simp: F2(2))
    then show ?case by (simp add: y)
  qed
qed

theorem management_read_inv:
  fixes w :: "'k world"
  assumes os: "posix_ok os" and inv: "world_inv ns w" and st: "mgmts w m = Some st"
    and reg: "registered w x = Some (i, h, of_mgmt m)" and due: "wants i OP_READ"
  shows "returns (management_read os \<lparr>key_fd = x, key_data = of_mgmt m\<rparr> w) (world_inv ns)"
proof -
  note f = mfocusI [OF inv st reg]
  have rl: "mg_read_len st < MANAGEMENT_BUFFER_SIZE - 1" "i = OP_READ" using f(3) due by (auto simp: mwaits_def)
  have len: "length (mg_read_buffer st) = MANAGEMENT_BUFFER_SIZE" "length (mg_write_buffer st) = MANAGEMENT_BUFFER_SIZE"
    using f(2) by (simp_all add: mgmt_wf_def)
  obtain got w1 where got: "sys_recv os x (MANAGEMENT_BUFFER_SIZE - Suc (mg_read_len st)) Other w = (got, w1)"
    by fastforce
  have w1: "mfocus m ns w1 (mregs x i) \<and> mgmts w1 m = Some st"
    using got mfocus_io [where bs = "the got", OF f(1)] mfocus_io [where w = "w\<lparr>kern := k\<rparr>" for k] f(1) st
    by (auto simp: sys_recv_def split: prod.splits sum.splits)
  note close = mgmt_unregister [OF conjunct1 [OF w1] conjunct2 [OF w1], of os]
  have same: "world_inv ns w1" using munfocus [OF conjunct1 [OF w1] conjunct2 [OF w1] f(2,3)] .
  show ?thesis
  proof (cases "got = None \<or> got = Some []")
    case True
    then show ?thesis using same close st by (auto simp: management_read_def get_mgmt.simps len got)
  next
    case False
    then obtain bs where bs: "got = Some bs" "length bs > 0" by auto
    have bl: "mg_read_len st + length bs \<le> MANAGEMENT_BUFFER_SIZE - 1"
      using sys_recv_length [OF os got [unfolded bs]] rl by simp
    let ?buf = "overwrite (mg_read_buffer st) (mg_read_len st) bs"
    let ?st = "st\<lparr>mg_read_buffer := ?buf, mg_read_len := mg_read_len st + length bs\<rparr>"
    let ?w = "put_mgmt (of_mgmt m) ?st w1"
    have pos: "0 < MANAGEMENT_BUFFER_SIZE" by (simp add: MANAGEMENT_BUFFER_SIZE_def)
    have bl': "length ?buf = MANAGEMENT_BUFFER_SIZE" "mg_read_len st + length bs < MANAGEMENT_BUFFER_SIZE"
      using bl len pos by simp_all
    have us: "users_wf (managed_users w1)" using w1 by (simp add: mfocus_def)
    have F: "mfocus m ns ?w (mregs x i)" "mgmts ?w m = Some ?st" "managed_users ?w = managed_users w1"
      using mfocus_put(1) [OF conjunct1 [OF w1] _ us, of "Some ?st"] w1 by (simp_all add: put_mgmt.simps)
    have wf: "mgmt_wf ?st" using f(2) bl' by (simp add: mgmt_wf_def)
    have wait: "world_inv ns ?w" if "mg_read_len st + length bs \<noteq> MANAGEMENT_BUFFER_SIZE - 1"
      using munfocus [OF F(1,2) wf] that bl rl(2) by (simp add: mwaits_def)
    have answer: "returns (management_prepare_response ?st (current_metrics ?w) (managed_users ?w)) (\<lambda>(st', us').
        returns (drop_status (selector_set_interest x OP_WRITE
          (put_mgmt (of_mgmt m) st' (?w\<lparr>managed_users := us'\<rparr>)))) (world_inv ns))"
      using bl' len us F(3) by (intro mgmt_answer [OF F(1,2)]) simp_all
    have "array_read ?buf 0 (mg_read_len st + length bs) = Inr (take (mg_read_len st + length bs) ?buf)"
      using bl' by simp
    moreover have "array_write (mg_read_buffer st) (mg_read_len st) bs = Inr ?buf" using bl' len by simp
    ultimately show ?thesis
      using answer wait bs st bl'(1)
      unfolding management_read_def selector_key.simps selector_set_interest_key_eq
      by (auto simp: get_mgmt.simps len got Let_def case_prod_unfold)
  qed
qed

section \<open>Accepting\<close>

lemma mgmt_accepted_inv:
  fixes w w' :: "'k world"
  assumes inv: "world_inv ns w" and at: "registered w (at_fd ns) \<noteq> None" and free: "registered w fd = None"
    and wf: "selector_wf w'" and fr: "sel_frame (snd (alloc_mgmt zero_management_state w)) w'"
    and reg: "registered w' = (registered w)(fd \<mapsto> (OP_READ, management_client_handler, of_mgmt (next_ref w)))"
  shows "world_inv ns w'"
proof -
  let ?m = "next_ref w"
  note f = sel_frame_world [OF fr]
  have w': "clients w' = clients w" "mgmts w' = (mgmts w)(?m \<mapsto> zero_management_state)" "jobs w' = jobs w"
    "threads w' = threads w" "next_ref w' = ?m + 1" "active_client_connections w' = active_client_connections w"
    "current_metrics w' = current_metrics w" "managed_users w' = managed_users w" "io w' = io w"
    "length (fds w') = length (fds w)" "resolution_jobs w' = resolution_jobs w"
    using f by (simp_all add: alloc_mgmt_def)
  have b: "base ns w" and S: "session_inv ns w c" for c using inv by (simp_all add: world_inv_def)
  have own: "owned (registered w') d = (if d = MgmtRef ?m
      then (owned (registered w) d)(fd \<mapsto> (OP_READ, management_client_handler)) else owned (registered w) d)" for d
    using free by (auto simp: reg owned_def fun_eq_iff)
  have "session_inv ns w' c = session_inv ns w c" for c
    using own [of "ClientRef c"] w' by (intro session_inv_cong) simp_all
  moreover have "mgmt_inv w' m" for m
  proof (cases "m = ?m")
    case True
    have "owned (registered w) (MgmtRef ?m) = Map.empty"
      using b fresh_ref(2) [OF inv] by (simp add: base_def mgmt_inv_def)
    then have "owned (registered w') (MgmtRef ?m) = [fd \<mapsto> (OP_READ, management_client_handler)]"
      using own [of "MgmtRef ?m"] by simp
    then show ?thesis
      unfolding True mgmt_inv_def w'(2)
      by (auto simp: mgmt_wf_def zero_management_state_def MANAGEMENT_BUFFER_SIZE_def)
  next
    case False
    then show ?thesis using b own [of "MgmtRef m"] w' by (simp add: base_def mgmt_inv_def)
  qed
  moreover have "selector_inv w'"
    using b wf w' by (auto simp: base_def selector_inv_def reg)
  moreover have "fresh_inv w'" "jobs_inv ns w'" "counters_inv w'" "users_wf (managed_users w')" "resolution_jobs w' = listed ns"
    using b w' by (simp_all add: base_def fresh_inv_def jobs_inv_def counters_inv_def)
  moreover have "listens ns fd = None" using b free guard_unlistened [of ns w fd] by (simp add: base_def)
  then have "guard_ok ns w'" using b at free by (auto simp: base_def guard_ok_def reg)
  ultimately show ?thesis using S by (simp add: world_inv_def base_def)
qed

lemma register_mgmt:
  fixes w :: "'k world"
  assumes inv: "world_inv ns w" and at: "registered w (at_fd ns) \<noteq> None"
  shows "returns (selector_register ok zero_item fd (Some management_client_handler) OP_READ (Some (MgmtRef (next_ref w)))
      (snd (alloc_mgmt zero_management_state w))) (\<lambda>(status, w'). \<exists>w''.
      w'' = (if status \<noteq> SELECTOR_SUCCESS then free_mgmt (Some (MgmtRef (next_ref w))) w' else w')
      \<and> world_inv ns w'' \<and> kern w'' = kern w \<and> registered w'' (at_fd ns) \<noteq> None
      \<and> (status \<noteq> SELECTOR_SUCCESS \<longrightarrow> registered w'' = registered w))"
proof -
  let ?m = "MgmtRef (next_ref w)" and ?w = "snd (alloc_mgmt zero_management_state w)"
  have sel: "selector_inv ?w" using inv by (simp add: world_inv_def base_def alloc_mgmt_def)
  have rw: "registered ?w = registered w" by (simp add: alloc_mgmt_def)
  from sel have "selector_wf ?w" "length (fds ?w) = FD_SETSIZE + 1" by (simp_all add: selector_inv_def)
  from register_at_most [OF this, of ok zero_item fd management_client_handler OP_READ "Some ?m"] show ?thesis
  proof (rule returns_mono, goal_cases)
    case (1 p)
    obtain status w' where p: "p = (status, w')" by (cases p)
    show ?case
    proof (cases "status = SELECTOR_SUCCESS")
      case False
      with 1 p have "w' = ?w" by simp
      with unused_ref_inv(2) [OF inv, of zero_management_state] at False show ?thesis by (simp add: p alloc_mgmt_def)
    next
      case True
      with 1 p have reg: "registered w fd = None" "selector_wf w'" "sel_frame ?w w'"
        "registered w' = (registered w)(fd \<mapsto> (OP_READ, management_client_handler, Some ?m))"
        unfolding rw by simp_all
      have "kern w' = kern w" using sel_frame_world(12) [OF reg(3)] by (simp add: alloc_mgmt_def)
      with mgmt_accepted_inv [OF inv _ _ reg(2,3)] at reg True show ?thesis by (simp add: p)
    qed
  qed
qed

lemma accept_management_loop_inv:
  fixes w :: "'k world"
  assumes os: "posix_ok os"
  shows "world_inv ns w \<Longrightarrow> registered w (at_fd ns) \<noteq> None \<Longrightarrow> os_backlog os (key_fd key) (kern w) < fuel \<Longrightarrow>
    returns (accept_management_loop os fuel key w) (world_inv ns)"
proof (induction fuel arbitrary: w)
  case 0
  then show ?case by simp
next
  case (Suc fuel)
  note inv = Suc.prems(1) and at = Suc.prems(2)
  obtain r w1 where a1: "sys_accept os (key_fd key) w = (r, w1)" by fastforce
  note f1 = os_call_frames(1) [OF os a1, of ns]
  show ?case
  proof (cases r)
    case None
    with a1 f1 inv show ?thesis by simp
  next
    case (Some fd)
    obtain nb w2 where a2: "set_nonblocking os fd w1 = (nb, w2)" by fastforce
    note f2 = os_call_frames(2) [OF os a2, of ns "key_fd key"]
    obtain al w3 where a3: "ask (os_calloc os) w2 = (al, w3)" by fastforce
    note f3 = os_call_frames(3) [OF os a3, of ns "key_fd key"]
    have closed: "returns (accept_management_loop os fuel key (sys_close os fd w')) (world_inv ns)"
      if "world_inv ns w'" "registered w' = registered w" "os_backlog os (key_fd key) (kern w') < fuel"
      for w' :: "'k world"
      using os_call_frames(4) [OF os, of ns fd w' "key_fd key"] that at
      by (intro Suc.IH) simp_all
    have i3: "world_inv ns w2" "world_inv ns w3" "registered w2 = registered w" "registered w3 = registered w"
      "os_backlog os (key_fd key) (kern w2) < fuel" "os_backlog os (key_fd key) (kern w3) < fuel"
      using f1 f2 f3 inv Suc.prems(3) Some by simp_all
    show ?thesis
    proof (cases "nb \<and> al")
      case False
      with closed [OF i3(1,3,5)] closed [OF i3(2,4,6)] show ?thesis by (auto simp: a1 a2 a3 Some)
    next
      case True
      let ?m = "MgmtRef (next_ref w3)"
      have at3: "registered w3 (at_fd ns) \<noteq> None" using i3(4) at by simp
      obtain status w' w'' where r: "selector_register (os_realloc os) zero_item fd (Some management_client_handler) OP_READ
          (Some ?m) (snd (alloc_mgmt zero_management_state w3)) = Inr (status, w')"
        and w'': "w'' = (if status \<noteq> SELECTOR_SUCCESS then free_mgmt (Some ?m) w' else w')"
          "world_inv ns w''" "kern w'' = kern w3" "registered w'' (at_fd ns) \<noteq> None"
          "status \<noteq> SELECTOR_SUCCESS \<longrightarrow> registered w'' = registered w3"
        using register_mgmt [OF i3(2) at3, of "os_realloc os" fd] unfolding returns_iff split_paired_Ex prod.case by blast
      have "returns (accept_management_loop os fuel key (if status \<noteq> SELECTOR_SUCCESS then sys_close os fd w'' else w'')) (world_inv ns)"
        using closed [OF w''(2)] Suc.IH [OF w''(2,4)] w''(3,5) i3(4,6) by simp
      moreover obtain w4 where "alloc_mgmt zero_management_state w3 = (?m, w4)" by (simp add: alloc_mgmt_def)
      ultimately show ?thesis using True r by (auto simp: a1 a2 a3 Some w''(1) split: if_splits)
    qed
  qed
qed

theorem accept_management_inv:
  assumes "posix_ok os" "world_inv ns w" "registered w (at_fd ns) \<noteq> None"
  shows "returns (accept_management_connection os key w) (world_inv ns)"
  unfolding accept_management_connection_def by (rule accept_management_loop_inv [OF assms]) simp

end
