(* ===== verification/Turn.thy ===== *)
theory Turn
  imports Manage Server
begin

text \<open>
  One turn of the server: the selector finds for every ready descriptor a handler that the
  invariant allows to run, the notifications of the resolver reach the sessions that wait for
  them, and no step is a fault.
\<close>

section \<open>The item under way\<close>

definition at_item :: "turn \<Rightarrow> int \<Rightarrow> handler \<Rightarrow> ref option \<Rightarrow> turn" where
  "at_item ns x h d = ns\<lparr>at_fd := x, at_handler := h, at_data := d\<rparr>"

lemma at_item_simps [simp]:
  "at_fd (at_item ns x h d) = x" "at_handler (at_item ns x h d) = h" "at_data (at_item ns x h d) = d"
  "listed (at_item ns x h d) = listed ns" "unhandled (at_item ns x h d) = unhandled ns"
  "listens (at_item ns x h d) = listens ns"
  by (simp_all add: at_item_def)

lemma inv_at_item:
  "world_inv (at_item ns x h d) w \<longleftrightarrow> guard_ok (at_item ns x h d) w
     \<and> (\<forall>y h'. listens ns y = Some h' \<longrightarrow> registered w y = Some (OP_READ, h', None))
     \<and> selector_inv w \<and> (\<forall>m. mgmt_inv w m) \<and> jobs_inv ns w \<and> fresh_inv w \<and> counters_inv w
     \<and> users_wf (managed_users w) \<and> resolution_jobs w = listed ns \<and> (\<forall>c. session_inv ns w c)"
proof -
  have "jobs_inv (at_item ns x h d) w = jobs_inv ns w" "session_inv (at_item ns x h d) w c = session_inv ns w c" for c
    by (simp_all add: jobs_inv_def session_inv_def job_link_def)
  then show ?thesis by (auto simp: world_inv_def base_def guard_ok_def)
qed

lemma registered_negative [simp]: "registered w (-1) = None"
  by (simp add: registered_def)

text \<open>Between two items: \<open>-1\<close> is no descriptor.\<close>

definition quiet_turn :: "turn \<Rightarrow> bool" where
  "quiet_turn ns \<longleftrightarrow> at_fd ns = -1"

lemma inv_enter:
  assumes inv: "world_inv ns w" and reg: "registered w x = Some (i, h, d)"
  shows "world_inv (at_item ns x h d) w"
  using inv reg unfolding inv_at_item by (auto simp: world_inv_def base_def guard_ok_def)

lemma inv_leave:
  assumes inv: "world_inv (at_item ns x h d) w" and q: "quiet_turn ns"
  shows "world_inv ns w"
proof -
  have "ns = at_item ns (-1) (at_handler ns) (at_data ns)" using q by (simp add: quiet_turn_def at_item_def)
  moreover have "world_inv (at_item ns (-1) (at_handler ns) (at_data ns)) w"
    using inv unfolding inv_at_item by (auto simp: guard_ok_def)
  ultimately show ?thesis by simp
qed

section \<open>Whose descriptor it is\<close>

lemma registered_cases [consumes 2, case_names listener client target mgmt]:
  assumes inv: "world_inv ns w" and reg: "registered w x = Some (i, h, d)"
  obtains "d = None" "i = OP_READ" "h = accept_handler \<or> h = management_accept_handler"
    | c st where "d = of_session c" "clients w c = Some st" "h = client_handler" "x = client_fd st"
        "i = client_interest st"
    | c st where "d = of_session c" "clients w c = Some st" "h = target_handler" "x = target_fd st"
        "i = target_interest st" "target_fd st \<noteq> -1"
    | m st where "d = of_mgmt m" "mgmts w m = Some st" "h = management_client_handler"
proof (cases d)
  case None
  have "selector_inv w" using inv by (simp add: world_inv_def base_def)
  with reg None show thesis by (intro that(1)) (auto simp: selector_inv_def)
next
  case (Some r)
  show thesis
  proof (cases r)
    case (ClientRef c)
    have o: "owned (registered w) (ClientRef c) x = Some (i, h)" using reg Some ClientRef by (simp add: ownedD)
    note si = world_inv_session(1) [OF inv, of c]
    have "clients w c \<noteq> None" using si o by (auto simp: session_inv_def)
    then obtain st where st: "clients w c = Some st" by blast
    with si o have "expected_regs st x = Some (i, h)" by (simp add: session_inv_def)
    then consider "x = client_fd st" "i = client_interest st" "h = client_handler"
      | "x = target_fd st" "i = target_interest st" "h = target_handler" "target_fd st \<noteq> -1"
      by (auto simp: expected_regs_def split: if_splits)
    then show thesis using that(2,3) st Some ClientRef by cases auto
  next
    case (MgmtRef m)
    have o: "owned (registered w) (MgmtRef m) x = Some (i, h)" using reg Some MgmtRef by (simp add: ownedD)
    have mi: "mgmt_inv w m" using inv by (simp add: world_inv_def base_def)
    have "mgmts w m \<noteq> None" using mi o by (auto simp: mgmt_inv_def)
    then obtain st where st: "mgmts w m = Some st" by blast
    with mi o have "h = management_client_handler" by (auto simp: mgmt_inv_def split: if_splits)
    then show thesis using that(4) st Some MgmtRef by blast
  qed
qed

section \<open>Calling the handlers\<close>

text \<open>A descriptor that waits to read has a read handler, which keeps the invariant; so to write.\<close>

lemma read_handler_inv:
  fixes w :: "'k world"
  assumes os: "posix_ok os" and inv: "world_inv ns w" and reg: "registered w x = Some (i, h, d)"
    and at: "at_fd ns = x" and due: "wants i OP_READ"
  shows "\<exists>cb. handle_read os h = Some cb \<and> returns (cb \<lparr>key_fd = x, key_data = d\<rparr> w) (world_inv ns)"
  using inv reg
proof (cases rule: registered_cases)
  case listener
  have "registered w (at_fd ns) \<noteq> None" using at reg by simp
  with accept_connection_inv [OF os inv] accept_management_inv [OF os inv] listener(3) show ?thesis by auto
next
  case (client c st)
  with client_read_inv [OF os inv client(2), of] due at show ?thesis by simp
next
  case (target c st)
  have "relay_started st"
    using due target(5) by (auto simp: target_interest_def split: if_splits)
  moreover have "t2c_len st = 0"
    using due target(5) \<open>relay_started st\<close>
    by (auto simp: target_interest_def target_relay_interest_def wants_def OP_NOOP_def OP_READ_def OP_WRITE_def
        split: if_splits)
  ultimately show ?thesis using target_read_inv [OF os inv target(2)] target by simp
next
  case (mgmt m st)
  with management_read_inv [OF os inv mgmt(2), of x i h] reg due show ?thesis by simp
qed

lemma write_handler_inv:
  fixes w :: "'k world"
  assumes os: "posix_ok os" and inv: "world_inv ns w" and reg: "registered w x = Some (i, h, d)"
    and at: "at_handler ns = h" "at_data ns = d" and due: "wants i OP_WRITE"
  shows "\<exists>cb. handle_write os h = Some cb \<and> returns (cb \<lparr>key_fd = x, key_data = d\<rparr> w) (world_inv ns)"
  using inv reg
proof (cases rule: registered_cases)
  case listener
  with due show ?thesis by simp
next
  case (client c st)
  have "0 < write_len st \<or> relay_started st"
    using due client(5) by (auto simp: client_interest_def split: if_splits)
  with client_write_inv [OF os inv client(2)] client show ?thesis by simp
next
  case (target c st)
  consider "stage st = CLIENT_STAGE_CONNECTING" | "relay_started st"
    using due target(5) by (auto simp: target_interest_def split: if_splits)
  then show ?thesis
    using target_write_connecting_inv [OF inv target(2)] target_write_relay [OF os inv target(2)] target at
    by cases simp_all
next
  case (mgmt m st)
  with management_write_inv [OF os inv mgmt(2), of x i h] reg show ?thesis by simp
qed

section \<open>The iteration\<close>

lemma inv_table:
  assumes "world_inv ns w"
  shows "selector_wf w" "length (fds w) = FD_SETSIZE + 1"
  using assms by (simp_all add: world_inv_def base_def selector_inv_def)

lemma item_of_registered:
  assumes "selector_wf w" "registered w (int i) = Some (j, h, d)"
  shows "i < length (fds w)" "ITEM_USED (fds w ! i)" "item_fd (fds w ! i) = int i"
    "item_handler (fds w ! i) = Some h" "item_interest (fds w ! i) = j" "item_data (fds w ! i) = d"
  using registeredD [OF assms] by simp_all

text \<open>The two halves of \<open>handle_item\<close>, for an item that is in use.\<close>

lemma item_read_inv:
  fixes w :: "'k world"
  assumes os: "posix_ok os" and inv: "world_inv ns w" and reg: "registered w (int i) = Some (j, h, d)"
  defines "key \<equiv> \<lparr>key_fd = int i, key_data = d\<rparr> :: ref selector_key"
  shows "returns (if int i \<in> slave_r w \<and> wants OP_READ j
      then item_callback (handle_read os) (fds w ! i) AssertFailed key w else Inr w)
    (world_inv (at_item ns (int i) h d))"
proof (cases "wants OP_READ j")
  case True
  note it = item_of_registered [OF inv_table(1) [OF inv] reg]
  have inv0: "world_inv (at_item ns (int i) h d) w" by (rule inv_enter [OF inv reg])
  from True have "wants j OP_READ" by (simp add: wants_def and.commute)
  from read_handler_inv [OF os inv0 reg _ this] inv0 show ?thesis by (auto simp: item_callback_def it key_def)
next
  case False
  with inv_enter [OF inv reg] show ?thesis by simp
qed

lemma item_write_inv:
  fixes w :: "'k world"
  assumes os: "posix_ok os" and inv: "world_inv (at_item ns (int i) h d) w" and q: "quiet_turn ns"
    and l: "i < length (fds w)"
  defines "key \<equiv> \<lparr>key_fd = int i, key_data = d\<rparr> :: ref selector_key"
  shows "returns (if int i \<in> slave_w w \<and> wants OP_WRITE (item_interest (fds w ! i))
      then item_callback (handle_write os) (fds w ! i) AssertFailed key w else Inr w) (world_inv ns)"
proof (cases "wants OP_WRITE (item_interest (fds w ! i))")
  case False
  with inv_leave [OF inv q] show ?thesis by simp
next
  case True
  then have due: "wants (item_interest (fds w ! i)) OP_WRITE" by (simp add: wants_def and.commute)
  have "ITEM_USED (fds w ! i)"
  proof (rule ccontr)
    assume "\<not> ITEM_USED (fds w ! i)"
    from selector_wf_unused [OF inv_table(1) [OF inv] l this] due show False by simp
  qed
  then have "registered w (int i) \<noteq> None" using l by (simp add: registered_def)
  moreover have "guard_ok (at_item ns (int i) h d) w" using inv by (simp add: world_inv_def base_def)
  ultimately obtain j where reg: "registered w (int i) = Some (j, h, d)" by (auto simp: guard_ok_def)
  note it = item_of_registered [OF inv_table(1) [OF inv] reg]
  obtain cb where cb: "handle_write os h = Some cb" "returns (cb key w) (world_inv (at_item ns (int i) h d))"
    using write_handler_inv [OF os inv reg] due it(5) by (auto simp: key_def)
  have "returns (cb key w) (world_inv ns)" by (rule returns_mono [OF cb(2)]) (rule inv_leave [OF _ q])
  with cb(1) inv_leave [OF inv q] show ?thesis by (simp add: item_callback_def it)
qed

lemma handle_item_inv:
  fixes w :: "'k world"
  assumes os: "posix_ok os" and inv: "world_inv ns w" and q: "quiet_turn ns" and i: "i < length (fds w)"
  shows "returns (handle_item (handle_read os) (handle_write os) i w) (world_inv ns)"
proof (cases "registered w (int i)")
  case None
  then have "\<not> ITEM_USED (fds w ! i)" using i by (simp add: registered_def split: if_splits)
  then show ?thesis using i inv by (simp add: handle_item_def)
next
  case (Some r)
  then obtain j h d where reg: "registered w (int i) = Some (j, h, d)" by (cases r) simp
  note it = item_of_registered [OF inv_table(1) [OF inv] reg]
  obtain w1 where r1: "(if int i \<in> slave_r w \<and> wants OP_READ j
      then item_callback (handle_read os) (fds w ! i) AssertFailed \<lparr>key_fd = int i, key_data = d\<rparr> w else Inr w) = Inr w1"
    and inv1: "world_inv (at_item ns (int i) h d) w1"
    using item_read_inv [OF os inv reg] by (auto simp: returns_iff)
  have l1: "i < length (fds w1)" using i inv_table(2) [OF inv] inv_table(2) [OF inv1] by simp
  from item_write_inv [OF os inv1 q l1] r1 l1 it show ?thesis by (simp add: handle_item_def Let_def)
qed

lemma handle_items_inv:
  fixes w :: "'k world"
  assumes os: "posix_ok os" and q: "quiet_turn ns"
  shows "world_inv ns w \<Longrightarrow> (\<forall>i \<in> set is. i \<le> FD_SETSIZE) \<Longrightarrow>
    returns (handle_items (handle_read os) (handle_write os) is w) (world_inv ns)"
proof (induction "is" arbitrary: w)
  case Nil
  then show ?case by simp
next
  case (Cons i "is")
  have "i < length (fds w)" using Cons.prems inv_table(2) [OF Cons.prems(1)] by simp
  from handle_item_inv [OF os Cons.prems(1) q this] show ?case
    using Cons.IH Cons.prems(2) by (auto elim!: returns_mono)
qed

lemma handle_iteration_inv:
  fixes w :: "'k world"
  assumes os: "posix_ok os" and q: "quiet_turn ns" and inv: "world_inv ns w"
  shows "returns (handle_iteration (handle_read os) (handle_write os) w) (world_inv ns)"
  unfolding handle_iteration_def
  by (rule handle_items_inv [OF os q inv])
    (use selector_wf_max(2) [OF inv_table(1) [OF inv]] inv_table(2) [OF inv] in auto)

section \<open>The notifications\<close>

lemma handle_jobs_inv:
  fixes w :: "'k world"
  shows "world_inv ns w \<Longrightarrow> quiet_turn ns \<Longrightarrow> unhandled ns = js \<Longrightarrow>
    returns (handle_jobs (handle_block os) js w) (world_inv (ns\<lparr>unhandled := []\<rparr>))"
proof (induction js arbitrary: w ns)
  case Nil
  then have "ns\<lparr>unhandled := []\<rparr> = ns" by simp
  then show ?case using Nil by (simp only: handle_jobs.simps returns_simps)
next
  case (Cons x js)
  note inv = Cons.prems(1)
  have "x \<in> set (unhandled ns)" using Cons.prems(3) by simp
  from notified_session [OF inv this] obtain c st j job where c: "clients w c = Some st" "client_fd st = x"
    and "stage st = CLIENT_STAGE_RESOLVING" "resolver_job st = Some j" "jobs w j = Some job" "job_done job"
      "job_state job = Some c" "job_client_fd job = x" "threads w j = None" .
  from session_registered(1) [OF world_inv_session(1) [OF inv] c(1)] c(2)
  have reg: "registered w x = Some (client_interest st, client_handler, of_session c)" by simp
  note R = registeredD [OF inv_table(1) [OF inv] reg]
  let ?ns = "at_item ns x client_handler (of_session c)"
  have "unhandled ?ns = x # js" using Cons.prems(3) by simp
  from on_resolve_inv [OF inv_enter [OF inv reg] this _ reg, of os]
  have "returns (target_connection_on_resolve os \<lparr>key_fd = x, key_data = of_session c\<rparr> w)
    (world_inv (?ns\<lparr>unhandled := js\<rparr>))" by simp
  moreover have "?ns\<lparr>unhandled := js\<rparr> = at_item (ns\<lparr>unhandled := js\<rparr>) x client_handler (of_session c)"
    by (simp add: at_item_def)
  ultimately have "returns (target_connection_on_resolve os \<lparr>key_fd = x, key_data = of_session c\<rparr> w)
    (world_inv (ns\<lparr>unhandled := js\<rparr>))"
    using Cons.prems(2) by (auto elim!: returns_mono intro: inv_leave simp: quiet_turn_def)
  moreover have "quiet_turn (ns\<lparr>unhandled := js\<rparr>)" using Cons.prems(2) by (simp add: quiet_turn_def)
  ultimately have "returns (target_connection_on_resolve os \<lparr>key_fd = x, key_data = of_session c\<rparr> w)
    (\<lambda>w'. returns (handle_jobs (handle_block os) js w') (world_inv (ns\<lparr>unhandled := []\<rparr>)))"
    using Cons.IH [of "ns\<lparr>unhandled := js\<rparr>"] by (auto elim!: returns_mono)
  then show ?case using R by (simp add: item_callback_def)
qed

definition idle :: "(int \<Rightarrow> handler option) \<Rightarrow> int list \<Rightarrow> turn" where
  "idle ls js = \<lparr>listed = js, unhandled = js, listens = ls, at_fd = -1, at_handler = accept_handler, at_data = None\<rparr>"

text \<open>The invariant between two steps of the program.\<close>

definition between :: "(int \<Rightarrow> handler option) \<Rightarrow> 'k world \<Rightarrow> bool" where
  "between ls w \<longleftrightarrow> world_inv (idle ls (resolution_jobs w)) w"

lemma between_idle: "world_inv (idle ls js) w \<Longrightarrow> between ls w"
proof -
  assume inv: "world_inv (idle ls js) w"
  then have "resolution_jobs w = js" by (simp add: world_inv_def base_def idle_def)
  with inv show ?thesis by (simp add: between_def)
qed

lemma inv_idle_jobs:
  assumes "world_inv (\<lparr>listed = js, unhandled = [], listens = ls, at_fd = -1, at_handler = accept_handler, at_data = None\<rparr>) w"
  shows "between ls (w\<lparr>resolution_jobs := []\<rparr>)"
proof -
  let ?ns = "\<lparr>listed = js, unhandled = [], listens = ls, at_fd = -1, at_handler = accept_handler, at_data = None\<rparr>"
  let ?w = "w\<lparr>resolution_jobs := []\<rparr>"
  have "session_inv (idle ls []) ?w c = session_inv ?ns w c" for c
    by (simp add: session_inv_def job_link_def streams_ok_def idle_def)
  moreover have "mgmt_inv ?w m = mgmt_inv w m" for m by (simp add: mgmt_inv_def)
  moreover have "jobs_inv (idle ls []) ?w = jobs_inv ?ns w" "fresh_inv ?w = fresh_inv w" "counters_inv ?w = counters_inv w"
    "guard_ok (idle ls []) ?w = guard_ok ?ns w"
    by (simp_all add: jobs_inv_def fresh_inv_def counters_inv_def guard_ok_def idle_def)
  ultimately have "world_inv (idle ls []) ?w"
    using assms by (simp add: world_inv_def base_def idle_def)
  then show ?thesis by (rule between_idle)
qed

lemma notifications_inv:
  fixes w :: "'k world"
  assumes inv: "world_inv (idle ls js) w"
  shows "returns (handle_block_notifications (handle_block os) w) (between ls)"
proof -
  have js: "resolution_jobs w = js" using inv by (simp add: world_inv_def base_def idle_def)
  have "quiet_turn (idle ls js)" "unhandled (idle ls js) = js" by (simp_all add: quiet_turn_def idle_def)
  from handle_jobs_inv [OF inv this, of os] show ?thesis
    unfolding handle_block_notifications_def js
    by (auto elim!: returns_mono intro!: inv_idle_jobs simp: idle_def)
qed

theorem selector_select_inv:
  fixes w :: "'k world"
  assumes os: "posix_ok os" and inv: "between ls w"
  shows "returns (selector_select (handle_read os) (handle_write os) (handle_block os) ready w) (\<lambda>(ret, w'). between ls w')"
proof -
  let ?js = "resolution_jobs w"
  have i: "world_inv (idle ls ?js) (w\<lparr>slave_r := a, slave_w := b\<rparr>)" for a b
    using inv by (simp add: between_def)
  have q: "quiet_turn (idle ls ?js)" by (simp add: quiet_turn_def idle_def)
  show ?thesis
  proof (cases ready)
    case (Inl err)
    have "returns (handle_block_notifications (handle_block os) (w\<lparr>slave_r := master_r w, slave_w := master_w w\<rparr>)) (between ls)"
      by (rule notifications_inv [OF i])
    moreover have "between ls (w\<lparr>slave_r := master_r w, slave_w := master_w w\<rparr>)" by (rule between_idle [OF i])
    ultimately show ?thesis by (simp add: selector_select_def Let_def Inl)
  next
    case (Inr rs)
    obtain a b where rs: "rs = (a, b)" by (cases rs)
    have "returns (handle_iteration (handle_read os) (handle_write os) (w\<lparr>slave_r := a, slave_w := b\<rparr>))
        (\<lambda>w. returns (handle_block_notifications (handle_block os) w) (between ls))"
      by (rule returns_mono [OF handle_iteration_inv [OF os q i]]) (rule notifications_inv)
    then show ?thesis by (simp add: selector_select_def Let_def Inr rs)
  qed
qed

end
