(* ===== verification/Runs.thy ===== *)
theory Runs
  imports Turn
begin

text \<open>
  The program as a step relation: turns of the main loop, the two steps of each resolver thread
  and whatever the operating system does in between. Every state it can reach satisfies the
  invariant, and from none of them does a step go wrong.
\<close>

section \<open>The resolver's threads\<close>

lemma session_inv_jobs:
  assumes "session_inv ns w c" and "clients w' = clients w" "registered w' = registered w" "io w' = io w"
    and "\<And>oj fd. job_link ns w c oj fd \<Longrightarrow> job_link ns' w' c oj fd"
  shows "session_inv ns' w' c"
  using assms by (simp add: session_inv_def streams_ok_def)

lemma waiting_session:
  assumes inv: "world_inv ns w" and job: "jobs w j = Some job" "job_state job = Some c"
  obtains st where "clients w c = Some st" "resolver_job st = Some j" "client_fd st = job_client_fd job"
    "stage st = CLIENT_STAGE_RESOLVING"
proof -
  note si = world_inv_session(1) [OF inv, of c]
  have "clients w c \<noteq> None"
  proof
    assume "clients w c = None"
    with si have "job_link ns w c None 0" by (simp add: session_inv_def)
    with job show False unfolding job_link_def by blast
  qed
  then obtain st where st: "clients w c = Some st" by blast
  with si have link: "job_link ns w c (resolver_job st) (client_fd st)" and wf: "session_wf st"
    by (simp_all add: session_inv_def)
  from link job have rj: "resolver_job st = Some j" unfolding job_link_def by blast
  with link job obtain jb where "jobs w j = Some jb" "job_client_fd jb = client_fd st"
    unfolding job_link_def by blast
  moreover have "stage st = CLIENT_STAGE_RESOLVING" using wf rj by (auto simp: session_wf_def stage_ok_def)
  ultimately show thesis using that st rj job by simp
qed

lemma job_link_done:
  assumes link: "job_link ns w c oj fd" and job: "jobs w j = Some job"
    and job': "job_state job' = job_state job" "job_client_fd job' = job_client_fd job" "job_done job'"
  shows "job_link ns (w\<lparr>jobs := (jobs w)(j \<mapsto> job'), threads := (threads w)(j \<mapsto> Notifying (job_client_fd job))\<rparr>) c oj fd"
proof -
  let ?w = "w\<lparr>jobs := (jobs w)(j \<mapsto> job'), threads := (threads w)(j \<mapsto> Notifying (job_client_fd job))\<rparr>"
  have "oj = Some i" if "jobs ?w i = Some jb" "job_state jb = Some c" for i jb
    using that link job job'(1) unfolding job_link_def by (cases "i = j") auto
  moreover have "\<exists>jb. jobs ?w i = Some jb \<and> job_state jb = Some c \<and> job_client_fd jb = fd
      \<and> (if job_done jb then threads ?w i = Some (Notifying fd) \<or> (threads ?w i = None \<and> fd \<in> set (unhandled ns))
         else threads ?w i = Some Resolving)" if "oj = Some i" for i
  proof -
    from link that obtain jb where jb: "jobs w i = Some jb" "job_state jb = Some c" "job_client_fd jb = fd"
      "if job_done jb then threads w i = Some (Notifying fd) \<or> (threads w i = None \<and> fd \<in> set (unhandled ns))
         else threads w i = Some Resolving"
      unfolding job_link_def by blast
    show ?thesis
    proof (cases "i = j")
      case True
      with jb job job' show ?thesis by (intro exI [of _ job']) auto
    next
      case False
      with jb show ?thesis by (intro exI [of _ jb]) auto
    qed
  qed
  ultimately show ?thesis unfolding job_link_def by blast
qed

lemma job_link_freed:
  assumes link: "job_link ns w c oj fd" and job: "jobs w j = Some job" "job_state job = None"
  shows "job_link ns (w\<lparr>jobs := (jobs w)(j := None), threads := (threads w)(j := None)\<rparr>) c oj fd"
proof -
  let ?w = "w\<lparr>jobs := (jobs w)(j := None), threads := (threads w)(j := None)\<rparr>"
  have "oj = Some i" if "jobs ?w i = Some jb" "job_state jb = Some c" for i jb
    using that link unfolding job_link_def by (cases "i = j") auto
  moreover have "\<exists>jb. jobs ?w i = Some jb \<and> job_state jb = Some c \<and> job_client_fd jb = fd
      \<and> (if job_done jb then threads ?w i = Some (Notifying fd) \<or> (threads ?w i = None \<and> fd \<in> set (unhandled ns))
         else threads ?w i = Some Resolving)" if "oj = Some i" for i
  proof -
    from link that obtain jb where jb: "jobs w i = Some jb" "job_state jb = Some c" "job_client_fd jb = fd"
      "if job_done jb then threads w i = Some (Notifying fd) \<or> (threads w i = None \<and> fd \<in> set (unhandled ns))
         else threads w i = Some Resolving"
      unfolding job_link_def by blast
    have "i \<noteq> j" using jb job by auto
    with jb show ?thesis by (intro exI [of _ jb]) auto
  qed
  ultimately show ?thesis unfolding job_link_def by blast
qed

lemma resolve_target_inv:
  fixes w :: "'k world"
  assumes inv: "world_inv ns w" and th: "threads w j = Some Resolving"
  shows "returns (resolve_target os j w) (world_inv ns)"
proof -
  have b: "base ns w" using inv by (simp add: world_inv_def)
  then have J: "jobs_inv ns w" by (simp add: base_def)
  from J th obtain job where job: "jobs w j = Some job" "\<not> job_done job" unfolding jobs_inv_def by blast
  obtain sr k where k: "os_getaddrinfo os (job_host job) (job_port job) (kern w) = (sr, k)" by fastforce
  obtain status result where sr: "sr = (status, result)" by (cases sr)
  let ?job = "job\<lparr>job_result := result, job_status := status, job_done := True\<rparr>"
  let ?v = "w\<lparr>kern := k\<rparr>"
  have inv': "world_inv ns ?v" using inv by simp
  have jv: "jobs ?v j = Some job" "threads ?v = threads w" using job by simp_all
  show ?thesis
  proof (cases "job_state job")
    case (Some c)
    let ?w = "?v\<lparr>jobs := (jobs ?v)(j \<mapsto> ?job), threads := (threads ?v)(j \<mapsto> Notifying (job_client_fd job))\<rparr>"
    have "session_inv ns ?w c'" for c'
    proof (rule session_inv_jobs [OF world_inv_session(1) [OF inv']])
      show "job_link ns ?w c' oj fd" if "job_link ns ?v c' oj fd" for oj fd
        by (rule job_link_done [OF that jv(1)]) simp_all
    qed simp_all
    moreover have "jobs_inv ns ?w"
      using J Some th unfolding jobs_inv_def
      by (simp split: if_splits) (metis option.distinct(1) thread.distinct(1) option.inject)
    moreover have "fresh_inv ?w"
      using b job th by (auto simp: base_def fresh_inv_def)
    moreover have "mgmt_inv ?w m = mgmt_inv w m" "guard_ok ns ?w = guard_ok ns w" "counters_inv ?w = counters_inv w" for m
      by (simp_all add: mgmt_inv_def guard_ok_def counters_inv_def)
    ultimately have "world_inv ns ?w" using b by (simp add: world_inv_def base_def)
    then show ?thesis
      using job Some by (simp add: resolve_target_def get_job_def ask_def k sr)
  next
    case None
    let ?w = "?v\<lparr>jobs := (jobs ?v)(j := None), threads := (threads ?v)(j := None)\<rparr>"
    have "session_inv ns ?w c'" for c'
    proof (rule session_inv_jobs [OF world_inv_session(1) [OF inv']])
      show "job_link ns ?w c' oj fd" if "job_link ns ?v c' oj fd" for oj fd
        by (rule job_link_freed [OF that jv(1) None])
    qed simp_all
    moreover have "jobs_inv ns ?w"
    proof -
      have "\<exists>i jb. jobs ?w i = Some jb \<and> job_done jb \<and> job_state jb \<noteq> None \<and> job_client_fd jb = fd \<and> threads ?w i = None"
        if "fd \<in> set (unhandled ns)" for fd
      proof -
        from J that obtain i jb where "jobs w i = Some jb" "job_done jb" "job_state jb \<noteq> None" "job_client_fd jb = fd"
          "threads w i = None" unfolding jobs_inv_def by blast
        moreover from this job have "i \<noteq> j" by auto
        ultimately show ?thesis by (intro exI [of _ i] exI [of _ jb]) simp
      qed
      with J show ?thesis unfolding jobs_inv_def by simp
    qed
    moreover have "fresh_inv ?w" using b by (auto simp: base_def fresh_inv_def)
    moreover have "mgmt_inv ?w m = mgmt_inv w m" "guard_ok ns ?w = guard_ok ns w" "counters_inv ?w = counters_inv w" for m
      by (simp_all add: mgmt_inv_def guard_ok_def counters_inv_def)
    ultimately have "world_inv ns ?w" using b by (simp add: world_inv_def base_def)
    then show ?thesis
      using job None by (simp add: resolve_target_def get_job_def ask_def k sr)
  qed
qed

text \<open>The notification joins the list, in which no other one is for the same descriptor.\<close>

lemma jobs_inv_notify:
  assumes J: "jobs_inv (idle ls js) w" and th: "threads w j = Some (Notifying fd)" and fresh: "fd \<notin> set js"
    and job: "jobs w j = Some job" "job_done job" "job_state job \<noteq> None" "job_client_fd job = fd"
  shows "jobs_inv (idle ls (fd # js)) (w\<lparr>resolution_jobs := rs, threads := (threads w)(j := None)\<rparr>)"
proof -
  let ?w = "w\<lparr>resolution_jobs := rs, threads := (threads w)(j := None)\<rparr>"
  have un: "unhandled (idle ls js) = js" "unhandled (idle ls (fd # js)) = fd # js" by (simp_all add: idle_def)
  have "\<exists>i jb. jobs ?w i = Some jb \<and> job_done jb \<and> job_state jb \<noteq> None \<and> job_client_fd jb = x \<and> threads ?w i = None"
    if "x \<in> set (fd # js)" for x
  proof (cases "x = fd")
    case True
    with job show ?thesis by (intro exI [of _ j] exI [of _ job]) simp
  next
    case False
    with that J obtain i jb where "jobs w i = Some jb" "job_done jb" "job_state jb \<noteq> None" "job_client_fd jb = x"
      "threads w i = None" unfolding jobs_inv_def un by auto
    then show ?thesis by (intro exI [of _ i] exI [of _ jb]) simp
  qed
  moreover have "\<not> job_done jb \<and> threads ?w i = Some Resolving" if "jobs ?w i = Some jb" "job_state jb = None" for i jb
    using that J job th unfolding jobs_inv_def by (cases "i = j") auto
  ultimately show ?thesis using J fresh unfolding jobs_inv_def un by simp
qed

lemma job_link_notify:
  assumes link: "job_link (idle ls js) w c' oj x" and job: "jobs w j = Some job" "job_done job" "job_client_fd job = fd"
  shows "job_link (idle ls (fd # js)) (w\<lparr>resolution_jobs := rs, threads := (threads w)(j := None)\<rparr>) c' oj x"
proof -
  let ?w = "w\<lparr>resolution_jobs := rs, threads := (threads w)(j := None)\<rparr>"
  have un: "unhandled (idle ls js) = js" "unhandled (idle ls (fd # js)) = fd # js" by (simp_all add: idle_def)
  have "oj = Some i" if "jobs ?w i = Some jb" "job_state jb = Some c'" for i jb
    using that link unfolding job_link_def by simp
  moreover have "\<exists>jb. jobs ?w i = Some jb \<and> job_state jb = Some c' \<and> job_client_fd jb = x
      \<and> (if job_done jb then threads ?w i = Some (Notifying x) \<or> (threads ?w i = None \<and> x \<in> set (unhandled (idle ls (fd # js))))
         else threads ?w i = Some Resolving)" if "oj = Some i" for i
  proof -
    from link that obtain jb where jb: "jobs w i = Some jb" "job_state jb = Some c'" "job_client_fd jb = x"
      "if job_done jb then threads w i = Some (Notifying x) \<or> (threads w i = None \<and> x \<in> set (unhandled (idle ls js)))
         else threads w i = Some Resolving"
      unfolding job_link_def by blast
    with job show ?thesis by (intro exI [of _ jb]) (cases "i = j"; auto simp: un)
  qed
  ultimately show ?thesis unfolding job_link_def by blast
qed

lemma resolve_notify_inv:
  fixes w :: "'k world"
  assumes inv: "world_inv (idle ls js) w" and th: "threads w j = Some (Notifying fd)"
  shows "world_inv (idle ls (fd # js)) (resolve_notify True j fd w)"
proof -
  let ?w = "w\<lparr>resolution_jobs := fd # resolution_jobs w, threads := (threads w)(j := None)\<rparr>"
  let ?ns = "idle ls js" and ?ns' = "idle ls (fd # js)"
  have b: "base ?ns w" using inv by (simp add: world_inv_def)
  then have J: "jobs_inv ?ns w" by (simp add: base_def)
  have un: "unhandled ?ns = js" "listed ?ns' = fd # js" "listed ?ns = js" by (simp_all add: idle_def)
  from J th obtain job where job: "jobs w j = Some job" "job_done job" "job_state job \<noteq> None" "job_client_fd job = fd"
    unfolding jobs_inv_def by blast
  then obtain c where c: "job_state job = Some c" by blast
  from waiting_session [OF inv job(1) c] obtain st where st: "clients w c = Some st" "resolver_job st = Some j"
    "client_fd st = fd" using job(4) by metis
  have fresh: "fd \<notin> set js"
  proof
    assume "fd \<in> set js"
    then have "fd \<in> set (unhandled ?ns)" by (simp add: un)
    from notified_session [OF inv this] obtain c2 st2 j2 where 2: "clients w c2 = Some st2" "client_fd st2 = fd"
      "resolver_job st2 = Some j2" and t2: "threads w j2 = None" by metis
    have "c2 = c" using other_descriptor [OF inv st(1) 2(1)] 2(2) st(3) by auto
    with 2 st t2 th show False by simp
  qed
  have "session_inv ?ns' ?w c'" for c'
    by (rule session_inv_jobs [OF world_inv_session(1) [OF inv]]) (simp_all add: job_link_notify [OF _ job(1,2,4)])
  moreover have "jobs_inv ?ns' ?w" by (rule jobs_inv_notify [OF J th fresh job])
  moreover have "fresh_inv ?w" using b by (auto simp: base_def fresh_inv_def)
  moreover have "mgmt_inv ?w m = mgmt_inv w m" "guard_ok ?ns' ?w = guard_ok ?ns w" "counters_inv ?w = counters_inv w" for m
    by (simp_all add: mgmt_inv_def guard_ok_def counters_inv_def idle_def)
  ultimately have "world_inv ?ns' ?w" using b by (simp add: world_inv_def base_def un)
  then show ?thesis by (simp add: resolve_notify_def selector_notify_block_def)
qed

section \<open>The listening sockets\<close>

lemma owned_listener:
  assumes "R x = None \<or> (\<exists>i h. R x = Some (i, h, None))" "r = None \<or> (\<exists>i h. r = Some (i, h, None))"
  shows "owned (R(x := r)) d = owned R d"
  using assms by (auto simp: owned_def fun_eq_iff split: option.splits)

lemma inv_listener:
  fixes w w' :: "'k world"
  assumes inv: "world_inv (idle ls js) w" and wf: "selector_wf w'" and fr: "sel_frame w w'"
    and reg: "registered w' = (registered w)(x := r)"
    and old: "registered w x = None \<or> (\<exists>i h. registered w x = Some (i, h, None))"
    and new: "r = None \<and> ls' = ls(x := None) \<or> (\<exists>h. r = Some (OP_READ, h, None) \<and> ls' = ls(x \<mapsto> h)
        \<and> (h = accept_handler \<or> h = management_accept_handler))"
  shows "world_inv (idle ls' js) w'"
proof -
  note f = sel_frame_world [OF fr]
  have b: "base (idle ls js) w" using inv by (simp add: world_inv_def)
  have own: "owned (registered w') d = owned (registered w) d" for d
    unfolding reg by (rule owned_listener) (use old new in auto)
  have "session_inv (idle ls' js) w' c = session_inv (idle ls js) w c" for c
    using f own by (simp add: session_inv_def job_link_def streams_ok_def idle_def)
  moreover have "mgmt_inv w' m = mgmt_inv w m" "jobs_inv (idle ls' js) w' = jobs_inv (idle ls js) w"
    "fresh_inv w' = fresh_inv w" "counters_inv w' = counters_inv w" for m
    using f own by (simp_all add: mgmt_inv_def jobs_inv_def fresh_inv_def counters_inv_def idle_def)
  moreover have "selector_inv w'"
    using b wf f new by (auto simp: base_def selector_inv_def reg)
  moreover have "x = -1 \<Longrightarrow> r = None" using registered_negative [of w'] unfolding reg by simp
  then have "guard_ok (idle ls' js) w'"
    using b new by (auto simp: base_def guard_ok_def idle_def reg)
  ultimately show ?thesis using inv b f by (simp add: world_inv_def base_def idle_def)
qed

lemma unregister_listener:
  fixes w :: "'k world"
  assumes inv: "between ls w" and x: "ls x = Some h"
  shows "returns (drop_status (selector_unregister_fd (handle_close os) x w)) (between (ls(x := None)))"
proof -
  have i: "world_inv (idle ls (resolution_jobs w)) w" using inv by (simp add: between_def)
  then have b: "base (idle ls (resolution_jobs w)) w" by (simp add: world_inv_def)
  then have reg: "registered w x = Some (OP_READ, h, None)" using x by (simp add: base_def guard_ok_def idle_def)
  have wf: "selector_wf w" using inv_table(1) [OF i] .
  have "h = accept_handler \<or> h = management_accept_handler" using b reg by (auto simp: base_def selector_inv_def)
  then have cb: "handle_close os h = None" by auto
  from selector_clear_registered [OF wf, of x] reg
  obtain w' where w': "selector_clear x w = Inr w'" "selector_wf w'" "registered w' = (registered w)(x := None)"
    "sel_frame w w'" by (auto simp: returns_iff)
  have "world_inv (idle (ls(x := None)) (resolution_jobs w)) w'"
    by (rule inv_listener [OF i w'(2,4,3)]) (use reg in auto)
  then show ?thesis
    unfolding selector_unregister_fd_eq [OF wf reg] cb by (simp add: drop_status_def w'(1) between_idle)
qed

lemma register_listener:
  fixes w :: "'k world"
  assumes inv: "between ls w" and h: "h = accept_handler \<or> h = management_accept_handler"
  shows "returns (selector_register ok junk x (Some h) OP_READ None w) (\<lambda>(status, w').
    if status = SELECTOR_SUCCESS then between (ls(x \<mapsto> h)) w' \<and> ls x = None else w' = w)"
proof -
  have i: "world_inv (idle ls (resolution_jobs w)) w" using inv by (simp add: between_def)
  then have b: "guard_ok (idle ls (resolution_jobs w)) w" by (simp add: world_inv_def base_def)
  show ?thesis
  proof (rule returns_mono [OF register_at_most [OF inv_table [OF i], of ok junk x h OP_READ None]], goal_cases)
    case (1 p)
    obtain status w' where p: "p = (status, w')" by (cases p)
    show ?case
    proof (cases "status = SELECTOR_SUCCESS")
      case False
      with 1 p show ?thesis by simp
    next
      case True
      with 1 p have r: "registered w x = None" "selector_wf w'" "sel_frame w w'"
        "registered w' = (registered w)(x \<mapsto> (OP_READ, h, None))" by simp_all
      have "world_inv (idle (ls(x \<mapsto> h)) (resolution_jobs w)) w'"
        by (rule inv_listener [OF i r(2,3,4)]) (use r(1) h in auto)
      moreover have "ls x = None" using guard_unlistened [OF b r(1)] by (simp add: idle_def)
      ultimately show ?thesis using p True by (simp add: between_idle)
    qed
  qed
qed

section \<open>The server's invariant\<close>

definition listening :: "'k server \<Rightarrow> int \<Rightarrow> handler option" where
  "listening sv = (if sv_stopped sv then Map.empty
     else [sv_server_fd sv \<mapsto> accept_handler, sv_management_fd sv \<mapsto> management_accept_handler])"

lemma listening_world [simp]: "listening (sv\<lparr>sv_world := w\<rparr>) = listening sv"
  by (simp add: listening_def)

definition server_inv :: "'k server \<Rightarrow> bool" where
  "server_inv sv \<longleftrightarrow> sv_server_fd sv \<noteq> sv_management_fd sv \<and> between (listening sv) (sv_world sv)"

lemma between_close [simp]: "between ls (sys_close os x w) = between ls w"
  by (simp add: between_def sys_close_def)

lemma stop_accepting_inv:
  assumes ne: "sv_server_fd sv \<noteq> sv_management_fd sv"
    and inv: "between [sv_server_fd sv \<mapsto> accept_handler, sv_management_fd sv \<mapsto> management_accept_handler] (sv_world sv)"
  shows "returns (stop_accepting os sv) (\<lambda>sv'. between Map.empty (sv_world sv')
    \<and> sv' = sv\<lparr>sv_world := sv_world sv'\<rparr>)"
proof -
  let ?s = "sv_server_fd sv" and ?m = "sv_management_fd sv"
  let ?ls = "[?s \<mapsto> accept_handler, ?m \<mapsto> management_accept_handler]"
  have l1: "?ls ?s = Some accept_handler" using ne by simp
  obtain w1 where
    w1: "drop_status (selector_unregister_fd (handle_close os) ?s (sv_world sv)) = Inr w1" "between (?ls(?s := None)) w1"
    by (rule returnsE [OF unregister_listener [OF inv l1, of os]], rule that)
  have l2: "(?ls(?s := None)) ?m = Some management_accept_handler" using ne by simp
  obtain w2 where
    w2: "drop_status (selector_unregister_fd (handle_close os) ?m w1) = Inr w2"
      "between (?ls(?s := None, ?m := None)) w2"
    by (rule returnsE [OF unregister_listener [OF w1(2) l2, of os]], rule that)
  have "?ls(?s := None, ?m := None) = Map.empty" by auto
  with w1 w2 show ?thesis by (simp add: stop_accepting_def)
qed

lemma server_turn_inv:
  fixes sv :: "'k server"
  assumes os: "posix_ok os" and inv: "server_inv sv"
  shows "returns (server_turn os ready asked sv) server_inv"
proof -
  have b: "between (listening sv) (sv_world sv)" and ne: "sv_server_fd sv \<noteq> sv_management_fd sv"
    using inv by (simp_all add: server_inv_def)
  obtain ret w where sel: "selector_select (handle_read os) (handle_write os) (handle_block os) ready (sv_world sv)
      = Inr (ret, w)" and w: "between (listening sv) w"
    using selector_select_inv [OF os b, of ready] by (auto simp: returns_iff)
  let ?sv = "sv\<lparr>sv_world := w, sv_signals := asked\<rparr>"
  have "returns (if shutdown_requested asked \<and> \<not> sv_stopped sv then stop_accepting os (?sv\<lparr>sv_stopped := True\<rparr>) else Inr ?sv)
    server_inv"
  proof (cases "shutdown_requested asked \<and> \<not> sv_stopped sv")
    case False
    then show ?thesis using w ne by (simp add: server_inv_def listening_def split: if_splits)
  next
    case True
    let ?sv' = "?sv\<lparr>sv_stopped := True\<rparr>"
    have "between [sv_server_fd ?sv' \<mapsto> accept_handler, sv_management_fd ?sv' \<mapsto> management_accept_handler] (sv_world ?sv')"
      using w True by (simp add: listening_def)
    from stop_accepting_inv [OF _ this, of os] ne
    have "returns (stop_accepting os ?sv') (\<lambda>sv'. between Map.empty (sv_world sv') \<and> sv' = ?sv'\<lparr>sv_world := sv_world sv'\<rparr>)"
      by simp
    then have "returns (stop_accepting os ?sv') server_inv"
    proof (rule returns_mono, goal_cases)
      case (1 sv')
      then have w': "between Map.empty (sv_world sv')" and e: "sv' = ?sv'\<lparr>sv_world := sv_world sv'\<rparr>" by blast+
      have "server_inv (?sv'\<lparr>sv_world := sv_world sv'\<rparr>)" using w' ne by (simp add: server_inv_def listening_def)
      with e show ?case by (simp only:)
    qed
    with True show ?thesis by simp
  qed
  then show ?thesis
    unfolding server_turn_def sel
    by (auto simp: Let_def server_inv_def listening_def elim!: returns_mono)
qed

lemma initial_inv:
  assumes us: "users_wf us"
  shows "between Map.empty (initial_world us k)"
proof -
  let ?w = "initial_world us k"
  have r: "registered ?w x = None" for x
    by (simp add: registered_def initial_world_def item_init_def ITEM_USED_def)
  have unused: "i < 1025 \<Longrightarrow> \<not> ITEM_USED (fds ?w ! i)" "i < 1025 \<Longrightarrow> item_interest (fds ?w ! i) = OP_NOOP" for i
    by (simp_all add: initial_world_def item_init_def zero_item_def ITEM_USED_def OP_NOOP_def)
  have l: "length (fds ?w) = 1025" by (simp add: initial_world_def)
  have "registered ?w = Map.empty" "max_fd ?w = 0" "master_r ?w = {}" "master_w ?w = {}"
    using r by (auto simp: initial_world_def)
  then have "selector_wf ?w" using unused l by (simp add: selector_wf_def FD_SETSIZE_def interested_def)
  then have "selector_inv ?w" using l r by (simp add: selector_inv_def FD_SETSIZE_def)
  moreover have "owned (registered ?w) d = Map.empty" for d by (simp add: owned_def fun_eq_iff r)
  ultimately have "world_inv (idle Map.empty []) ?w"
    using us r by (simp add: world_inv_def base_def session_inv_def mgmt_inv_def job_link_def streams_ok_def jobs_inv_def
        fresh_inv_def counters_inv_def guard_ok_def idle_def initial_world_def stream_def sent_total_def zero_metrics_def)
  then show ?thesis by (rule between_idle)
qed

lemma start_server_inv:
  assumes us: "users_wf us"
  shows "returns (start_server os us server_fd management_fd k) (\<lambda>res. case res of None \<Rightarrow> True
    | Some sv \<Rightarrow> server_inv sv \<and> \<not> sv_stopped sv \<and> sv_running sv)"
proof -
  note i = initial_inv [OF us, of k]
  show ?thesis
    unfolding start_server_def returns_simps
  proof (rule returns_mono [OF register_listener [OF i, of accept_handler "os_realloc os" zero_item server_fd]], simp, goal_cases)
    case (1 p)
    obtain status w where p: "p = (status, w)" by (cases p)
    show ?case
    proof (cases "status = SELECTOR_SUCCESS")
      case False
      then show ?thesis by (simp add: p)
    next
      case True
      with 1 p have w: "between [server_fd \<mapsto> accept_handler] w" by simp
      have "returns (selector_register (os_realloc os) zero_item management_fd (Some management_accept_handler) OP_READ None w)
        (\<lambda>(status, w'). if status = SELECTOR_SUCCESS
          then between ([server_fd \<mapsto> accept_handler](management_fd \<mapsto> management_accept_handler)) w'
            \<and> [server_fd \<mapsto> accept_handler] management_fd = None else w' = w)"
        by (rule register_listener [OF w]) simp
      then show ?thesis
        by (auto simp: p True server_inv_def listening_def elim!: returns_mono split: if_splits)
    qed
  qed
qed

section \<open>Steps and reachable states\<close>

text \<open>
  The loop runs on until a second signal; a resolver's thread takes its two steps when it
  likes, between two turns; the operating system's state may change at any time. Signals may
  come in any number before the flag is read: the flags are what some number of calls of
  \<open>sigterm_handler\<close> makes of them. The allocation of a list node for a notification is assumed
  to succeed.
\<close>

inductive server_step :: "'k os \<Rightarrow> 'k server \<Rightarrow> 'k server \<Rightarrow> bool" for os :: "'k os" where
  turn: "sv_running sv \<Longrightarrow> \<not> force_shutdown (sv_signals sv) \<Longrightarrow>
    server_turn os ready ((sigterm_handler ^^ n) (sv_signals sv)) sv = Inr sv' \<Longrightarrow> server_step os sv sv'"
| resolved: "threads (sv_world sv) j = Some Resolving \<Longrightarrow> resolve_target os j (sv_world sv) = Inr w \<Longrightarrow>
    server_step os sv (sv\<lparr>sv_world := w\<rparr>)"
| notified: "threads (sv_world sv) j = Some (Notifying fd) \<Longrightarrow>
    server_step os sv (sv\<lparr>sv_world := resolve_notify True j fd (sv_world sv)\<rparr>)"
| outside: "server_step os sv (sv\<lparr>sv_world := (sv_world sv)\<lparr>kern := k\<rparr>\<rparr>)"

inductive reachable :: "'k os \<Rightarrow> managed_user list \<Rightarrow> 'k server \<Rightarrow> bool" for os :: "'k os" and us where
  started: "start_server os us server_fd management_fd k = Inr (Some sv) \<Longrightarrow> reachable os us sv"
| step: "reachable os us sv \<Longrightarrow> server_step os sv sv' \<Longrightarrow> reachable os us sv'"

inductive_cases server_stepE [consumes 1, case_names turn resolved notified outside]: "server_step os sv sv'"

lemma server_step_inv:
  assumes os: "posix_ok os" and step: "server_step os sv sv'" and inv: "server_inv sv"
  shows "server_inv sv'"
  using step
proof cases
  case (turn ready n)
  with server_turn_inv [OF os inv, of ready "(sigterm_handler ^^ n) (sv_signals sv)"] show ?thesis by simp
next
  case (resolved j w)
  have "world_inv (idle (listening sv) (resolution_jobs (sv_world sv))) (sv_world sv)"
    using inv by (simp add: server_inv_def between_def)
  from resolve_target_inv [OF this resolved(2), of os] resolved have "between (listening sv) w" by (auto intro: between_idle)
  with inv resolved(1) show ?thesis by (simp add: server_inv_def)
next
  case (notified j fd)
  have "world_inv (idle (listening sv) (resolution_jobs (sv_world sv))) (sv_world sv)"
    using inv by (simp add: server_inv_def between_def)
  from resolve_notify_inv [OF this notified(2)] have "between (listening sv) (resolve_notify True j fd (sv_world sv))"
    by (rule between_idle)
  with inv notified(1) show ?thesis by (simp add: server_inv_def)
next
  case (outside k)
  with inv outside show ?thesis by (simp add: server_inv_def between_def)
qed

lemma reachable_inv:
  assumes os: "posix_ok os" and us: "users_wf us" and r: "reachable os us sv"
  shows "server_inv sv"
  using r
proof induction
  case (started server_fd management_fd k sv)
  with start_server_inv [OF us, of os server_fd management_fd k] show ?case by simp
next
  case (step sv sv')
  with server_step_inv [OF os] show ?case by blast
qed

lemma reachable_world:
  assumes "posix_ok os" "users_wf us" "reachable os us sv"
  shows "world_inv (idle (listening sv) (resolution_jobs (sv_world sv))) (sv_world sv)"
  using reachable_inv [OF assms] by (simp add: server_inv_def between_def)

section \<open>Events\<close>

text \<open>
  The step relation as a function of an event, which a program with no further input can be
  run with. An event whose step is not enabled changes nothing.
\<close>

datatype 'k event =
    Turn "int + (int set \<times> int set)" nat
  | Resolved nat
  | Notified nat
  | Outside 'k

fun exec :: "'k os \<Rightarrow> 'k event \<Rightarrow> 'k server \<Rightarrow> 'k server result" where
  "exec os (Turn ready n) sv =
     (if sv_running sv \<and> \<not> force_shutdown (sv_signals sv)
      then server_turn os ready ((sigterm_handler ^^ n) (sv_signals sv)) sv else Inr sv)"
| "exec os (Resolved j) sv =
     (if threads (sv_world sv) j = Some Resolving
      then bindE (resolve_target os j (sv_world sv)) (\<lambda>w. Inr (sv\<lparr>sv_world := w\<rparr>)) else Inr sv)"
| "exec os (Notified j) sv =
     (case threads (sv_world sv) j of
        Some (Notifying fd) \<Rightarrow> Inr (sv\<lparr>sv_world := resolve_notify True j fd (sv_world sv)\<rparr>)
      | _ \<Rightarrow> Inr sv)"
| "exec os (Outside k) sv = Inr (sv\<lparr>sv_world := (sv_world sv)\<lparr>kern := k\<rparr>\<rparr>)"

fun run :: "'k os \<Rightarrow> 'k event list \<Rightarrow> 'k server \<Rightarrow> 'k server result" where
  "run os [] sv = Inr sv"
| "run os (e # es) sv = bindE (exec os e sv) (run os es)"

lemma exec_step: "exec os e sv = Inr sv' \<Longrightarrow> sv' = sv \<or> server_step os sv sv'"
  by (cases e) (auto simp: bindE_eq_Inr split: if_splits option.splits thread.splits intro: server_step.intros)

lemma step_exec:
  assumes "server_step os sv sv'"
  shows "\<exists>e. exec os e sv = Inr sv'"
  using assms
proof (cases rule: server_stepE)
  case (turn ready n)
  then show ?thesis by (intro exI [of _ "Turn ready n"]) simp
next
  case (resolved j w)
  then show ?thesis by (intro exI [of _ "Resolved j"]) simp
next
  case (notified j fd)
  then show ?thesis by (intro exI [of _ "Notified j"]) simp
next
  case (outside k)
  then show ?thesis by (intro exI [of _ "Outside k"]) simp
qed

lemma exec_inv:
  assumes os: "posix_ok os" and inv: "server_inv sv"
  shows "returns (exec os e sv) server_inv"
proof (cases e)
  case (Turn ready n)
  then show ?thesis using server_turn_inv [OF os inv] inv by simp
next
  case (Resolved j)
  have "world_inv (idle (listening sv) (resolution_jobs (sv_world sv))) (sv_world sv)"
    using inv by (simp add: server_inv_def between_def)
  from resolve_target_inv [OF this, of j os]
  have "threads (sv_world sv) j = Some Resolving \<Longrightarrow>
    returns (resolve_target os j (sv_world sv)) (between (listening sv))"
    by (auto elim!: returns_mono intro: between_idle)
  then show ?thesis using Resolved inv by (auto simp: server_inv_def elim!: returns_mono)
next
  case (Notified j)
  have "server_inv sv'" if "exec os e sv = Inr sv'" for sv'
    using exec_step [OF that] server_step_inv [OF os _ inv] inv by blast
  then show ?thesis using Notified by (auto split: option.splits thread.splits)
next
  case (Outside k)
  then show ?thesis using inv by (simp add: server_inv_def between_def)
qed

lemma run_inv:
  assumes os: "posix_ok os"
  shows "server_inv sv \<Longrightarrow> returns (run os es sv) server_inv"
proof (induction es arbitrary: sv)
  case (Cons e es)
  from exec_inv [OF os Cons.prems, of e] Cons.IH show ?case by (auto elim!: returns_mono)
qed simp

lemma run_reachable: "run os es sv = Inr sv' \<Longrightarrow> reachable os us sv \<Longrightarrow> reachable os us sv'"
proof (induction es arbitrary: sv)
  case (Cons e es)
  then obtain sv1 where 1: "exec os e sv = Inr sv1" "run os es sv1 = Inr sv'" by (auto simp: bindE_eq_Inr)
  have "reachable os us sv1" using exec_step [OF 1(1)] Cons.prems(2) by (auto intro: reachable.step)
  with Cons.IH 1(2) show ?case by blast
qed simp

end
