(* ===== verification/Reached.thy ===== *)
theory Reached
  imports Runs
begin

text \<open>
  The invariant read off at a reachable state: the facts about sessions, jobs and
  registrations on which the properties that span the components rest.
\<close>

section \<open>Interests\<close>

lemma client_interest_wants:
  "wants (client_interest st) OP_READ \<longleftrightarrow>
     (if relay_started st then c2t_len st = 0 else write_len st = 0 \<and> handshake (stage st))"
  "wants (client_interest st) OP_WRITE \<longleftrightarrow>
     (if relay_started st then t2c_off st < t2c_len st else 0 < write_len st)"
  by (auto simp: client_interest_def client_relay_interest_def wants_def OP_NOOP_def OP_READ_def OP_WRITE_def)

lemma target_interest_wants:
  "wants (target_interest st) OP_READ \<longleftrightarrow> stage st \<noteq> CLIENT_STAGE_CONNECTING \<and> relay_started st \<and> t2c_len st = 0"
  "wants (target_interest st) OP_WRITE \<longleftrightarrow>
     stage st = CLIENT_STAGE_CONNECTING \<or> relay_started st \<and> c2t_off st < c2t_len st"
  by (auto simp: target_interest_def target_relay_interest_def wants_def OP_NOOP_def OP_READ_def OP_WRITE_def)

lemma interested_registered:
  "registered w fd = Some (i, h, d) \<Longrightarrow> fd \<in> interested w flag \<longleftrightarrow> wants i flag"
  by (simp add: interested_def)

section \<open>Reachable states\<close>

lemma reached_session:
  assumes "posix_ok os" "users_wf us" "reachable os us sv" and st: "clients (sv_world sv) c = Some st"
  defines "w \<equiv> sv_world sv"
  shows "session_wf st"
    and "job_link (idle (listening sv) (resolution_jobs w)) w c (resolver_job st) (client_fd st)"
    and "streams_ok w c (pending_c2t st) (pending_t2c st)"
    and "registered w (client_fd st) = Some (client_interest st, client_handler, of_session c)"
    and "target_fd st \<noteq> -1 \<Longrightarrow> registered w (target_fd st) = Some (target_interest st, target_handler, of_session c)"
    and "fd \<in> interested w flag \<longleftrightarrow> (\<exists>i h d. registered w fd = Some (i, h, d) \<and> wants i flag)"
proof -
  have inv: "world_inv (idle (listening sv) (resolution_jobs w)) w"
    unfolding w_def by (rule reachable_world [OF assms(1-3)])
  have st': "clients w c = Some st" using st by (simp add: w_def)
  note si = world_inv_session(1) [OF inv, of c]
  with st' show wf: "session_wf st"
    and "job_link (idle (listening sv) (resolution_jobs w)) w c (resolver_job st) (client_fd st)"
    and "streams_ok w c (pending_c2t st) (pending_t2c st)"
    by (simp_all add: session_inv_def)
  show "registered w (client_fd st) = Some (client_interest st, client_handler, of_session c)"
    by (rule session_registered(1) [OF si st'])
  show "registered w (target_fd st) = Some (target_interest st, target_handler, of_session c)" if "target_fd st \<noteq> -1"
  proof -
    have "owned (registered w) (ClientRef c) (target_fd st) = Some (target_interest st, target_handler)"
      using si st' that wf by (auto simp: session_inv_def expected_regs_def)
    then show ?thesis by (simp add: ownedD)
  qed
  show "fd \<in> interested w flag \<longleftrightarrow> (\<exists>i h d. registered w fd = Some (i, h, d) \<and> wants i flag)"
    by (simp add: interested_def)
qed

lemma unhandled_idle [simp]: "unhandled (idle ls js) = js"
  by (simp add: idle_def)

lemma reached_waiting:
  assumes a: "posix_ok os" "users_wf us" "reachable os us sv" and st: "clients (sv_world sv) c = Some st"
    and j: "resolver_job st = Some j"
  shows "\<exists>job. jobs (sv_world sv) j = Some job \<and> job_state job = Some c \<and> job_client_fd job = client_fd st
    \<and> (if job_done job then threads (sv_world sv) j = Some (Notifying (client_fd st))
         \<or> threads (sv_world sv) j = None \<and> client_fd st \<in> set (resolution_jobs (sv_world sv))
       else threads (sv_world sv) j = Some Resolving)"
  using reached_session(2) [OF a st] j unfolding job_link_def unhandled_idle by blast

lemma stage_resolving: "session_wf st \<Longrightarrow> stage st = CLIENT_STAGE_RESOLVING \<longleftrightarrow> resolver_job st \<noteq> None"
  by (simp add: session_wf_def stage_ok_def)

lemma reached_sets:
  assumes "posix_ok os" "users_wf us" "reachable os us sv"
  shows "master_r (sv_world sv) = interested (sv_world sv) OP_READ"
    and "master_w (sv_world sv) = interested (sv_world sv) OP_WRITE"
  using selector_wf_sets inv_table(1) [OF reachable_world [OF assms]] by blast+

lemma reached_parts:
  assumes "posix_ok os" "users_wf us" "reachable os us sv"
  defines "w \<equiv> sv_world sv"
  shows "counters_inv w" "jobs_inv (idle (listening sv) (resolution_jobs w)) w" "users_wf (managed_users w)"
    "guard_ok (idle (listening sv) (resolution_jobs w)) w" "\<And>m. mgmt_inv w m"
  using reachable_world [OF assms(1-3)] by (simp_all add: world_inv_def base_def w_def)

section \<open>After the loop\<close>

text \<open>The loop only ends when accepting has stopped and no session is left, and none comes back.\<close>

lemma stop_accepting_world: "stop_accepting os sv = Inr sv' \<Longrightarrow> \<exists>w. sv' = sv\<lparr>sv_world := w\<rparr>"
  unfolding stop_accepting_def by (auto simp: bindE_eq_Inr)

lemma server_turn_flags:
  assumes t: "server_turn os ready asked sv = Inr sv'"
  shows "sv_stopped sv' = (sv_stopped sv \<or> shutdown_requested asked)" "sv_signals sv' = asked"
    "sv_running sv' = (sv_running sv \<and> \<not> (sv_stopped sv' \<and> active_client_connections (sv_world sv') = 0))"
proof -
  from t obtain ret w s where
    s: "(if shutdown_requested asked \<and> \<not> sv_stopped sv
         then stop_accepting os (sv\<lparr>sv_world := w, sv_signals := asked, sv_stopped := True\<rparr>)
         else Inr (sv\<lparr>sv_world := w, sv_signals := asked\<rparr>)) = Inr s"
    and e: "sv' = (if sv_stopped s \<and> active_client_connections (sv_world s) = 0 then s\<lparr>sv_running := False\<rparr> else s)"
    unfolding server_turn_def Let_def bindE_eq_Inr by (auto simp: bindE_eq_Inr)
  have "\<exists>w. s = sv\<lparr>sv_world := w, sv_signals := asked, sv_stopped := sv_stopped sv \<or> shutdown_requested asked\<rparr>"
  proof (cases "shutdown_requested asked \<and> \<not> sv_stopped sv")
    case True
    with s stop_accepting_world [of os "sv\<lparr>sv_world := w, sv_signals := asked, sv_stopped := True\<rparr>" s]
    obtain v where "s = (sv\<lparr>sv_world := w, sv_signals := asked, sv_stopped := True\<rparr>)\<lparr>sv_world := v\<rparr>" by auto
    with True show ?thesis by (intro exI [of _ v]) simp
  next
    case False
    with s have "s = sv\<lparr>sv_world := w, sv_signals := asked\<rparr>" by auto
    with False show ?thesis by (intro exI [of _ w]) (cases sv, auto)
  qed
  with e show "sv_stopped sv' = (sv_stopped sv \<or> shutdown_requested asked)" "sv_signals sv' = asked"
    "sv_running sv' = (sv_running sv \<and> \<not> (sv_stopped sv' \<and> active_client_connections (sv_world sv') = 0))"
    by (auto split: if_splits)
qed

lemma of_nat_zero: "n \<le> FD_SETSIZE \<Longrightarrow> (of_nat n :: 64 word) = 0 \<Longrightarrow> n = 0"
  using of_nat_card_word [of n] by (metis neq0_conv word_not_simps(1))

lemma no_sessions_count:
  assumes "counters_inv w"
  shows "active_client_connections w = 0 \<longleftrightarrow> clients w = Map.empty"
proof -
  define n where "n = card (dom (clients w))"
  have c: "finite (dom (clients w))" "n \<le> FD_SETSIZE" "active_client_connections w = of_nat n"
    using assms by (simp_all add: counters_inv_def n_def)
  have "active_client_connections w = 0 \<longleftrightarrow> n = 0"
    unfolding c(3) by (rule iffI [OF of_nat_zero [OF c(2)]]) simp_all
  also have "n = 0 \<longleftrightarrow> clients w = Map.empty" using c(1) unfolding n_def by (simp only: card_eq_0_iff dom_eq_empty_conv) simp
  finally show ?thesis .
qed

lemma ended_empty:
  assumes os: "posix_ok os" and us: "users_wf us" and r: "reachable os us sv"
  shows "\<not> sv_running sv \<Longrightarrow> sv_stopped sv \<and> clients (sv_world sv) = Map.empty"
  using r
proof induction
  case (started server_fd management_fd k sv)
  with start_server_inv [OF us, of os server_fd management_fd k] show ?case by simp
next
  case (step sv sv')
  show ?case using step.hyps(2)
  proof cases
    case (turn ready n)
    let ?asked = "(sigterm_handler ^^ n) (sv_signals sv)"
    have inv': "server_inv sv'" by (rule server_step_inv [OF os step.hyps(2) reachable_inv [OF os us step.hyps(1)]])
    then have c: "counters_inv (sv_world sv')"
      by (simp add: server_inv_def between_def world_inv_def base_def)
    from server_turn_flags [OF turn(3)] step.prems turn(1)
    have e: "sv_stopped sv'" "active_client_connections (sv_world sv') = 0" by auto
    from no_sessions_count [OF c] e show ?thesis by simp
  next
    case (resolved j w)
    then have "clients w = clients (sv_world sv)"
      by (auto simp: resolve_target_def ask_def Let_def bindE_eq_Inr split: prod.splits if_splits)
    with resolved step show ?thesis by simp
  next
    case (notified j fd)
    with step show ?thesis by (simp add: resolve_notify_def selector_notify_block_def)
  next
    case (outside k)
    with step show ?thesis by simp
  qed
qed

section \<open>What a session waits for\<close>

text \<open>
  A session that is well-formed wants something of one of its descriptors, or waits for its
  resolver job.
\<close>

lemma session_awaits:
  assumes "session_wf st"
  shows "wants (client_interest st) OP_READ \<or> wants (client_interest st) OP_WRITE
    \<or> target_fd st \<noteq> -1 \<and> (wants (target_interest st) OP_READ \<or> wants (target_interest st) OP_WRITE)
    \<or> resolver_job st \<noteq> None"
proof -
  have wf: "regions_ok st" "stage_ok st" using assms by (simp_all add: session_wf_def)
  show ?thesis
  proof (cases "relay_started st")
    case True
    then have "target_fd st \<noteq> -1" "c2t_len st = 0 \<or> c2t_off st < c2t_len st"
      using wf by (auto simp: stage_ok_def regions_ok_def region_ok_def)
    with True show ?thesis by (auto simp: client_interest_wants target_interest_wants)
  next
    case False
    consider "0 < write_len st \<or> handshake (stage st)" | "stage st = CLIENT_STAGE_RESOLVING" | "stage st = CLIENT_STAGE_CONNECTING"
      using wf(2) False by (cases "stage st") (simp_all add: stage_ok_def handshake_def)
    then show ?thesis
    proof cases
      case 1
      with False show ?thesis by (cases "write_len st = 0") (simp_all add: client_interest_wants)
    next
      case 2
      with stage_resolving [OF assms] show ?thesis by simp
    next
      case 3
      with wf(2) have "target_fd st \<noteq> -1" unfolding stage_ok_def by blast
      with 3 show ?thesis by (simp add: target_interest_wants)
    qed
  qed
qed

end
