(* ===== verification/Shutdown.thy ===== *)
theory Shutdown
  imports Reached
begin

text \<open>
  What follows the main loop, after a graceful and after a forced end. \<open>selector_destroy\<close>
  unregisters the descriptors one by one, in an order that knows nothing of sessions: a target
  may go before its client, and a session may be waiting for its resolver. \<open>destroyable\<close> is
  the part of the invariant that survives this: every registered descriptor has an owner that
  is still allocated, and every owner and every job can still be reached.
\<close>

section \<open>What can be destroyed\<close>

definition owner_ok :: "'k world \<Rightarrow> int \<Rightarrow> handler \<Rightarrow> ref option \<Rightarrow> bool" where
  "owner_ok w x h d = (case d of
     None \<Rightarrow> h = accept_handler \<or> h = management_accept_handler
   | Some (ClientRef c) \<Rightarrow> \<exists>st. clients w c = Some st \<and>
       (h = client_handler \<and> x = client_fd st \<or> h = target_handler \<and> x = target_fd st)
   | Some (MgmtRef m) \<Rightarrow> mgmts w m \<noteq> None \<and> h = management_client_handler
       \<and> (\<forall>y i h'. registered w y = Some (i, h', of_mgmt m) \<longrightarrow> y = x))"

definition session_kept :: "'k world \<Rightarrow> nat \<Rightarrow> client_state \<Rightarrow> bool" where
  "session_kept w c st \<longleftrightarrow> client_fd st \<noteq> target_fd st
     \<and> (\<exists>i. registered w (client_fd st) = Some (i, client_handler, of_session c))
     \<and> (target_fd st \<noteq> -1 \<longrightarrow> (\<exists>i. registered w (target_fd st) = Some (i, target_handler, of_session c)))
     \<and> (\<forall>j. resolver_job st = Some j \<longrightarrow> (\<exists>job. jobs w j = Some job \<and> job_state job = Some c
          \<and> (job_done job \<or> threads w j = Some Resolving)))"

definition job_kept :: "'k world \<Rightarrow> nat \<Rightarrow> resolver_job \<Rightarrow> bool" where
  "job_kept w j job = (case job_state job of
     None \<Rightarrow> threads w j = Some Resolving
   | Some c \<Rightarrow> \<exists>st. clients w c = Some st \<and> resolver_job st = Some j)"

definition destroyable :: "'k world \<Rightarrow> bool" where
  "destroyable w \<longleftrightarrow> selector_wf w \<and> length (fds w) = FD_SETSIZE + 1
     \<and> (\<forall>x i h d. registered w x = Some (i, h, d) \<longrightarrow> owner_ok w x h d)
     \<and> (\<forall>c st. clients w c = Some st \<longrightarrow> session_kept w c st)
     \<and> (\<forall>j job. jobs w j = Some job \<longrightarrow> job_kept w j job)
     \<and> (\<forall>m. mgmts w m \<noteq> None \<longrightarrow> (\<exists>x i. registered w x = Some (i, management_client_handler, of_mgmt m)))"

lemma destroyableD:
  assumes "destroyable w"
  shows "selector_wf w" "length (fds w) = FD_SETSIZE + 1"
    "registered w x = Some (i, h, d) \<Longrightarrow> owner_ok w x h d" "clients w c = Some st \<Longrightarrow> session_kept w c st"
    "jobs w j = Some job \<Longrightarrow> job_kept w j job"
    "mgmts w m \<noteq> None \<Longrightarrow> \<exists>x i. registered w x = Some (i, management_client_handler, of_mgmt m)"
  using assms unfolding destroyable_def by blast+

lemma inv_destroyable:
  fixes w :: "'k world"
  assumes inv: "world_inv (idle ls js) w"
  shows "destroyable w"
  unfolding destroyable_def
proof (intro conjI allI impI)
  show "selector_wf w" "length (fds w) = FD_SETSIZE + 1" by (rule inv_table [OF inv])+
next
  fix x i h d assume reg: "registered w x = Some (i, h, d)"
  from inv reg show "owner_ok w x h d"
  proof (cases rule: registered_cases)
    case (mgmt m st)
    have "y = x" if "registered w y = Some (k, h', of_mgmt m)" for y k h'
    proof -
      have "mgmt_inv w m" using inv by (simp add: world_inv_def base_def)
      then obtain fd l where "owned (registered w) (MgmtRef m) = [fd \<mapsto> (l, management_client_handler)]"
        using mgmt(2) by (auto simp: mgmt_inv_def)
      moreover have "owned (registered w) (MgmtRef m) y = Some (k, h')" using that by (simp add: ownedD)
      moreover have "owned (registered w) (MgmtRef m) x = Some (i, h)" using reg mgmt(1) by (simp add: ownedD)
      ultimately show ?thesis by (simp split: if_splits)
    qed
    with mgmt show ?thesis by (auto simp: owner_ok_def)
  qed (auto simp: owner_ok_def)
next
  fix c st assume st: "clients w c = Some st"
  note si = world_inv_session(1) [OF inv, of c]
  from si st have wf: "session_wf st" and own: "owned (registered w) (ClientRef c) = expected_regs st"
    and link: "job_link (idle ls js) w c (resolver_job st) (client_fd st)"
    by (simp_all add: session_inv_def)
  have ne: "client_fd st \<noteq> target_fd st" using wf by (simp add: session_wf_def stage_ok_def)
  have "registered w (client_fd st) = Some (client_interest st, client_handler, of_session c)"
    by (rule session_registered(1) [OF si st])
  moreover have "registered w (target_fd st) = Some (target_interest st, target_handler, of_session c)" if "target_fd st \<noteq> -1"
  proof -
    have "owned (registered w) (ClientRef c) (target_fd st) = Some (target_interest st, target_handler)"
      using own that ne by (simp add: expected_regs_def)
    then show ?thesis by (simp add: ownedD)
  qed
  moreover have "\<exists>job. jobs w j = Some job \<and> job_state job = Some c \<and> (job_done job \<or> threads w j = Some Resolving)"
    if "resolver_job st = Some j" for j
    using link that unfolding job_link_def by metis
  ultimately show "session_kept w c st" using ne unfolding session_kept_def by blast
next
  fix j job assume job: "jobs w j = Some job"
  have J: "jobs_inv (idle ls js) w" using inv by (simp add: world_inv_def base_def)
  show "job_kept w j job"
  proof (cases "job_state job")
    case None
    with J job show ?thesis unfolding jobs_inv_def by (auto simp: job_kept_def)
  next
    case (Some c)
    from waiting_session [OF inv job Some] Some show ?thesis by (auto simp: job_kept_def)
  qed
next
  fix m assume "mgmts w m \<noteq> None"
  then obtain st where st: "mgmts w m = Some st" by blast
  have "mgmt_inv w m" using inv by (simp add: world_inv_def base_def)
  with st obtain fd i where "owned (registered w) (MgmtRef m) = [fd \<mapsto> (i, management_client_handler)]"
    by (auto simp: mgmt_inv_def)
  then have "owned (registered w) (MgmtRef m) fd = Some (i, management_client_handler)" by simp
  then show "\<exists>x i. registered w x = Some (i, management_client_handler, of_mgmt m)" by (auto simp: ownedD)
qed

section \<open>The close callbacks\<close>

text \<open>What \<open>selector_clear\<close> does to the world, all at once.\<close>

definition cleared :: "int \<Rightarrow> 'k world \<Rightarrow> 'k world \<Rightarrow> bool" where
  "cleared x w w' \<longleftrightarrow> selector_wf w' \<and> length (fds w') = length (fds w) \<and> registered w' = (registered w)(x := None)
     \<and> clients w' = clients w \<and> mgmts w' = mgmts w \<and> jobs w' = jobs w \<and> threads w' = threads w"

lemma selector_clear_cleared:
  "selector_wf w \<Longrightarrow> registered w x \<noteq> None \<Longrightarrow> returns (selector_clear x w) (cleared x w)"
  by (rule returns_mono [OF selector_clear_registered]) (auto simp: cleared_def dest: sel_frame_world)

lemma selector_wf_world [simp]:
  "selector_wf (w\<lparr>clients := a\<rparr>) = selector_wf w" "selector_wf (w\<lparr>mgmts := b\<rparr>) = selector_wf w"
  "selector_wf (w\<lparr>jobs := c\<rparr>) = selector_wf w" "selector_wf (w\<lparr>kern := d\<rparr>) = selector_wf w"
  "selector_wf (w\<lparr>active_client_connections := e\<rparr>) = selector_wf w"
  "selector_wf (w\<lparr>current_metrics := f\<rparr>) = selector_wf w"
  by (simp_all cong: selector_wf_cong)

text \<open>What detaching a session leaves of its job.\<close>

definition detached :: "client_state \<Rightarrow> (nat \<Rightarrow> resolver_job option) \<Rightarrow> nat \<Rightarrow> resolver_job option" where
  "detached st js = (case resolver_job st of None \<Rightarrow> js
     | Some j \<Rightarrow> js(j := (case js j of None \<Rightarrow> None
         | Some job \<Rightarrow> if job_done job then None else Some (job\<lparr>job_state := None\<rparr>))))"

definition without_session :: "nat \<Rightarrow> client_state \<Rightarrow> 'k world \<Rightarrow> 'k world \<Rightarrow> bool" where
  "without_session c st w w' \<longleftrightarrow> selector_wf w' \<and> length (fds w') = length (fds w)
     \<and> registered w' = (if target_fd st = -1 then registered w else (registered w)(target_fd st := None))
     \<and> clients w' = (clients w)(c := None) \<and> mgmts w' = mgmts w \<and> jobs w' = detached st (jobs w) \<and> threads w' = threads w"

lemma close_target_kept:
  fixes w :: "'k world"
  assumes wf: "selector_wf w" and st: "clients w c = Some st"
    and t: "target_fd st \<noteq> -1 \<Longrightarrow> \<exists>i. registered w (target_fd st) = Some (i, target_handler, of_session c)"
  shows "returns (close_target os (of_session c) w) (\<lambda>w'. selector_wf w' \<and> length (fds w') = length (fds w)
     \<and> registered w' = (if target_fd st = -1 then registered w else (registered w)(target_fd st := None))
     \<and> clients w' = (clients w)(c \<mapsto> st\<lparr>target_fd := -1\<rparr>) \<and> mgmts w' = mgmts w \<and> jobs w' = jobs w \<and> threads w' = threads w)"
proof (cases "target_fd st = -1")
  case True
  then have "st\<lparr>target_fd := -1\<rparr> = st" by simp
  with True st wf show ?thesis by (simp add: close_target_def get_client.simps fun_upd_idem)
next
  case False
  let ?t = "target_fd st" and ?w = "w\<lparr>clients := (clients w)(c \<mapsto> st\<lparr>target_fd := -1\<rparr>)\<rparr>"
  obtain i where reg: "registered ?w ?t = Some (i, target_handler, of_session c)" using t False by auto
  have wf': "selector_wf ?w" using wf by simp
  let ?v = "sys_close os ?t ?w"
  have v: "selector_wf ?v" "registered ?v ?t \<noteq> None" using wf reg by (simp_all add: sys_close_def)
  have cb: "target_close os \<lparr>key_fd = ?t, key_data = of_session c\<rparr> ?w = Inr ?v"
    using False by (simp add: target_close_def get_client.simps)
  have "returns (selector_unregister_fd (handle_close_inner os) ?t ?w) (\<lambda>(ret, w'). ret = SELECTOR_SUCCESS \<and> cleared ?t ?v w')"
    unfolding selector_unregister_fd_eq [OF wf' reg]
    using selector_clear_cleared [OF v] by (simp add: cb)
  then show ?thesis
    using False st by (auto simp: close_target_def get_client.simps put_client.simps cleared_def sys_close_def
        elim!: returns_mono)
qed

lemma client_close_kept:
  fixes w :: "'k world"
  assumes wf: "selector_wf w" and st: "clients w c = Some st" and k: "session_kept w c st"
  shows "returns (client_close os \<lparr>key_fd = client_fd st, key_data = of_session c\<rparr> w) (without_session c st w)"
proof -
  let ?st1 = "st\<lparr>client_fd := -1\<rparr>"
  let ?w1 = "w\<lparr>clients := (clients w)(c \<mapsto> ?st1)\<rparr>"
  have "returns (close_target os (of_session c) ?w1) (\<lambda>w'. selector_wf w' \<and> length (fds w') = length (fds ?w1)
     \<and> registered w' = (if target_fd ?st1 = -1 then registered ?w1 else (registered ?w1)(target_fd ?st1 := None))
     \<and> clients w' = (clients ?w1)(c \<mapsto> ?st1\<lparr>target_fd := -1\<rparr>) \<and> mgmts w' = mgmts ?w1 \<and> jobs w' = jobs ?w1 \<and> threads w' = threads ?w1)"
    by (rule close_target_kept) (use wf k in \<open>auto simp: session_kept_def\<close>)
  then obtain w2 where w2: "close_target os (of_session c) ?w1 = Inr w2" "selector_wf w2" "length (fds w2) = length (fds w)"
    "registered w2 = (if target_fd st = -1 then registered w else (registered w)(target_fd st := None))"
    "clients w2 = (clients w)(c \<mapsto> ?st1\<lparr>target_fd := -1\<rparr>)" "mgmts w2 = mgmts w" "jobs w2 = jobs w" "threads w2 = threads w"
    by (auto simp: returns_iff)
  have "returns (target_connection_detach_resolver (of_session c) w2) (\<lambda>w3. selector_wf w3 \<and> length (fds w3) = length (fds w)
    \<and> registered w3 = registered w2 \<and> (\<exists>st'. clients w3 = (clients w)(c \<mapsto> st')) \<and> mgmts w3 = mgmts w
    \<and> jobs w3 = detached st (jobs w) \<and> threads w3 = threads w)"
  proof (cases "resolver_job st")
    case None
    with w2 show ?thesis
      by (auto simp: target_connection_detach_resolver_def get_client.simps detached_def)
  next
    case (Some j)
    with k obtain job where "jobs w j = Some job" unfolding session_kept_def by blast
    with Some w2 show ?thesis
      by (auto simp: target_connection_detach_resolver_def get_client.simps detached_def get_job_def put_client.simps)
  qed
  then obtain w3 st3 where w3: "target_connection_detach_resolver (of_session c) w2 = Inr w3" "selector_wf w3"
    "length (fds w3) = length (fds w)" "registered w3 = registered w2" "clients w3 = (clients w)(c \<mapsto> st3)" "mgmts w3 = mgmts w"
    "jobs w3 = detached st (jobs w)" "threads w3 = threads w" by (auto simp: returns_iff)
  have "returns (target_connection_free_addresses (of_session c) w3) (\<lambda>w4. selector_wf w4 \<and> length (fds w4) = length (fds w)
    \<and> registered w4 = registered w2 \<and> (\<exists>st'. clients w4 = (clients w)(c \<mapsto> st')) \<and> mgmts w4 = mgmts w
    \<and> jobs w4 = detached st (jobs w) \<and> threads w4 = threads w)"
    using w3 by (auto simp: target_connection_free_addresses_def get_client.simps put_client.simps)
  then obtain w4 st4 where w4: "target_connection_free_addresses (of_session c) w3 = Inr w4" "selector_wf w4"
    "length (fds w4) = length (fds w)" "registered w4 = registered w2" "clients w4 = (clients w)(c \<mapsto> st4)" "mgmts w4 = mgmts w"
    "jobs w4 = detached st (jobs w)" "threads w4 = threads w" by (auto simp: returns_iff)
  show ?thesis
    using st w2(1) w3(1) w4 by (simp add: client_close_def get_client.simps put_client.simps free_session_def sys_close_def
        without_session_def w2(4))
qed

section \<open>One descriptor\<close>

text \<open>Removing registrations cannot break what is said of the registrations that stay.\<close>

definition shrunk :: "'k world \<Rightarrow> int \<Rightarrow> 'k world \<Rightarrow> bool" where
  "shrunk w x w' \<longleftrightarrow> destroyable w' \<and> registered w' x = None \<and> threads w' = threads w
     \<and> (\<forall>y. registered w' y = registered w y \<or> registered w' y = None)"

lemma owner_ok_less:
  assumes o: "owner_ok w y h d" and m: "mgmts w' = mgmts w" and r: "\<And>z. registered w' z = registered w z \<or> registered w' z = None"
    and c: "\<And>c st. d = of_session c \<Longrightarrow> clients w c = Some st \<Longrightarrow> h = client_handler \<and> y = client_fd st \<or> h = target_handler \<and> y = target_fd st \<Longrightarrow>
      \<exists>st'. clients w' c = Some st' \<and> (h = client_handler \<and> y = client_fd st' \<or> h = target_handler \<and> y = target_fd st')"
  shows "owner_ok w' y h d"
proof (cases d)
  case None
  with o show ?thesis by (simp add: owner_ok_def)
next
  case (Some ref)
  show ?thesis
  proof (cases ref)
    case (ClientRef n)
    with o c Some show ?thesis by (auto simp: owner_ok_def)
  next
    case (MgmtRef n)
    have "registered w z = Some (k, g, of_mgmt n)" if "registered w' z = Some (k, g, of_mgmt n)" for z k g
      using r [of z] that by simp
    with o Some MgmtRef m show ?thesis by (auto simp: owner_ok_def)
  qed
qed

lemma destroy_listener:
  fixes w :: "'k world"
  assumes D: "destroyable w" and reg: "registered w x = Some (i, h, None)"
  shows "returns (selector_unregister_fd (handle_close os) x w) (\<lambda>(ret, w'). shrunk w x w')"
proof -
  note d = destroyableD [OF D]
  have "handle_close os h = None" using d(3) [OF reg] by (auto simp: owner_ok_def)
  moreover have "shrunk w x w'" if "cleared x w w'" for w'
  proof -
    have "session_kept w' c st" if st: "clients w c = Some st" for c st
      using d(4) [OF st] \<open>cleared x w w'\<close> reg by (auto simp: session_kept_def cleared_def)
    moreover have "job_kept w' j job" if "jobs w j = Some job" for j job
      using d(5) [OF that] \<open>cleared x w w'\<close> by (simp add: job_kept_def cleared_def split: option.splits)
    moreover have "owner_ok w' y g e" if "registered w y = Some (k, g, e)" for y k g e
      using d(3) [OF that] by (rule owner_ok_less) (use \<open>cleared x w w'\<close> in \<open>auto simp: cleared_def\<close>)
    moreover have "\<exists>y k. registered w' y = Some (k, management_client_handler, of_mgmt m)" if "mgmts w m \<noteq> None" for m
    proof -
      from d(6) [OF that] obtain y k where y: "registered w y = Some (k, management_client_handler, of_mgmt m)" by blast
      then have "y \<noteq> x" using reg by auto
      with y \<open>cleared x w w'\<close> show ?thesis by (intro exI [of _ y] exI [of _ k]) (simp add: cleared_def)
    qed
    ultimately show ?thesis
      using \<open>cleared x w w'\<close> d(2) by (auto simp: shrunk_def destroyable_def cleared_def)
  qed
  ultimately show ?thesis
    using selector_clear_cleared [OF d(1), of x] reg unfolding selector_unregister_fd_eq [OF d(1) reg]
    by (auto elim!: returns_mono)
qed

lemma destroy_mgmt:
  fixes w :: "'k world"
  assumes D: "destroyable w" and reg: "registered w x = Some (i, h, of_mgmt m)"
  shows "returns (selector_unregister_fd (handle_close os) x w) (\<lambda>(ret, w'). shrunk w x w')"
proof -
  note d = destroyableD [OF D]
  have h: "h = management_client_handler" and only: "registered w y = Some (k, g, of_mgmt m) \<Longrightarrow> y = x" for y k g
    using d(3) [OF reg] by (auto simp: owner_ok_def)
  obtain st where st: "mgmts w m = Some st" using d(3) [OF reg] by (auto simp: owner_ok_def)
  let ?v = "sys_close os x (w\<lparr>mgmts := (mgmts w)(m := None)\<rparr>)"
  have v: "selector_wf ?v" "registered ?v x \<noteq> None" using d(1) reg by (simp_all add: sys_close_def)
  have "shrunk w x w'" if c: "cleared x ?v w'" for w'
  proof -
    have r: "registered w' = (registered w)(x := None)" "mgmts w' = (mgmts w)(m := None)" "clients w' = clients w"
      "jobs w' = jobs w" "threads w' = threads w" "selector_wf w'" "length (fds w') = length (fds w)"
      using c by (simp_all add: cleared_def sys_close_def)
    have "session_kept w' c st" if st: "clients w c = Some st" for c st
      using d(4) [OF st] r reg by (auto simp: session_kept_def)
    moreover have "job_kept w' j job" if "jobs w j = Some job" for j job
      using d(5) [OF that] r by (simp add: job_kept_def split: option.splits)
    moreover have "owner_ok w' y g e" if y: "registered w y = Some (k, g, e)" "y \<noteq> x" for y k g e
    proof -
      have "e \<noteq> of_mgmt m" using only y by auto
      with d(3) [OF y(1)] r show ?thesis by (auto simp: owner_ok_def split: option.splits ref.splits if_splits)
    qed
    moreover have "\<exists>y k. registered w' y = Some (k, management_client_handler, of_mgmt n)" if "mgmts w' n \<noteq> None" for n
    proof -
      have n: "n \<noteq> m" "mgmts w n \<noteq> None" using that r(2) by (auto split: if_splits)
      from d(6) [OF n(2)] obtain y k where y: "registered w y = Some (k, management_client_handler, of_mgmt n)" by blast
      then have "y \<noteq> x" using reg n(1) by auto
      with y r(1) show ?thesis by (intro exI [of _ y] exI [of _ k]) simp
    qed
    ultimately show ?thesis
      using r d(2) by (auto simp: shrunk_def destroyable_def split: if_splits)
  qed
  moreover have "management_close os \<lparr>key_fd = x, key_data = of_mgmt m\<rparr> w = Inr ?v"
    using st by (simp add: management_close_def get_mgmt.simps)
  ultimately show ?thesis
    using selector_clear_cleared [OF v] unfolding selector_unregister_fd_eq [OF d(1) reg]
    by (auto simp: h elim!: returns_mono)
qed

text \<open>A management session's registration stays when the descriptors of a session go.\<close>

lemma mgmts_stay:
  assumes D: "destroyable w" and m: "mgmts w m \<noteq> None"
    and R: "\<And>y k g. registered w y = Some (k, g, of_mgmt m) \<Longrightarrow> registered w' y = registered w y"
  shows "\<exists>y k. registered w' y = Some (k, management_client_handler, of_mgmt m)"
proof -
  from destroyableD(6) [OF D m] obtain y k where y: "registered w y = Some (k, management_client_handler, of_mgmt m)" by blast
  with R [OF y] show ?thesis by auto
qed

lemma destroy_target:
  fixes w :: "'k world"
  assumes D: "destroyable w" and reg: "registered w x = Some (i, target_handler, of_session c)"
  shows "returns (selector_unregister_fd (handle_close os) x w) (\<lambda>(ret, w'). shrunk w x w')"
proof -
  note d = destroyableD [OF D]
  obtain st where st: "clients w c = Some st" "x = target_fd st" using d(3) [OF reg] by (auto simp: owner_ok_def)
  note k = d(4) [OF st(1)]
  have x: "x \<noteq> -1" using reg by auto
  have cf: "client_fd st \<noteq> -1" using k registered_negative [of w] by (auto simp: session_kept_def)
  let ?st = "st\<lparr>target_fd := -1\<rparr>"
  let ?v = "sys_close os x (w\<lparr>clients := (clients w)(c \<mapsto> ?st)\<rparr>)"
  have v: "selector_wf ?v" "registered ?v x \<noteq> None" using d(1) reg by (simp_all add: sys_close_def)
  have "shrunk w x w'" if cl: "cleared x ?v w'" for w'
  proof -
    have r: "registered w' = (registered w)(x := None)" "mgmts w' = mgmts w" "clients w' = (clients w)(c \<mapsto> ?st)"
      "jobs w' = jobs w" "threads w' = threads w" "selector_wf w'" "length (fds w') = length (fds w)"
      using cl by (simp_all add: cleared_def sys_close_def)
    have "session_kept w' e se" if se: "clients w' e = Some se" for e se
    proof (cases "e = c")
      case True
      with se r k st x cf show ?thesis by (auto simp: session_kept_def)
    next
      case False
      with se r(3) d(4) [of e se] have "session_kept w e se" by simp
      with False reg r show ?thesis by (auto simp: session_kept_def)
    qed
    moreover have "job_kept w' j job" if "jobs w j = Some job" for j job
      using d(5) [OF that] r st by (auto simp: job_kept_def split: option.splits)
    moreover have "owner_ok w' y g e" if y: "registered w y = Some (l, g, e)" "y \<noteq> x" for y l g e
      using d(3) [OF y(1)] by (rule owner_ok_less) (use r st y(2) in \<open>auto split: if_splits\<close>)
    moreover have "\<exists>y k. registered w' y = Some (k, management_client_handler, of_mgmt m)" if "mgmts w m \<noteq> None" for m
      by (rule mgmts_stay [OF D that]) (use r reg in auto)
    ultimately show ?thesis
      using r d(2) by (auto simp: shrunk_def destroyable_def split: if_splits)
  qed
  moreover have "target_close os \<lparr>key_fd = x, key_data = of_session c\<rparr> w = Inr ?v"
    using st by (simp add: target_close_def get_client.simps put_client.simps)
  ultimately show ?thesis
    using selector_clear_cleared [OF v] unfolding selector_unregister_fd_eq [OF d(1) reg]
    by (auto elim!: returns_mono)
qed

lemma destroy_client:
  fixes w :: "'k world"
  assumes D: "destroyable w" and reg: "registered w x = Some (i, client_handler, of_session c)"
  shows "returns (selector_unregister_fd (handle_close os) x w) (\<lambda>(ret, w'). shrunk w x w')"
proof -
  note d = destroyableD [OF D]
  obtain st where st: "clients w c = Some st" "x = client_fd st" using d(3) [OF reg] by (auto simp: owner_ok_def)
  note k = d(4) [OF st(1)]
  have "shrunk w x w'" if v: "without_session c st w v" and cl: "cleared x v w'" for v w'
  proof -
    have r: "registered w' y = (if y = x \<or> y = target_fd st then None else registered w y)" "mgmts w' = mgmts w"
      "clients w' = (clients w)(c := None)" "jobs w' = detached st (jobs w)" "threads w' = threads w" "selector_wf w'"
      "length (fds w') = length (fds w)" for y
      using v cl by (auto simp: cleared_def without_session_def)
    have others: "y \<noteq> x \<and> y \<noteq> target_fd st" if "registered w y = Some (l, g, e)" "e \<noteq> of_session c" for y l g e
      using that reg k by (auto simp: session_kept_def)
    have keep: "registered w' y = registered w y" if "registered w y = Some (l, g, e)" "e \<noteq> of_session c" for y l g e
      using others [OF that] r(1) by simp
    have job: "job_state job = Some c" if "resolver_job st = Some j" "jobs w j = Some job" for j job
      using that k by (auto simp: session_kept_def)
    have "session_kept w' e se" if se: "clients w' e = Some se" for e se
    proof -
      have e: "e \<noteq> c" "clients w e = Some se" using se r(3) by (auto split: if_splits)
      have ke: "session_kept w e se" by (rule d(4) [OF e(2)])
      then have "jobs w' j = Some jb" if "jobs w j = Some jb" "job_state jb = Some e" for j jb
        using that job [of j jb] e(1) r(4) by (auto simp: detached_def split: option.splits)
      with ke e(1) keep r(5) show ?thesis unfolding session_kept_def
        by (auto simp: r(2))
    qed
    moreover have "job_kept w' j job" if jb: "jobs w' j = Some job" for j job
    proof (cases "resolver_job st = Some j")
      case True
      then obtain job0 where j0: "jobs w j = Some job0" "job_state job0 = Some c" "job_done job0 \<or> threads w j = Some Resolving"
        using k by (auto simp: session_kept_def)
      with jb r(4) True show ?thesis by (auto simp: detached_def job_kept_def r(5) split: if_splits)
    next
      case False
      then have "jobs w j = Some job" using jb r(4) by (auto simp: detached_def split: option.splits if_splits)
      from d(5) [OF this] False st(1) show ?thesis by (auto simp: job_kept_def r(3,5) split: option.splits)
    qed
    moreover have "owner_ok w' y g e" if y: "registered w' y = Some (l, g, e)" for y l g e
    proof -
      have y': "registered w y = Some (l, g, e)" "y \<noteq> x" "y \<noteq> target_fd st" using y r(1) [of y] by (auto split: if_splits)
      show ?thesis using d(3) [OF y'(1)]
        by (rule owner_ok_less) (use r st y'(2,3) in \<open>auto split: if_splits\<close>)
    qed
    moreover have "\<exists>y k. registered w' y = Some (k, management_client_handler, of_mgmt m)" if "mgmts w m \<noteq> None" for m
      by (rule mgmts_stay [OF D that]) (rule keep, assumption, simp)
    ultimately show ?thesis
      using r(1,2,5,6,7) d(2) unfolding shrunk_def destroyable_def by simp
  qed
  moreover have "registered v x \<noteq> None \<and> selector_wf v" if "without_session c st w v" for v
    using that reg k st(2) by (auto simp: without_session_def session_kept_def)
  ultimately have "returns (selector_clear x v) (shrunk w x)" if "without_session c st w v" for v
    using that selector_clear_cleared [of v x] by (auto elim!: returns_mono)
  with client_close_kept [OF d(1) st(1) k, of os] show ?thesis
    unfolding selector_unregister_fd_eq [OF d(1) reg] by (auto simp: st(2) elim!: returns_mono)
qed

lemma destroy_one:
  fixes w :: "'k world"
  assumes D: "destroyable w" and reg: "registered w x = Some (i, h, d)"
  shows "returns (selector_unregister_fd (handle_close os) x w) (\<lambda>(ret, w'). shrunk w x w')"
proof (cases d)
  case None
  with destroy_listener [OF D] reg show ?thesis by simp
next
  case (Some r)
  show ?thesis
  proof (cases r)
    case (ClientRef c)
    then have "h = client_handler \<or> h = target_handler"
      using destroyableD(3) [OF D reg] Some by (auto simp: owner_ok_def)
    with destroy_client [OF D, of x i c] destroy_target [OF D, of x i c] reg Some ClientRef show ?thesis by auto
  next
    case (MgmtRef m)
    with destroy_mgmt [OF D] reg Some show ?thesis by simp
  qed
qed

section \<open>All of them\<close>

definition emptied :: "nat \<Rightarrow> (nat \<Rightarrow> thread option) \<Rightarrow> 'k world \<Rightarrow> bool" where
  "emptied i ts w \<longleftrightarrow> destroyable w \<and> threads w = ts \<and> (\<forall>j < i. registered w (int j) = None)"

lemma destroy_items_emptied:
  fixes w :: "'k world"
  shows "emptied i ts w \<Longrightarrow> i \<le> n \<Longrightarrow> n \<le> FD_SETSIZE + 1 \<Longrightarrow>
    returns (destroy_items (handle_close os) [i..<n] w) (emptied n ts)"
proof (induction "n - i" arbitrary: i w)
  case 0
  then show ?case by simp
next
  case (Suc k)
  have D: "destroyable w" and ts: "threads w = ts" and none: "\<forall>j < i. registered w (int j) = None"
    using Suc.prems(1) by (simp_all add: emptied_def)
  have i: "i < n" "[i..<n] = i # [Suc i..<n]" "i < length (fds w)"
    using Suc.hyps(2) Suc.prems destroyableD(2) [OF D] by (simp_all add: upt_rec)
  have "returns (if ITEM_USED (fds w ! i) then bindE (selector_unregister_fd (handle_close os) (int i) w) (\<lambda>(ret, s). Inr s)
      else Inr w) (emptied (Suc i) ts)"
  proof (cases "ITEM_USED (fds w ! i)")
    case False
    then have "registered w (int i) = None" by (simp add: registered_def)
    with D ts none False show ?thesis by (auto simp: emptied_def less_Suc_eq)
  next
    case True
    then have "registered w (int i) \<noteq> None" using i(3) by (simp add: registered_def)
    then obtain k h d where reg: "registered w (int i) = Some (k, h, d)" by (cases "registered w (int i)") auto
    have "emptied (Suc i) ts w'" if sh: "shrunk w (int i) w'" for w'
    proof -
      have "registered w' (int j) = None" if "j < Suc i" for j
        using that none sh by (cases "j = i") (simp_all add: shrunk_def, metis less_antisym)
      with sh ts show ?thesis by (simp add: emptied_def shrunk_def)
    qed
    with destroy_one [OF D reg, of os] True show ?thesis by (auto elim!: returns_mono)
  qed
  moreover have "returns (destroy_items (handle_close os) [Suc i..<n] v) (emptied n ts)" if "emptied (Suc i) ts v" for v
    using Suc.hyps(2) Suc.prems(2,3) i(1) that by (intro Suc.hyps(1)) simp_all
  ultimately show ?case unfolding i(2) using i(3) by (auto elim!: returns_mono)
qed

lemma emptied_all:
  assumes e: "emptied (FD_SETSIZE + 1) ts w"
  shows "clients w = Map.empty" "mgmts w = Map.empty" "registered w = Map.empty"
    "jobs w j = Some job \<Longrightarrow> job_state job = None \<and> ts j = Some Resolving"
proof -
  have D: "destroyable w" and ts: "threads w = ts" and none: "\<And>j. j < FD_SETSIZE + 1 \<Longrightarrow> registered w (int j) = None"
    using e by (simp_all add: emptied_def)
  have "registered w x = None" for x
  proof (cases "0 \<le> x \<and> nat x < FD_SETSIZE + 1")
    case True
    with none [of "nat x"] show ?thesis by simp
  next
    case False
    with destroyableD(2) [OF D] show ?thesis by (auto simp: registered_def)
  qed
  then show r: "registered w = Map.empty" by auto
  have "clients w c = None" for c
    using destroyableD(4) [OF D, of c] r by (cases "clients w c") (auto simp: session_kept_def)
  then show c: "clients w = Map.empty" by auto
  have "mgmts w m = None" for m
    using destroyableD(6) [OF D, of m] r by (cases "mgmts w m") auto
  then show "mgmts w = Map.empty" by auto
  assume "jobs w j = Some job"
  from destroyableD(5) [OF D this] show "job_state job = None \<and> ts j = Some Resolving"
    by (auto simp: job_kept_def c ts split: option.splits)
qed

lemma selector_destroy_all:
  fixes w :: "'k world"
  assumes inv: "world_inv (idle ls js) w"
  shows "returns (selector_destroy (handle_close os) w) (\<lambda>w'. clients w' = Map.empty \<and> mgmts w' = Map.empty \<and> fds w' = []
    \<and> resolution_jobs w' = [] \<and> threads w' = threads w
    \<and> (\<forall>j job. jobs w' j = Some job \<longrightarrow> job_state job = None \<and> threads w j = Some Resolving))"
proof -
  have D: "destroyable w" by (rule inv_destroyable [OF inv])
  note len = destroyableD(2) [OF D]
  have "emptied 0 (threads w) w" using D by (simp add: emptied_def)
  from destroy_items_emptied [OF this, of "FD_SETSIZE + 1" os]
  have "returns (destroy_items (handle_close os) [0..<length (fds w)] w) (emptied (FD_SETSIZE + 1) (threads w))"
    by (simp add: len)
  then have "returns (destroy_items (handle_close os) [0..<length (fds w)] w) (\<lambda>v. clients v = Map.empty \<and> mgmts v = Map.empty
      \<and> threads v = threads w \<and> (\<forall>j job. jobs v j = Some job \<longrightarrow> job_state job = None \<and> threads w j = Some Resolving))"
  proof (rule returns_mono, goal_cases)
    case (1 v)
    note e = emptied_all [OF 1(2)]
    have "threads v = threads w" using 1(2) by (simp add: emptied_def)
    then show ?case using e(1,2) e(4) by blast
  qed
  moreover have "fds w \<noteq> []" using len by auto
  ultimately show ?thesis unfolding selector_destroy_def by (auto elim!: returns_mono)
qed

lemma server_finish_all:
  fixes sv :: "'k server"
  assumes a: "posix_ok os" "users_wf us" "reachable os us sv"
  shows "returns (server_finish os sv) (\<lambda>sv'. clients (sv_world sv') = Map.empty \<and> mgmts (sv_world sv') = Map.empty
    \<and> fds (sv_world sv') = [] \<and> resolution_jobs (sv_world sv') = []
    \<and> (\<forall>j job. jobs (sv_world sv') j = Some job \<longrightarrow> job_state job = None \<and> threads (sv_world sv') j = Some Resolving))"
proof -
  have inv: "server_inv sv" by (rule reachable_inv [OF a])
  have ne: "sv_server_fd sv \<noteq> sv_management_fd sv" using inv by (simp add: server_inv_def)
  have "returns (if \<not> sv_stopped sv then stop_accepting os sv else Inr sv) (\<lambda>sv'. between Map.empty (sv_world sv'))"
  proof (cases "sv_stopped sv")
    case True
    with inv show ?thesis by (simp add: server_inv_def listening_def)
  next
    case False
    with inv stop_accepting_inv [OF ne, of os] show ?thesis
      by (auto simp: server_inv_def listening_def elim!: returns_mono)
  qed
  then obtain sv1 where 1: "(if \<not> sv_stopped sv then stop_accepting os sv else Inr sv) = Inr sv1"
    and b: "between Map.empty (sv_world sv1)" by (auto simp: returns_iff)
  have "world_inv (idle Map.empty (resolution_jobs (sv_world sv1))) (sv_world sv1)" using b by (simp add: between_def)
  from selector_destroy_all [OF this, of os] 1 show ?thesis
    unfolding server_finish_def by (auto elim!: returns_mono)
qed

end
