(* ===== verification/Demo.thy ===== *)
theory Demo
  imports Runs
begin

text \<open>
  A concrete operating system, with which the hypotheses of the properties are met. Its state
  is a script: how many connections wait at a listening socket, the chunks that \<open>recv\<close> returns
  one after the other, and how many bytes each \<open>send\<close> takes. Two runs are evaluated in full:
  one through the handshake into a relay with a byte left to send, and one into the
  resolution of a name.
\<close>

type_synonym script = "nat \<times> byte list list \<times> nat list"

definition demo_os :: "script os" where
  "demo_os = \<lparr>
     os_recv = (\<lambda>fd n (b, rs, ss). case rs of [] \<Rightarrow> (Inl EAGAIN, (b, [], ss)) | r # rs \<Rightarrow> (Inr (take n r), (b, rs, ss))),
     os_send = (\<lambda>fd bs (b, rs, ss).
       case ss of [] \<Rightarrow> (Inl EAGAIN, (b, rs, [])) | m # ss \<Rightarrow> (Inr (min m (length bs)), (b, rs, ss))),
     os_accept = (\<lambda>fd (b, rs, ss). if b = 0 then (Inl EAGAIN, (0, rs, ss)) else (Inr 5, (b - 1, rs, ss))),
     os_socket = (\<lambda>fam k. (Inr 6, k)),
     os_connect = (\<lambda>fd a l k. (Some EINPROGRESS, k)),
     os_so_error = (\<lambda>fd k. (Inr 0, k)),
     os_getfl = (\<lambda>fd k. (Inr 0, k)),
     os_setfl = (\<lambda>fd fl k. (None, k)),
     os_close = (\<lambda>fd k. k),
     os_calloc = (\<lambda>k. (True, k)),
     os_realloc = (\<lambda>n. True),
     os_mutex_init = (\<lambda>k. (True, k)),
     os_thread_create = (\<lambda>k. (True, k)),
     os_getaddrinfo = (\<lambda>h p k. ((EAI_NONAME, None), k)),
     os_inet_ntop = (\<lambda>af a. Some (bytes ''127.0.0.1'')),
     os_fopen = (\<lambda>k. (False, k)),
     os_gmtime = (\<lambda>k. (None, k)),
     os_backlog = (\<lambda>fd (b, rs, ss). b)\<rparr>"

lemma demo_posix: "posix_ok demo_os"
  by (auto simp: posix_ok_def demo_os_def split: prod.splits if_splits list.splits)

lemma demo_os_simps [simp]:
  "os_recv demo_os fd n (b, rs, ss) =
     (case rs of [] \<Rightarrow> (Inl EAGAIN, (b, [], ss)) | r # rs \<Rightarrow> (Inr (take n r), (b, rs, ss)))"
  "os_send demo_os fd bs (b, rs, ss) =
     (case ss of [] \<Rightarrow> (Inl EAGAIN, (b, rs, [])) | m # ss \<Rightarrow> (Inr (min m (length bs)), (b, rs, ss)))"
  "os_accept demo_os fd (b, rs, ss) = (if b = 0 then (Inl EAGAIN, (0, rs, ss)) else (Inr 5, (b - 1, rs, ss)))"
  "os_socket demo_os fam k = (Inr 6, k)" "os_connect demo_os fd a l k = (Some EINPROGRESS, k)"
  "os_so_error demo_os fd k = (Inr 0, k)" "os_getfl demo_os fd k = (Inr 0, k)" "os_setfl demo_os fd fl k = (None, k)"
  "os_close demo_os fd k = k" "os_calloc demo_os k = (True, k)" "os_realloc demo_os n"
  "os_mutex_init demo_os k = (True, k)" "os_thread_create demo_os k = (True, k)"
  "os_getaddrinfo demo_os h p k = ((EAI_NONAME, None), k)"
  "os_inet_ntop demo_os af adr = Some (bytes ''127.0.0.1'')" "os_fopen demo_os k = (False, k)"
  "os_backlog demo_os fd (b, rs, ss) = b"
  by (simp_all add: demo_os_def split: list.splits)

section \<open>Evaluation\<close>

text \<open>What comes after a call is not looked into before the call is evaluated.\<close>

lemma bindE_weak_cong: "r = r' \<Longrightarrow> bindE r f = bindE r' f" by simp

lemma returns_weak_cong: "r = r' \<Longrightarrow> returns r Q = returns r' Q" by simp

lemma upt_7: "[0..<5] = [0, 1, 2, 3, 4::nat]" "[0..<6] = [0, 1, 2, 3, 4, 5::nat]" "[0..<7] = [0, 1, 2, 3, 4, 5, 6::nat]"
  by (simp_all add: upt_rec)

lemma new_session_eq: "new_session fd = Inr (zero_client_state\<lparr>client_fd := fd, target_fd := -1,
   username := bytes ''anonymous'' @ 0 # replicate 246 0\<rparr>)"
  by (simp add: new_session_def zero_client_state_def c_snprintf_def array_write_def overwrite_def
      CLIENT_USERNAME_MAX_def bytes_def)

lemma demo_users: "\<not> users_are_configured zero_users"
  by (simp add: users_are_configured_def users_count_card)

lemmas eval_selector = selector_register_def INVALID_FD_def FD_SETSIZE_def array_get_def ITEM_USED_def item_init_def
  zero_item_def FD_UNUSED_def items_update_fdset_for_fd_def Let_def nth_list_update wants_def OP_READ_def OP_WRITE_def
  OP_NOOP_def handle_item_def item_callback_def selector_select_def handle_iteration_def upt_7
  handle_block_notifications_def selector_set_interest_def insert_commute insert_Diff_if

lemmas eval_server = start_server_def initial_world_def server_turn_def sigterm_handler_def accept_connection_def
  new_session_eq alloc_client_def sys_accept_def set_nonblocking_def ask_def sys_recv_def sys_send_def sys_socket_def
  sys_connect_def sys_so_error_def sys_close_def drop_status_def get_client.simps put_client.simps
  array_write_def overwrite_def array_read_def c_snprintf_def relay_channel_def

lemmas eval_sizes = zero_client_state_def SERVER_BUFFER_SIZE_def CLIENT_DESTINATION_MAX_def CLIENT_USERNAME_MAX_def
  EAGAIN_def EWOULDBLOCK_def EINPROGRESS_def AF_INET_def AF_INET6_def

lemmas eval_client = client_read_def client_read_greeting_def answer_greeting_def socks5_prepare_greeting_response_def
  auth_is_required_def demo_users client_write_def send_loop.simps client_write_reply_def count_nothing_def
  client_session_update_relay_interests_def client_read_request_def client_read_relay_def
  client_relay_interest_def target_relay_interest_def socks5_request_reply_for_def
  socks5_request_is_incomplete_def socks5_parse_connect_request_def port_of_def

lemmas eval_target = target_connection_begin_def remember_request_destination_def start_target_connection_def
  register_connecting_socket_def target_connection_free_addresses_def target_connection_detach_resolver_def
  start_target_resolution_def target_write_def target_write_connecting_def target_connection_succeeded_def
  finish_connecting_def reply_to_client_def socks5_prepare_request_response_def access_log_client_connection_def
  access_log_connection_def set_stage_def resolve_target_def get_job_def resolve_notify_def selector_notify_block_def

section \<open>The two runs\<close>

definition ready_to :: "int set \<Rightarrow> int set \<Rightarrow> script event" where
  "ready_to rs ws = Turn (Inr (rs, ws)) 0"

text \<open>A client asks for 127.0.0.1:80, gets through, and sends three bytes, of which the target takes two.\<close>

definition relay_script :: script where
  "relay_script = (1, [[5, 1, 0], [5, 1, 0, 1, 127, 0, 0, 1, 0, 80], [1, 2, 3]], [2, 10, 2])"

definition relay_events :: "script event list" where
  "relay_events = [ready_to {3} {}, ready_to {5} {}, ready_to {} {5}, ready_to {5} {}, ready_to {} {6},
     ready_to {} {5}, ready_to {5} {}]"

lemma relay_evaluated:
  "returns (start_server demo_os zero_users 3 4 relay_script) (\<lambda>r. \<exists>sv0. r = Some sv0 \<and>
     returns (run demo_os relay_events sv0) (\<lambda>sv. \<exists>st. clients (sv_world sv) 0 = Some st \<and> stage st = CLIENT_STAGE_RELAY
       \<and> relay_started st \<and> client_fd st = 5 \<and> target_fd st = 6 \<and> c2t_len st = 3 \<and> c2t_off st = 2
       \<and> c2t_buffer st ! 2 = 3 \<and> t2c_len st = 0 \<and> sv_running sv \<and> \<not> sv_stopped sv))"
  by (simp add: relay_script_def relay_events_def ready_to_def eval_selector eval_server eval_sizes eval_client eval_target
      cong: bindE_weak_cong returns_weak_cong)

text \<open>A client asks for the host \<open>a\<close>, port 80; its resolver thread fails and notifies the selector.\<close>

definition resolver_script :: script where
  "resolver_script = (1, [[5, 1, 0], [5, 1, 0, 3, 1, 97, 0, 80]], [2])"

definition resolver_events :: "script event list" where
  "resolver_events = [ready_to {3} {}, ready_to {5} {}, ready_to {} {5}, ready_to {5} {}, Resolved 1, Notified 1]"

lemma resolver_evaluated:
  "returns (start_server demo_os zero_users 3 4 resolver_script) (\<lambda>r. \<exists>sv0. r = Some sv0 \<and>
     returns (run demo_os resolver_events sv0) (\<lambda>sv. \<exists>st. clients (sv_world sv) 0 = Some st
       \<and> stage st = CLIENT_STAGE_RESOLVING \<and> client_fd st = 5 \<and> resolver_job st = Some 1
       \<and> resolution_jobs (sv_world sv) = [5]))"
  by (simp add: resolver_script_def resolver_events_def ready_to_def eval_selector eval_server eval_sizes eval_client eval_target
      cong: bindE_weak_cong returns_weak_cong)

text \<open>A signal before any client came ends the loop.\<close>

lemma items_5:
  "replicate 5 x = [x, x, x, x, x]" "[x0, x1, x2, x3, x4][3 := y] = [x0, x1, x2, y, x4]"
  "[x0, x1, x2, x3, x4][4 := y] = [x0, x1, x2, x3, y]"
  by (simp_all add: eval_nat_numeral)

lemmas eval_close = stop_accepting_def selector_unregister_fd_def items_max_fd_def take_update_swap items_5

lemma shutdown_evaluated:
  "returns (start_server demo_os zero_users 3 4 relay_script) (\<lambda>r. \<exists>sv0. r = Some sv0 \<and>
     returns (run demo_os [Turn (Inl EINTR) 1] sv0) (\<lambda>sv. \<not> sv_running sv))"
  by (simp add: relay_script_def EINTR_def eval_close eval_selector eval_server eval_sizes cong: bindE_weak_cong returns_weak_cong)

end
