(* ===== verification/Parser.thy ===== *)
theory Parser
  imports Prelude
begin

text \<open>
  \<^verbatim>\<open>src/src/utils/parser.c\<close> and \<^verbatim>\<open>parser_utils.c\<close>: a table-driven parser that is fed one byte at
  a time and answers each with an event, and the table that compares its input with a word,
  ignoring case. A transition's actions are functions on the event they fill in. The two
  events are members of the parser; \<open>ev_next\<close> says whether \<open>next\<close> points to the second one
  or is NULL. A pointer into an array is the rest of the array.

  The table is proved to recognise exactly the spellings of its word.
\<close>

section \<open>The engine\<close>

record parser_event =
  ev_type :: "32 word"
  ev_data :: "byte list"
  ev_n :: byte
  ev_next :: bool

type_synonym parser_action = "parser_event \<Rightarrow> byte \<Rightarrow> parser_event"

record parser_state_transition =
  tr_when :: int
  tr_dest :: "32 word"
  tr_act1 :: "parser_action option"
  tr_act2 :: "parser_action option"

definition ANY :: int where "ANY = push_bit 9 1"

record parser_definition =
  pd_states_count :: "32 word"
  pd_states :: "parser_state_transition list list"
  pd_states_n :: "nat list"
  pd_start_state :: "32 word"

record parser =
  pr_classes :: "32 word list"
  pr_def :: parser_definition
  pr_state :: "32 word"
  pr_e1 :: parser_event
  pr_e2 :: parser_event

definition zero_event :: parser_event where
  "zero_event = \<lparr>ev_type = 0, ev_data = [0, 0, 0], ev_n = 0, ev_next = False\<rparr>"

text \<open>\<open>None\<close> is the result NULL, when \<open>malloc\<close> fails.\<close>

definition parser_init :: "bool \<Rightarrow> 32 word list \<Rightarrow> parser_definition \<Rightarrow> parser option" where
  "parser_init malloc_ok cls def =
     (if \<not> malloc_ok then None
      else Some \<lparr>pr_classes = cls, pr_def = def, pr_state = pd_start_state def,
             pr_e1 = zero_event, pr_e2 = zero_event\<rparr>)"


text \<open>The condition of a transition; \<open>type\<close> is the class of the byte.\<close>

definition transition_matches :: "int \<Rightarrow> byte \<Rightarrow> 32 word \<Rightarrow> bool" where
  "transition_matches when c type =
     (if when \<le> 0xFF then uint c = when
      else if when = ANY then True
      else if when > 0xFF then type AND of_int when \<noteq> 0
      else False)"

fun feed_transitions ::
  "parser_state_transition list \<Rightarrow> nat list \<Rightarrow> byte \<Rightarrow> 32 word \<Rightarrow> parser \<Rightarrow> parser result" where
  "feed_transitions state [] c type p = Inr p"
| "feed_transitions state (i # is) c type p =
     bindE (array_get state i) (\<lambda>t.
     if transition_matches (tr_when t) c type then
       (case tr_act1 t of
          None \<Rightarrow> Inl NullCall
        | Some act1 \<Rightarrow>
            let p = p\<lparr>pr_e1 := act1 (pr_e1 p) c\<rparr>;
                p = (case tr_act2 t of
                       None \<Rightarrow> p
                     | Some act2 \<Rightarrow> p\<lparr>pr_e1 := (pr_e1 p)\<lparr>ev_next := True\<rparr>, pr_e2 := act2 (pr_e2 p) c\<rparr>)
            in Inr (p\<lparr>pr_state := tr_dest t\<rparr>))
     else feed_transitions state is c type p)"

text \<open>The event that is returned is \<open>pr_e1\<close> of the parser.\<close>

definition parser_feed :: "parser \<Rightarrow> byte \<Rightarrow> parser result" where
  "parser_feed p c =
     bindE (array_get (pr_classes p) (unat c)) (\<lambda>type.
     let p = p\<lparr>pr_e1 := (pr_e1 p)\<lparr>ev_next := False\<rparr>, pr_e2 := (pr_e2 p)\<lparr>ev_next := False\<rparr>\<rparr> in
     bindE (array_get (pd_states (pr_def p)) (unat (pr_state p))) (\<lambda>state.
     bindE (array_get (pd_states_n (pr_def p)) (unat (pr_state p))) (\<lambda>n.
     feed_transitions state [0..<n] c type p)))"

text \<open>The array has \<open>0xFF\<close> elements, one less than there are bytes.\<close>

definition parser_no_classes :: "32 word list" where
  "parser_no_classes = replicate 0xFF 0x00"

section \<open>Comparing with a word\<close>

definition STRING_CMP_MAYEQ :: "32 word" where "STRING_CMP_MAYEQ = 0"
definition STRING_CMP_EQ :: "32 word" where "STRING_CMP_EQ = 1"
definition STRING_CMP_NEQ :: "32 word" where "STRING_CMP_NEQ = 2"

definition parser_utils_strcmpi_event :: "32 word \<Rightarrow> string option" where
  "parser_utils_strcmpi_event type =
     (if type = STRING_CMP_MAYEQ then Some ''wait(c)''
      else if type = STRING_CMP_EQ then Some ''eq(c)''
      else if type = STRING_CMP_NEQ then Some ''neq(c)''
      else None)"

definition may_eq :: parser_action where
  "may_eq ret c = ret\<lparr>ev_type := STRING_CMP_MAYEQ, ev_n := 1, ev_data := (ev_data ret)[0 := c]\<rparr>"

definition eq_act :: parser_action where
  "eq_act ret c = ret\<lparr>ev_type := STRING_CMP_EQ, ev_n := 1, ev_data := (ev_data ret)[0 := c]\<rparr>"

definition neq_act :: parser_action where
  "neq_act ret c = ret\<lparr>ev_type := STRING_CMP_NEQ, ev_n := 1, ev_data := (ev_data ret)[0 := c]\<rparr>"

text \<open>\<open>tolower\<close> and \<open>toupper\<close> of the C locale, on a \<open>char\<close>, which is signed.\<close>

definition c_tolower :: "int \<Rightarrow> int" where
  "c_tolower c = (if 65 \<le> c \<and> c \<le> 90 then c + 32 else c)"

definition c_toupper :: "int \<Rightarrow> int" where
  "c_toupper c = (if 97 \<le> c \<and> c \<le> 122 then c - 32 else c)"

definition zero_transition :: parser_state_transition where
  "zero_transition = \<lparr>tr_when = 0, tr_dest = 0, tr_act1 = None, tr_act2 = None\<rparr>"

text \<open>One turn of the loop: the three transitions of the state for the word's \<open>i\<close>-th byte.\<close>

definition strcmpi_state ::
  "byte list \<Rightarrow> nat \<Rightarrow> parser_state_transition list \<Rightarrow> parser_state_transition list result" where
  "strcmpi_state s i ts =
     (let n = length s;
          dest = of_nat (if i + 1 = n then n else i + 1);
          act = (if i + 1 = n then eq_act else may_eq)
      in
        bindE (array_get s i) (\<lambda>c.
        bindE (array_put ts (i * 3 + 0) (zero_transition\<lparr>tr_when := c_tolower (sint c), tr_dest := dest, tr_act1 := Some act\<rparr>)) (\<lambda>ts.
        bindE (array_put ts (i * 3 + 1) (zero_transition\<lparr>tr_when := c_toupper (sint c), tr_dest := dest, tr_act1 := Some act\<rparr>)) (\<lambda>ts.
        array_put ts (i * 3 + 2)
          (zero_transition\<lparr>tr_when := ANY, tr_dest := of_nat (n + 1), tr_act1 := Some neq_act\<rparr>)))))"

fun strcmpi_states ::
  "byte list \<Rightarrow> nat list \<Rightarrow> parser_state_transition list \<Rightarrow> parser_state_transition list result" where
  "strcmpi_states s [] ts = Inr ts"
| "strcmpi_states s (i # is) ts = bindE (strcmpi_state s i ts) (strcmpi_states s is)"

text \<open>\<open>s\<close> is the word without its NUL; \<open>calloc_ok\<close> says whether the three allocations succeed.\<close>

definition parser_utils_strcmpi :: "bool \<Rightarrow> byte list \<Rightarrow> parser_definition result" where
  "parser_utils_strcmpi calloc_ok s =
     (if \<not> calloc_ok
      then Inr \<lparr>pd_states_count = 0, pd_states = [], pd_states_n = [], pd_start_state = 0\<rparr>
      else
        let n = length s;
            sink = zero_transition\<lparr>tr_when := ANY, tr_dest := of_nat (n + 1), tr_act1 := Some neq_act\<rparr>
        in
          bindE (strcmpi_states s [0..<n] (replicate (3 * (n + 2)) zero_transition)) (\<lambda>ts.
          bindE (array_put ts ((n + 0) * 3) sink) (\<lambda>ts.
          bindE (array_put ts ((n + 1) * 3) sink) (\<lambda>ts.
          Inr \<lparr>pd_states_count = of_nat (n + 2), pd_states = map (\<lambda>i. drop (i * 3) ts) [0..<n + 2],
                pd_states_n = replicate n 3 @ [1, 1], pd_start_state = 0\<rparr>))))"

section \<open>The table\<close>

definition strcmpi_row :: "byte list \<Rightarrow> nat \<Rightarrow> parser_state_transition list" where
  "strcmpi_row s i =
     (let dest = of_nat (i + 1); act = Some (if i + 1 = length s then eq_act else may_eq) in
      [\<lparr>tr_when = c_tolower (sint (s ! i)), tr_dest = dest, tr_act1 = act, tr_act2 = None\<rparr>,
       \<lparr>tr_when = c_toupper (sint (s ! i)), tr_dest = dest, tr_act1 = act, tr_act2 = None\<rparr>,
       \<lparr>tr_when = ANY, tr_dest = of_nat (length s + 1), tr_act1 = Some neq_act, tr_act2 = None\<rparr>])"

definition strcmpi_sink :: "byte list \<Rightarrow> parser_state_transition" where
  "strcmpi_sink s = \<lparr>tr_when = ANY, tr_dest = of_nat (length s + 1), tr_act1 = Some neq_act, tr_act2 = None\<rparr>"

definition strcmpi_rows :: "byte list \<Rightarrow> nat \<Rightarrow> parser_state_transition list" where
  "strcmpi_rows s k = concat (map (strcmpi_row s) [0..<k])"

lemma length_row [simp]: "length (strcmpi_row s i) = 3"
  by (simp add: strcmpi_row_def Let_def)

lemma length_rows [simp]: "length (strcmpi_rows s k) = 3 * k"
  by (induction k) (simp_all add: strcmpi_rows_def)

lemma strcmpi_state_row:
  assumes i: "i < length s"
  shows "strcmpi_state s i (strcmpi_rows s i @ a # b # c # rest) = Inr (strcmpi_rows s (Suc i) @ rest)"
proof -
  have "(if i + 1 = length s then length s else i + 1) = i + 1" by simp
  then show ?thesis
    using i by (simp add: strcmpi_state_def strcmpi_rows_def strcmpi_row_def Let_def zero_transition_def
        array_put_def array_get_def list_update_append mult.commute [of i] length_rows [unfolded strcmpi_rows_def])
qed

lemma strcmpi_states_rows:
  "k \<le> length s \<Longrightarrow> strcmpi_states s [k..<length s] (strcmpi_rows s k @ replicate (3 * (length s - k) + 6) zero_transition)
     = Inr (strcmpi_rows s (length s) @ replicate 6 zero_transition)"
proof (induction "length s - k" arbitrary: k)
  case 0
  then show ?case by simp
next
  case (Suc d)
  then have k: "k < length s" "[k..<length s] = k # [Suc k..<length s]" by (simp_all add: upt_rec)
  have "3 * (length s - k) + 6 = Suc (Suc (Suc (3 * (length s - Suc k) + 6)))" using k by simp
  then have "replicate (3 * (length s - k) + 6) zero_transition
      = zero_transition # zero_transition # zero_transition # replicate (3 * (length s - Suc k) + 6) zero_transition"
    by (simp only: replicate_Suc)
  with Suc.hyps(1) [of "Suc k"] Suc.hyps(2) k strcmpi_state_row [OF k(1)] show ?case by simp
qed

text \<open>The table as the parser sees it: the rows of the word's bytes, and the two sinks.\<close>

lemma strcmpi_table:
  "returns (parser_utils_strcmpi True s) (\<lambda>d. pd_start_state d = 0 \<and> pd_states_count d = of_nat (length s + 2)
     \<and> length (pd_states d) = length s + 2
     \<and> (\<forall>i < length s. (\<exists>rest. pd_states d ! i = strcmpi_row s i @ rest) \<and> pd_states_n d ! i = 3)
     \<and> (\<forall>i \<in> {length s, length s + 1}. (\<exists>rest. pd_states d ! i = strcmpi_sink s # rest) \<and> pd_states_n d ! i = 1)
     \<and> length (pd_states_n d) = length s + 2)"
proof -
  let ?n = "length s"
  let ?ts = "strcmpi_rows s ?n @ [strcmpi_sink s, zero_transition, zero_transition, strcmpi_sink s, zero_transition, zero_transition]"
  have "strcmpi_rows s 0 = []" by (simp add: strcmpi_rows_def)
  then have fill: "strcmpi_states s [0..<?n] (replicate (3 * (?n + 2)) zero_transition)
      = Inr (strcmpi_rows s ?n @ replicate 6 zero_transition)"
    using strcmpi_states_rows [of 0 s] by (simp add: algebra_simps)
  have six: "replicate 6 z = [z, z, z, z, z, z]" for z :: parser_state_transition by (simp add: eval_nat_numeral)
  have e: "parser_utils_strcmpi True s = Inr \<lparr>pd_states_count = of_nat (?n + 2),
      pd_states = map (\<lambda>i. drop (i * 3) ?ts) [0..<?n + 2], pd_states_n = replicate ?n 3 @ [1, 1], pd_start_state = 0\<rparr>"
    unfolding parser_utils_strcmpi_def Let_def fill
    by (simp add: six array_put_def list_update_append strcmpi_sink_def zero_transition_def mult.commute [of ?n])
  have rows: "\<exists>rest. drop (i * 3) ?ts = strcmpi_row s i @ rest" if "i < ?n" for i
  proof -
    have "strcmpi_rows s ?n = strcmpi_rows s i @ strcmpi_row s i @ concat (map (strcmpi_row s) [Suc i..<?n])"
    proof -
      have "[0..<?n] = [0..<i] @ i # [Suc i..<?n]" using that upt_add_eq_append [of 0 i "?n - i"] by (simp add: upt_conv_Cons)
      then show ?thesis by (simp add: strcmpi_rows_def)
    qed
    then show ?thesis by (simp add: mult.commute)
  qed
  have sinks: "\<exists>rest. drop (i * 3) ?ts = strcmpi_sink s # rest" if "i = ?n \<or> i = ?n + 1" for i
    using that by (elim disjE) (simp_all add: mult.commute)
  show ?thesis unfolding e using rows sinks by (auto simp: nth_append simp del: upt_Suc)
qed

section \<open>Spellings\<close>

definition lower :: "byte \<Rightarrow> nat" where
  "lower c = (if 65 \<le> unat c \<and> unat c \<le> 90 then unat c + 32 else unat c)"

text \<open>No byte outside ASCII is compared as equal: as a signed \<open>char\<close> it is negative in the table.\<close>

definition same_letter :: "byte \<Rightarrow> byte \<Rightarrow> bool" where
  "same_letter d c \<longleftrightarrow> unat d < 128 \<and> lower d = lower c"

definition spelt :: "byte list \<Rightarrow> byte list \<Rightarrow> bool" where
  "spelt s w \<longleftrightarrow> length w \<le> length s \<and> (\<forall>i < length w. same_letter (s ! i) (w ! i))"

definition strcmpi_answer :: "byte list \<Rightarrow> byte list \<Rightarrow> 32 word" where
  "strcmpi_answer s w =
     (if \<not> spelt s w then STRING_CMP_NEQ else if length w = length s then STRING_CMP_EQ else STRING_CMP_MAYEQ)"

fun parser_feed_all :: "parser \<Rightarrow> byte list \<Rightarrow> parser result" where
  "parser_feed_all p [] = Inr p"
| "parser_feed_all p (c # cs) = bindE (parser_feed p c) (\<lambda>p. parser_feed_all p cs)"

lemma sint_byte: "sint (d :: byte) = (if unat d < 128 then int (unat d) else int (unat d) - 256)"
proof -
  define x where "x = uint d"
  have x: "0 \<le> x" "x < 256" using uint_lt2p [of d] by (simp_all add: x_def)
  have "sint d = take_bit 8 x - 256 * of_bool (bit x 7)"
    by (simp add: sint_uint signed_take_bit_eq_take_bit_minus x_def)
  moreover have "take_bit 8 x = x" using x by (simp add: take_bit_eq_mod)
  moreover have "bit x 7 \<longleftrightarrow> 128 \<le> x"
  proof (cases "128 \<le> x")
    case True
    then have "x div 128 = 1" using x by simp
    with True show ?thesis by (simp add: bit_iff_odd)
  next
    case False
    then have "x div 128 = 0" using x by simp
    with False show ?thesis by (simp add: bit_iff_odd)
  qed
  ultimately have s: "sint d = (if 128 \<le> x then x - 256 else x)" by simp
  have xu: "x = int (unat d)" by (simp add: x_def)
  show ?thesis
  proof (cases "unat d < 128")
    case True
    then have "\<not> 128 \<le> x" using xu by linarith
    with s xu have "sint d = int (unat d)" by (simp only: if_False)
    then show ?thesis by (simp only: True if_True)
  next
    case False
    then have "128 \<le> x" using xu by linarith
    with s xu have "sint d = int (unat d) - 256" by (simp only: if_True)
    then show ?thesis by (simp only: False if_False)
  qed
qed

lemma low_matches: "when \<le> 0xFF \<Longrightarrow> transition_matches when c type \<longleftrightarrow> int (unat c) = when"
  by (simp add: transition_matches_def)

lemma letter_arith:
  fixes x y :: nat
  assumes "x < 128"
  shows "int y = c_tolower (int x) \<or> int y = c_toupper (int x) \<longleftrightarrow>
    (if 65 \<le> x \<and> x \<le> 90 then x + 32 else x) = (if 65 \<le> y \<and> y \<le> 90 then y + 32 else y)"
  using assms unfolding c_tolower_def c_toupper_def
  by (cases "65 \<le> x \<and> x \<le> 90"; cases "97 \<le> x \<and> x \<le> 122"; cases "65 \<le> y \<and> y \<le> 90") auto

lemma letter_matches:
  "transition_matches (c_tolower (sint d)) c type \<or> transition_matches (c_toupper (sint d)) c type \<longleftrightarrow> same_letter d c"
proof (cases "unat d < 128")
  case True
  then have s: "sint d = int (unat d)" by (simp only: sint_byte if_True)
  have "int (unat d) < 128" using True by linarith
  then have "c_tolower (sint d) \<le> 0xFF" "c_toupper (sint d) \<le> 0xFF" unfolding s c_tolower_def c_toupper_def
    by (auto split: if_splits)
  then show ?thesis using letter_arith [OF True] True by (simp only: low_matches s same_letter_def lower_def simp_thms)
next
  case False
  have "unat d < 256" using unsigned_less [of d] by simp
  then have n: "sint d < 0" using False by (simp only: sint_byte if_False)
  then have "c_tolower (sint d) < 0" "c_toupper (sint d) < 0" by (simp_all add: c_tolower_def c_toupper_def)
  moreover have "0 \<le> int (unat c)" by (rule of_nat_0_le_iff)
  ultimately have "\<not> transition_matches (c_tolower (sint d)) c type" "\<not> transition_matches (c_toupper (sint d)) c type"
    by (simp_all only: low_matches)
  with False show ?thesis by (simp add: same_letter_def)
qed

lemma any_matches [simp]: "transition_matches ANY c type"
  by (simp add: transition_matches_def ANY_def)

text \<open>The state of a parser that has read \<open>w\<close>.\<close>

definition has_read :: "byte list \<Rightarrow> byte list \<Rightarrow> parser \<Rightarrow> bool" where
  "has_read s w p \<longleftrightarrow> pr_classes p = parser_no_classes \<and> parser_utils_strcmpi True s = Inr (pr_def p)
     \<and> pr_state p = of_nat (if spelt s w then length w else length s + 1)
     \<and> (\<exists>c. ev_data (pr_e1 p) = [c, 0, 0])
     \<and> (w \<noteq> [] \<longrightarrow> pr_e1 p = \<lparr>ev_type = strcmpi_answer s w, ev_data = [last w, 0, 0], ev_n = 1, ev_next = False\<rparr>)"

lemma spelt_snoc: "spelt s (w @ [c]) \<longleftrightarrow> spelt s w \<and> length w < length s \<and> same_letter (s ! length w) c"
  by (auto simp: spelt_def nth_append less_Suc_eq)

lemma unat_state: "k \<le> length s + 1 \<Longrightarrow> length s + 2 \<le> 2 ^ 32 \<Longrightarrow> unat (of_nat k :: 32 word) = k"
  by (simp add: unat_of_nat)

lemma has_read_feed:
  assumes r: "has_read s w p" and c: "c \<noteq> 0xFF" and n: "length s + 2 \<le> 2 ^ 32"
  shows "returns (parser_feed p c) (has_read s (w @ [c]))"
proof -
  let ?k = "if spelt s w then length w else length s + 1"
  let ?p = "p\<lparr>pr_e1 := (pr_e1 p)\<lparr>ev_next := False\<rparr>, pr_e2 := (pr_e2 p)\<lparr>ev_next := False\<rparr>\<rparr>"
  from r obtain b where p: "pr_classes p = parser_no_classes" "parser_utils_strcmpi True s = Inr (pr_def p)"
    "pr_state p = of_nat ?k" "ev_data (pr_e1 p) = [b, 0, 0]" by (auto simp: has_read_def)
  have k: "?k \<le> length s + 1" "unat (pr_state p) = ?k" using p(3) unat_state [OF _ n, of ?k] by (auto simp: spelt_def)
  have t: "length (pd_states (pr_def p)) = length s + 2" "length (pd_states_n (pr_def p)) = length s + 2"
    "i < length s \<Longrightarrow> (\<exists>rest. pd_states (pr_def p) ! i = strcmpi_row s i @ rest) \<and> pd_states_n (pr_def p) ! i = 3"
    "i \<in> {length s, length s + 1} \<Longrightarrow> (\<exists>rest. pd_states (pr_def p) ! i = strcmpi_sink s # rest) \<and> pd_states_n (pr_def p) ! i = 1"
    for i using strcmpi_table [of s] unfolding p(2) returns_simps by blast+
  have "unat c < 255"
  proof -
    have "of_nat (unat c) = c" by simp
    then have "unat c \<noteq> 255" using c by (metis of_nat_numeral)
    moreover have "unat c < 256" using unsigned_less [of c] by (simp only: len_num1 len_bit0) simp
    ultimately show ?thesis by linarith
  qed
  then have cls: "array_get (pr_classes p) (unat c) = Inr 0" by (simp add: p(1) parser_no_classes_def)
  have feed: "parser_feed p c = feed_transitions (pd_states (pr_def p) ! ?k) [0..<pd_states_n (pr_def p) ! ?k] c 0 ?p"
    using k t(1,2) by (simp add: parser_feed_def cls k(2))
  have three: "[0..<3] = [0, 1, 2 :: nat]" by (simp add: upt_rec)
  consider (row) "spelt s w" "length w < length s" | (sink) "?k = length s \<or> ?k = length s + 1" "\<not> spelt s (w @ [c])"
    by (cases "spelt s w") (auto simp: spelt_snoc, auto simp: spelt_def le_eq_less_or_eq)
  then show ?thesis
  proof cases
    case row
    then obtain rest where row': "pd_states (pr_def p) ! ?k = strcmpi_row s (length w) @ rest"
      "pd_states_n (pr_def p) ! ?k = 3" using t(3) [of "length w"] by auto
    show ?thesis
    proof (cases "same_letter (s ! length w) c")
      case True
      with row letter_matches [of "s ! length w" c 0] have sp: "spelt s (w @ [c])" by (simp add: spelt_snoc)
      with True row p letter_matches [of "s ! length w" c 0] show ?thesis
        unfolding feed row' three
        by (auto simp: strcmpi_row_def Let_def has_read_def strcmpi_answer_def may_eq_def eq_act_def)
    next
      case False
      with row have sp: "\<not> spelt s (w @ [c])" by (simp add: spelt_snoc)
      with False p letter_matches [of "s ! length w" c 0] show ?thesis
        unfolding feed row' three
        by (auto simp: strcmpi_row_def Let_def has_read_def strcmpi_answer_def neq_act_def)
    qed
  next
    case sink
    then obtain rest where row': "pd_states (pr_def p) ! ?k = strcmpi_sink s # rest" "pd_states_n (pr_def p) ! ?k = 1"
      using t(4) [of ?k] by auto
    show ?thesis
      unfolding feed row' using p sink(2)
      by (auto simp: strcmpi_sink_def has_read_def strcmpi_answer_def neq_act_def)
  qed
qed

lemma has_read_feed_all:
  "has_read s w p \<Longrightarrow> 0xFF \<notin> set v \<Longrightarrow> length s + 2 \<le> 2 ^ 32 \<Longrightarrow> returns (parser_feed_all p v) (has_read s (w @ v))"
proof (induction v arbitrary: w p)
  case (Cons c v)
  from has_read_feed [OF Cons.prems(1), of c] Cons.prems(2,3)
  have "returns (parser_feed p c) (has_read s (w @ [c]))" by auto
  then show ?case using Cons.IH [of "w @ [c]"] Cons.prems(2,3) by (auto elim!: returns_mono)
qed simp

lemma has_read_init: "parser_utils_strcmpi True s = Inr d \<Longrightarrow> parser_init True parser_no_classes d = Some p \<Longrightarrow> has_read s [] p"
  using strcmpi_table [of s] by (auto simp: parser_init_def has_read_def zero_event_def spelt_def)


section \<open>The byte that has no class\<close>

text \<open>Whatever the table and the state of the parser.\<close>

theorem no_classes_too_short:
  "pr_classes p = parser_no_classes \<Longrightarrow> parser_feed p 0xFF = Inl OutOfBounds"
  by (simp add: parser_feed_def parser_no_classes_def array_get_def)

theorem no_classes_too_short_witness:
  "returns (parser_utils_strcmpi True (bytes ''foo'')) (\<lambda>d. \<exists>p. parser_init True parser_no_classes d = Some p \<and>
    parser_feed p 0xFF = Inl OutOfBounds)"
  by (rule returns_mono [OF strcmpi_table]) (auto simp: parser_init_def intro: no_classes_too_short)

lemma feed_all_append: "parser_feed_all p (u @ v) = bindE (parser_feed_all p u) (\<lambda>p. parser_feed_all p v)"
  by (induction u arbitrary: p) (simp_all add: bindE_assoc)

lemma has_read_feed_all_fault:
  assumes "has_read s [] p" "length s + 2 \<le> 2 ^ 32" "0xFF \<in> set w"
  shows "parser_feed_all p w = Inl OutOfBounds"
proof -
  obtain u v where w: "w = u @ 0xFF # v" "0xFF \<notin> set u" using split_list_first [OF assms(3)] by blast
  obtain q where "parser_feed_all p u = Inr q" "has_read s ([] @ u) q"
    by (rule returnsE [OF has_read_feed_all [OF assms(1) w(2) assms(2)]])
  then show ?thesis by (simp add: w feed_all_append no_classes_too_short has_read_def)
qed

section \<open>Properties\<close>



text \<open>
  C37. The array of \<open>parser_no_classes\<close> is one element short: the parser of \<open>parser_utils_strcmpi\<close>,
  fed the bytes \<open>w\<close>, reads behind its end exactly if the byte \<open>0xFF\<close> is among them, whatever the
  word and wherever the byte is; otherwise it takes them all.
\<close>

theorem strcmpi_faults_exactly:
  assumes n: "length s + 2 \<le> 2 ^ 32"
  shows "returns (parser_utils_strcmpi True s) (\<lambda>d. \<exists>p. parser_init True parser_no_classes d = Some p \<and>
    (if 0xFF \<in> set w then parser_feed_all p w = Inl OutOfBounds else returns (parser_feed_all p w) (has_read s w)))"
proof (rule returns_mono [OF strcmpi_table])
  fix d assume d: "parser_utils_strcmpi True s = Inr d"
  obtain p where p: "parser_init True parser_no_classes d = Some p" by (simp add: parser_init_def)
  note r = has_read_init [OF d p]
  show "\<exists>p. parser_init True parser_no_classes d = Some p \<and>
    (if 0xFF \<in> set w then parser_feed_all p w = Inl OutOfBounds else returns (parser_feed_all p w) (has_read s w))"
    using p has_read_feed_all_fault [OF r n] has_read_feed_all [OF r _ n] by auto
qed

theorem strcmpi_faults_exactly_witness:
  "returns (parser_utils_strcmpi True (bytes ''foo'')) (\<lambda>d. \<exists>p. parser_init True parser_no_classes d = Some p \<and>
    parser_feed_all p (bytes ''fo'' @ [0xFF]) = Inl OutOfBounds)"
proof -
  have h: "length (bytes ''foo'') + 2 \<le> 2 ^ 32" by (simp add: bytes_def)
  show ?thesis by (rule returns_mono [OF strcmpi_faults_exactly [OF h, of "bytes ''fo'' @ [0xFF]"]]) simp
qed

end
