(* ===== verification/Stm.thy ===== *)
theory Stm
  imports Prelude
begin

text \<open>
  \<^verbatim>\<open>src/src/utils/stm.c\<close>: a state machine whose events are the selector's. The callbacks of a
  state work on an environment of type \<open>'e\<close>, through a key of type \<open>'k\<close>; a NULL callback is
  \<open>None\<close> (a callback does not change the machine itself), and \<open>current\<close>, a pointer into the table of states, is an index or \<open>None\<close> for NULL.

  The order of the callbacks is stated with a machine that records them: every state that is
  arrived at is departed from, once, before the next arrival.
\<close>

section \<open>The machine\<close>

record ('k, 'e) state_definition =
  sd_state :: "32 word"
  on_arrival :: "(32 word \<Rightarrow> 'k \<Rightarrow> 'e \<Rightarrow> 'e) option"
  on_departure :: "(32 word \<Rightarrow> 'k \<Rightarrow> 'e \<Rightarrow> 'e) option"
  on_read_ready :: "('k \<Rightarrow> 'e \<Rightarrow> 32 word \<times> 'e) option"
  on_write_ready :: "('k \<Rightarrow> 'e \<Rightarrow> 32 word \<times> 'e) option"
  on_block_ready :: "('k \<Rightarrow> 'e \<Rightarrow> 32 word \<times> 'e) option"

record ('k, 'e) state_machine =
  stm_initial :: "32 word"
  stm_states :: "('k, 'e) state_definition list"
  stm_max_state :: "32 word"
  stm_current :: "nat option"

fun check_states :: "('k, 'e) state_definition list \<Rightarrow> nat list \<Rightarrow> unit result" where
  "check_states states [] = Inr ()"
| "check_states states (i # is) =
     bindE (array_get states i) (\<lambda>s. if of_nat i \<noteq> sd_state s then Inl Aborted else check_states states is)"

text \<open>With the greatest \<open>unsigned\<close> as \<open>max_state\<close> the condition of the loop always holds.\<close>

definition stm_init :: "('k, 'e) state_machine \<Rightarrow> ('k, 'e) state_machine result" where
  "stm_init stm =
     bindE (check_states (stm_states stm) [0..<unat (stm_max_state stm) + 1]) (\<lambda>_.
     if stm_max_state stm = - 1 then Inl LoopBound
     else if stm_initial stm < stm_max_state stm then Inr (stm\<lparr>stm_current := None\<rparr>) else Inl Aborted)"

definition call :: "(32 word \<Rightarrow> 'k \<Rightarrow> 'e \<Rightarrow> 'e) option \<Rightarrow> 32 word \<Rightarrow> 'k \<Rightarrow> 'e \<Rightarrow> 'e" where
  "call f s key e = (case f of None \<Rightarrow> e | Some f \<Rightarrow> f s key e)"

text \<open>Setting \<open>current\<close> and arriving.\<close>

definition arrive ::
  "('k, 'e) state_machine \<Rightarrow> nat \<Rightarrow> 'k \<Rightarrow> 'e \<Rightarrow> (('k, 'e) state_machine \<times> 'e) result" where
  "arrive stm i key e =
     bindE (array_get (stm_states stm) i) (\<lambda>s.
     Inr (stm\<lparr>stm_current := Some i\<rparr>, call (on_arrival s) (sd_state s) key e))"

definition handle_first ::
  "('k, 'e) state_machine \<Rightarrow> 'k \<Rightarrow> 'e \<Rightarrow> (('k, 'e) state_machine \<times> 'e) result" where
  "handle_first stm key e =
     (if stm_current stm = None then arrive stm (unat (stm_initial stm)) key e else Inr (stm, e))"

definition jump ::
  "('k, 'e) state_machine \<Rightarrow> 32 word \<Rightarrow> 'k \<Rightarrow> 'e \<Rightarrow> (('k, 'e) state_machine \<times> 'e) result" where
  "jump stm next_state key e =
     (if next_state > stm_max_state stm then Inl Aborted
      else if stm_current stm \<noteq> Some (unat next_state) then
        bindE (case stm_current stm of
                 None \<Rightarrow> Inr e
               | Some c \<Rightarrow> bindE (array_get (stm_states stm) c) (\<lambda>s. Inr (call (on_departure s) (sd_state s) key e)))
          (\<lambda>e. arrive stm (unat next_state) key e)
      else Inr (stm, e))"

text \<open>The three event handlers differ in the callback they take.\<close>

definition stm_handler ::
  "(('k, 'e) state_definition \<Rightarrow> ('k \<Rightarrow> 'e \<Rightarrow> 32 word \<times> 'e) option)
     \<Rightarrow> ('k, 'e) state_machine \<Rightarrow> 'k \<Rightarrow> 'e \<Rightarrow> (32 word \<times> ('k, 'e) state_machine \<times> 'e) result" where
  "stm_handler callback stm key e =
     bindE (handle_first stm key e) (\<lambda>(stm, e).
     case stm_current stm of
       None \<Rightarrow> Inl NullCall
     | Some c \<Rightarrow>
         bindE (array_get (stm_states stm) c) (\<lambda>s.
         case callback s of
           None \<Rightarrow> Inl Aborted
         | Some f \<Rightarrow>
             (case f key e of (ret, e) \<Rightarrow> bindE (jump stm ret key e) (\<lambda>(stm, e). Inr (ret, stm, e)))))"

definition stm_handler_read where "stm_handler_read = stm_handler on_read_ready"
definition stm_handler_write where "stm_handler_write = stm_handler on_write_ready"
definition stm_handler_block where "stm_handler_block = stm_handler on_block_ready"

definition stm_handler_close :: "('k, 'e) state_machine \<Rightarrow> 'k \<Rightarrow> 'e \<Rightarrow> 'e result" where
  "stm_handler_close stm key e =
     (case stm_current stm of
        None \<Rightarrow> Inr e
      | Some c \<Rightarrow> bindE (array_get (stm_states stm) c) (\<lambda>s. Inr (call (on_departure s) (sd_state s) key e)))"

definition stm_state :: "('k, 'e) state_machine \<Rightarrow> 32 word result" where
  "stm_state stm =
     (case stm_current stm of
        None \<Rightarrow> Inr (stm_initial stm)
      | Some c \<Rightarrow> bindE (array_get (stm_states stm) c) (\<lambda>s. Inr (sd_state s)))"

section \<open>Runs\<close>

datatype stm_event = Ready_Read | Ready_Write | Ready_Block

fun stm_event_handler ::
  "stm_event \<Rightarrow> ('k, 'e) state_machine \<Rightarrow> 'k \<Rightarrow> 'e \<Rightarrow> (32 word \<times> ('k, 'e) state_machine \<times> 'e) result" where
  "stm_event_handler Ready_Read = stm_handler_read"
| "stm_event_handler Ready_Write = stm_handler_write"
| "stm_event_handler Ready_Block = stm_handler_block"

fun stm_run ::
  "stm_event list \<Rightarrow> 'k \<Rightarrow> ('k, 'e) state_machine \<Rightarrow> 'e \<Rightarrow> (('k, 'e) state_machine \<times> 'e) result" where
  "stm_run [] key stm e = Inr (stm, e)"
| "stm_run (ev # evs) key stm e =
     bindE (stm_event_handler ev stm key e) (\<lambda>(ret, stm, e). stm_run evs key stm e)"

text \<open>A machine that records its arrivals and departures beside its environment.\<close>

datatype visit = Arrival "32 word" | Departure "32 word"

definition recording ::
  "(32 word \<Rightarrow> visit) \<Rightarrow> (32 word \<Rightarrow> 'k \<Rightarrow> 'e \<Rightarrow> 'e) option \<Rightarrow> (32 word \<Rightarrow> 'k \<Rightarrow> 'e \<times> visit list \<Rightarrow> 'e \<times> visit list) option" where
  "recording v f = Some (\<lambda>s key (e, vs). (call f s key e, vs @ [v s]))"

definition silent ::
  "('k \<Rightarrow> 'e \<Rightarrow> 32 word \<times> 'e) option \<Rightarrow> ('k \<Rightarrow> 'e \<times> visit list \<Rightarrow> 32 word \<times> ('e \<times> visit list)) option" where
  "silent f = map_option (\<lambda>f key (e, vs). case f key e of (ret, e) \<Rightarrow> (ret, (e, vs))) f"

definition recorded :: "('k, 'e) state_machine \<Rightarrow> ('k, 'e \<times> visit list) state_machine" where
  "recorded stm = \<lparr>stm_initial = stm_initial stm,
     stm_states = map (\<lambda>s. \<lparr>sd_state = sd_state s, on_arrival = recording Arrival (on_arrival s),
       on_departure = recording Departure (on_departure s), on_read_ready = silent (on_read_ready s),
       on_write_ready = silent (on_write_ready s), on_block_ready = silent (on_block_ready s)\<rparr>) (stm_states stm),
     stm_max_state = stm_max_state stm, stm_current = stm_current stm\<rparr>"

text \<open>What \<open>stm_init\<close> verifies, and what it cannot: the callbacks are there and name states.\<close>

definition stm_table_ok :: "('k, 'e) state_machine \<Rightarrow> bool" where
  "stm_table_ok stm \<longleftrightarrow> unat (stm_max_state stm) < length (stm_states stm)
     \<and> (\<forall>i \<le> unat (stm_max_state stm). sd_state (stm_states stm ! i) = of_nat i)
     \<and> stm_initial stm < stm_max_state stm \<and> stm_max_state stm \<noteq> - 1"

definition callback_of :: "stm_event \<Rightarrow> ('k, 'e) state_definition \<Rightarrow> ('k \<Rightarrow> 'e \<Rightarrow> 32 word \<times> 'e) option" where
  "callback_of ev = (case ev of Ready_Read \<Rightarrow> on_read_ready | Ready_Write \<Rightarrow> on_write_ready | Ready_Block \<Rightarrow> on_block_ready)"

definition stm_callbacks_ok :: "('k, 'e) state_machine \<Rightarrow> bool" where
  "stm_callbacks_ok stm \<longleftrightarrow> (\<forall>i \<le> unat (stm_max_state stm). \<forall>ev. \<exists>f. callback_of ev (stm_states stm ! i) = Some f
     \<and> (\<forall>key e. fst (f key e) \<le> stm_max_state stm))"

lemma stm_event_handler_eq: "stm_event_handler ev = stm_handler (callback_of ev)"
  by (cases ev) (simp_all add: callback_of_def stm_handler_read_def stm_handler_write_def stm_handler_block_def)

lemma check_states_iff:
  "check_states states is = Inr () \<longleftrightarrow> (\<forall>i \<in> set is. i < length states \<and> sd_state (states ! i) = of_nat i)"
  by (induction "is") (auto simp: array_get_def)

lemma stm_init_iff:
  "stm_init stm = Inr stm' \<longleftrightarrow> stm_table_ok stm \<and> stm' = stm\<lparr>stm_current := None\<rparr>"
proof -
  have "check_states (stm_states stm) [0..<unat (stm_max_state stm) + 1] = Inr () \<longleftrightarrow>
    (\<forall>i \<le> unat (stm_max_state stm). i < length (stm_states stm) \<and> sd_state (stm_states stm ! i) = of_nat i)"
    unfolding check_states_iff by (auto simp: less_Suc_eq_le)
  also have "\<dots> \<longleftrightarrow> unat (stm_max_state stm) < length (stm_states stm)
     \<and> (\<forall>i \<le> unat (stm_max_state stm). sd_state (stm_states stm ! i) = of_nat i)"
    by (auto dest: spec [of _ "unat (stm_max_state stm)"])
  finally show ?thesis
    by (auto simp: stm_init_def bindE_eq_Inr stm_table_ok_def)
qed

section \<open>The order of the callbacks\<close>

definition visits :: "32 word list \<Rightarrow> visit list" where
  "visits ss = concat (map (\<lambda>s. [Arrival s, Departure s]) ss)"

lemma visits_append [simp]: "visits (ss @ ts) = visits ss @ visits ts" "visits [s] = [Arrival s, Departure s]" "visits [] = []"
  by (simp_all add: visits_def)

text \<open>\<open>ss\<close> are the states that were left, in order; the current one has been arrived at.\<close>

definition on_tour :: "('k, 'e) state_machine \<Rightarrow> 32 word list \<Rightarrow> visit list \<Rightarrow> bool" where
  "on_tour stm ss vs \<longleftrightarrow> (case stm_current stm of
     None \<Rightarrow> ss = [] \<and> vs = []
   | Some c \<Rightarrow> c \<le> unat (stm_max_state stm) \<and> vs = visits ss @ [Arrival (of_nat c)]
       \<and> successively (\<noteq>) (ss @ [of_nat c]) \<and> hd (ss @ [of_nat c]) = stm_initial stm)"

lemma recorded_simps [simp]:
  "stm_initial (recorded stm) = stm_initial stm" "stm_max_state (recorded stm) = stm_max_state stm"
  "stm_current (recorded stm) = stm_current stm" "length (stm_states (recorded stm)) = length (stm_states stm)"
  "(recorded stm)\<lparr>stm_current := c\<rparr> = recorded (stm\<lparr>stm_current := c\<rparr>)"
  by (simp_all add: recorded_def)

lemma recorded_state:
  assumes "i < length (stm_states stm)"
  shows "sd_state (stm_states (recorded stm) ! i) = sd_state (stm_states stm ! i)"
    "on_arrival (stm_states (recorded stm) ! i) = recording Arrival (on_arrival (stm_states stm ! i))"
    "on_departure (stm_states (recorded stm) ! i) = recording Departure (on_departure (stm_states stm ! i))"
    "callback_of ev (stm_states (recorded stm) ! i) = silent (callback_of ev (stm_states stm ! i))"
  using assms by (simp_all add: recorded_def callback_of_def split: stm_event.splits)

lemma call_recording [simp]: "call (recording v f) s key (e, vs) = (call f s key e, vs @ [v s])"
  by (simp add: call_def recording_def split: option.splits)

lemma stm_table_state:
  assumes "stm_table_ok stm" "i \<le> unat (stm_max_state stm)"
  shows "i < length (stm_states stm)" "sd_state (stm_states stm ! i) = of_nat i"
  using assms by (simp_all add: stm_table_ok_def)

lemma arrive_recorded:
  assumes ok: "stm_table_ok stm" and i: "i \<le> unat (stm_max_state stm)"
  shows "arrive stm i key e = Inr (stm\<lparr>stm_current := Some i\<rparr>, call (on_arrival (stm_states stm ! i)) (of_nat i) key e)"
    "arrive (recorded stm) i key (e, vs) = Inr (recorded (stm\<lparr>stm_current := Some i\<rparr>),
       call (on_arrival (stm_states stm ! i)) (of_nat i) key e, vs @ [Arrival (of_nat i)])"
  using stm_table_state [OF ok i] by (simp_all add: arrive_def recorded_state)

lemma first_recorded:
  assumes ok: "stm_table_ok stm" and t: "on_tour stm ss vs"
  obtains c e' vs' where "c \<le> unat (stm_max_state stm)" "handle_first stm key e = Inr (stm\<lparr>stm_current := Some c\<rparr>, e')"
    "handle_first (recorded stm) key (e, vs) = Inr (recorded (stm\<lparr>stm_current := Some c\<rparr>), e', vs')"
    "on_tour (stm\<lparr>stm_current := Some c\<rparr>) ss vs'"
proof (cases "stm_current stm")
  case None
  have i: "unat (stm_initial stm) \<le> unat (stm_max_state stm)"
    using ok by (simp add: stm_table_ok_def word_less_nat_alt)
  show thesis
    by (rule that [OF i]) (use None t i in \<open>auto simp: handle_first_def arrive_recorded [OF ok i] on_tour_def\<close>)
next
  case (Some c)
  then have e: "stm\<lparr>stm_current := Some c\<rparr> = stm" by simp
  have "c \<le> unat (stm_max_state stm)" using t Some by (simp add: on_tour_def)
  then show thesis by (rule that [unfolded e]) (use Some t in \<open>auto simp: handle_first_def e\<close>)
qed

lemma jump_recorded:
  assumes ok: "stm_table_ok stm" and t: "on_tour stm ss vs" and c: "stm_current stm = Some c" and n: "n \<le> stm_max_state stm"
  obtains e' ss' vs' where "jump stm n key e = Inr (stm\<lparr>stm_current := Some (unat n)\<rparr>, e')"
    "jump (recorded stm) n key (e, vs) = Inr (recorded (stm\<lparr>stm_current := Some (unat n)\<rparr>), e', vs')"
    "on_tour (stm\<lparr>stm_current := Some (unat n)\<rparr>) ss' vs'"
proof (cases "c = unat n")
  case True
  then have e: "stm\<lparr>stm_current := Some (unat n)\<rparr> = stm" using c by simp
  have m: "\<not> stm_max_state stm < n" using n by (simp add: not_less)
  show thesis by (rule that [of e vs ss]) (use m True c t in \<open>auto simp: jump_def e\<close>)
next
  case False
  have nn: "\<not> stm_max_state stm < n" "unat n \<le> unat (stm_max_state stm)" using n by (simp_all add: not_less word_le_nat_alt)
  have c': "c \<le> unat (stm_max_state stm)" and vs: "vs = visits ss @ [Arrival (of_nat c)]"
    and succ: "successively (\<noteq>) (ss @ [of_nat c])" "hd (ss @ [of_nat c]) = stm_initial stm"
    using t c by (simp_all add: on_tour_def)
  note s = stm_table_state [OF ok c']
  have ne: "of_nat c \<noteq> n"
  proof
    assume "of_nat c = n"
    then have "unat (of_nat c :: 32 word) = unat n" by simp
    moreover have "unat (stm_max_state stm) < 2 ^ LENGTH(32)" by (rule unsigned_less)
    then have "c < 2 ^ 32" using c' by simp
    ultimately show False using False by (simp add: unat_of_nat)
  qed
  let ?e = "call (on_departure (stm_states stm ! c)) (of_nat c) key e"
  show thesis
  proof (rule that [of "call (on_arrival (stm_states stm ! unat n)) n key ?e" "vs @ [Departure (of_nat c), Arrival n]" "ss @ [of_nat c]"])
    show "jump stm n key e = Inr (stm\<lparr>stm_current := Some (unat n)\<rparr>, call (on_arrival (stm_states stm ! unat n)) n key ?e)"
      using False c nn s by (simp add: jump_def arrive_recorded(1) [OF ok nn(2)])
    show "jump (recorded stm) n key (e, vs) = Inr (recorded (stm\<lparr>stm_current := Some (unat n)\<rparr>),
        call (on_arrival (stm_states stm ! unat n)) n key ?e, vs @ [Departure (of_nat c), Arrival n])"
      using False c nn s by (simp add: jump_def recorded_state arrive_recorded(2) [OF ok nn(2)])
    show "on_tour (stm\<lparr>stm_current := Some (unat n)\<rparr>) (ss @ [of_nat c]) (vs @ [Departure (of_nat c), Arrival n])"
      using nn(2) vs succ ne by (auto simp: on_tour_def successively_append_iff hd_append)
  qed
qed

lemma stm_ok_current [simp]:
  "stm_table_ok (stm\<lparr>stm_current := c\<rparr>) = stm_table_ok stm" "stm_callbacks_ok (stm\<lparr>stm_current := c\<rparr>) = stm_callbacks_ok stm"
  by (simp_all add: stm_table_ok_def stm_callbacks_ok_def)

lemma handler_recorded:
  assumes ok: "stm_table_ok stm" "stm_callbacks_ok stm" and t: "on_tour stm ss vs"
  obtains ret e' ss' vs' where "stm_event_handler ev stm key e = Inr (ret, stm\<lparr>stm_current := Some (unat ret)\<rparr>, e')"
    "stm_event_handler ev (recorded stm) key (e, vs) = Inr (ret, recorded (stm\<lparr>stm_current := Some (unat ret)\<rparr>), e', vs')"
    "on_tour (stm\<lparr>stm_current := Some (unat ret)\<rparr>) ss' vs'"
proof -
  obtain c e1 vs1 where c: "c \<le> unat (stm_max_state stm)" and 1: "handle_first stm key e = Inr (stm\<lparr>stm_current := Some c\<rparr>, e1)"
    "handle_first (recorded stm) key (e, vs) = Inr (recorded (stm\<lparr>stm_current := Some c\<rparr>), e1, vs1)"
    and t1: "on_tour (stm\<lparr>stm_current := Some c\<rparr>) ss vs1"
    by (rule first_recorded [OF ok(1) t])
  note s = stm_table_state(1) [OF ok(1) c]
  obtain f where f: "callback_of ev (stm_states stm ! c) = Some f" "\<And>key e. fst (f key e) \<le> stm_max_state stm"
    using ok(2) c unfolding stm_callbacks_ok_def by blast
  obtain ret e2 where r: "f key e1 = (ret, e2)" by (cases "f key e1")
  have n: "ret \<le> stm_max_state stm" using f(2) [of key e1] r by simp
  let ?m = "stm\<lparr>stm_current := Some c\<rparr>"
  obtain e3 ss' vs' where j: "jump ?m ret key e2 = Inr (?m\<lparr>stm_current := Some (unat ret)\<rparr>, e3)"
    "jump (recorded ?m) ret key (e2, vs1) = Inr (recorded (?m\<lparr>stm_current := Some (unat ret)\<rparr>), e3, vs')"
    and t2: "on_tour (?m\<lparr>stm_current := Some (unat ret)\<rparr>) ss' vs'"
    by (rule jump_recorded [of ?m ss vs1 c ret key e2]) (use ok t1 n in auto)
  have fr: "callback_of ev (stm_states (recorded ?m) ! c) = silent (Some f)"
    using recorded_state(4) [of c ?m ev] s f(1) by simp
  show thesis
  proof (rule that)
    show "stm_event_handler ev stm key e = Inr (ret, stm\<lparr>stm_current := Some (unat ret)\<rparr>, e3)"
      using 1(1) s f(1) r j(1) by (simp add: stm_event_handler_eq stm_handler_def)
    show "stm_event_handler ev (recorded stm) key (e, vs) = Inr (ret, recorded (stm\<lparr>stm_current := Some (unat ret)\<rparr>), e3, vs')"
      using 1(2) s fr r j(2) by (simp add: stm_event_handler_eq stm_handler_def silent_def)
    show "on_tour (stm\<lparr>stm_current := Some (unat ret)\<rparr>) ss' vs'" using t2 by simp
  qed
qed

lemma run_recorded:
  assumes ok: "stm_table_ok stm" "stm_callbacks_ok stm" and t: "on_tour stm ss vs"
  shows "\<exists>c e' ss' vs'. stm_run evs key stm e = Inr (stm\<lparr>stm_current := c\<rparr>, e')
    \<and> stm_run evs key (recorded stm) (e, vs) = Inr (recorded (stm\<lparr>stm_current := c\<rparr>), e', vs')
    \<and> on_tour (stm\<lparr>stm_current := c\<rparr>) ss' vs' \<and> (c = None \<longrightarrow> evs = [] \<and> stm_current stm = None)"
  using assms
proof (induction evs arbitrary: stm e ss vs)
  case Nil
  then have "on_tour (stm\<lparr>stm_current := stm_current stm\<rparr>) ss vs" by simp
  then show ?case by (intro exI [of _ "stm_current stm"] exI [of _ e] exI [of _ ss] exI [of _ vs]) simp
next
  case (Cons ev evs)
  obtain ret e1 ss1 vs1 where h: "stm_event_handler ev stm key e = Inr (ret, stm\<lparr>stm_current := Some (unat ret)\<rparr>, e1)"
    "stm_event_handler ev (recorded stm) key (e, vs) = Inr (ret, recorded (stm\<lparr>stm_current := Some (unat ret)\<rparr>), e1, vs1)"
    and t1: "on_tour (stm\<lparr>stm_current := Some (unat ret)\<rparr>) ss1 vs1"
    by (rule handler_recorded [OF Cons.prems, of ev key e])
  have "stm_table_ok (stm\<lparr>stm_current := Some (unat ret)\<rparr>)" "stm_callbacks_ok (stm\<lparr>stm_current := Some (unat ret)\<rparr>)"
    using Cons.prems by simp_all
  from Cons.IH [OF this t1, of e1] h show ?case by auto
qed

section \<open>Properties\<close>

text \<open>
  C36. \<open>stm_init\<close> succeeds exactly if the table has a state for every number up to \<open>max_state\<close>, in
  order, the initial state is below \<open>max_state\<close>, and that is not the greatest \<open>unsigned\<close>: \<open>max_state\<close> is the greatest number and not
  the count of states, and the state with that number cannot be the initial one.
\<close>

theorem stm_init_exact:
  "stm_init stm = Inr stm' \<longleftrightarrow>
     unat (stm_max_state stm) < length (stm_states stm)
     \<and> (\<forall>i \<le> unat (stm_max_state stm). sd_state (stm_states stm ! i) = of_nat i)
     \<and> stm_initial stm < stm_max_state stm \<and> stm_max_state stm \<noteq> - 1 \<and> stm' = stm\<lparr>stm_current := None\<rparr>"
  unfolding stm_init_iff stm_table_ok_def by blast

text \<open>
  C33. The callbacks come in order, for any sequence of events: with all callbacks present and
  naming states, a machine that passed \<open>stm_init\<close> never aborts; it arrives first at the initial
  state, leaves every state it arrived at exactly once before it arrives at the next, which is
  another one, and \<open>stm_handler_close\<close> leaves the last, which is the one \<open>stm_state\<close> names.
  Recording this does not change what the machine does.
\<close>

theorem stm_protocol:
  assumes init: "stm_init stm0 = Inr stm" and ok: "stm_callbacks_ok stm"
  shows "\<exists>stm' e' e'' ss. stm_run evs key stm e = Inr (stm', e')
    \<and> returns (stm_run evs key (recorded stm) (e, [])) (\<lambda>(m, ev). m = recorded stm' \<and> fst ev = e'
        \<and> stm_handler_close m key ev = Inr (e'', visits ss))
    \<and> stm_handler_close stm' key e' = Inr e'' \<and> successively (\<noteq>) ss
    \<and> (if evs = [] then ss = [] else ss \<noteq> [] \<and> hd ss = stm_initial stm \<and> stm_state stm' = Inr (last ss))"
proof -
  have t: "stm_table_ok stm" "on_tour stm [] []"
    using init unfolding stm_init_iff by (auto simp: stm_table_ok_def on_tour_def)
  have none: "stm_current stm = None" using init unfolding stm_init_iff by auto
  from run_recorded [OF t(1) ok t(2), of evs key e] obtain c e' ss vs where
    r: "stm_run evs key stm e = Inr (stm\<lparr>stm_current := c\<rparr>, e')"
      "stm_run evs key (recorded stm) (e, []) = Inr (recorded (stm\<lparr>stm_current := c\<rparr>), e', vs)"
      "on_tour (stm\<lparr>stm_current := c\<rparr>) ss vs" "c = None \<longrightarrow> evs = []" by blast
  show ?thesis
  proof (cases c)
    case None
    with r none show ?thesis
      by (intro exI [of _ "stm\<lparr>stm_current := c\<rparr>"] exI [of _ e'] exI [of _ e'] exI [of _ "[]"])
        (simp add: stm_handler_close_def on_tour_def)
  next
    case (Some n)
    then have n: "n \<le> unat (stm_max_state stm)" "vs = visits ss @ [Arrival (of_nat n)]"
      "successively (\<noteq>) (ss @ [of_nat n])" "hd (ss @ [of_nat n]) = stm_initial stm"
      using r(3) by (simp_all add: on_tour_def)
    note s = stm_table_state [OF t(1) n(1)]
    have ne: "evs \<noteq> []"
    proof
      assume "evs = []"
      with r(1) have "stm = stm\<lparr>stm_current := Some n\<rparr>" using Some by simp
      from arg_cong [OF this, of stm_current] show False using none by simp
    qed
    let ?e = "call (on_departure (stm_states stm ! n)) (of_nat n) key e'"
    have "on_departure (stm_states (recorded (stm\<lparr>stm_current := Some n\<rparr>)) ! n) = recording Departure (on_departure (stm_states stm ! n))"
      "sd_state (stm_states (recorded (stm\<lparr>stm_current := Some n\<rparr>)) ! n) = of_nat n"
      using recorded_state [of n "stm\<lparr>stm_current := Some n\<rparr>"] s by simp_all
    with r n s ne Some show ?thesis
      by (intro exI [of _ "stm\<lparr>stm_current := c\<rparr>"] exI [of _ e'] exI [of _ ?e] exI [of _ "ss @ [of_nat n]"])
        (simp add: stm_handler_close_def stm_state_def)
  qed
qed

text \<open>Two states that every event exchanges.\<close>

definition swap_state :: "32 word \<Rightarrow> (unit, unit) state_definition" where
  "swap_state i = \<lparr>sd_state = i, on_arrival = None, on_departure = None, on_read_ready = Some (\<lambda>key e. (1 - i, e)),
     on_write_ready = Some (\<lambda>key e. (1 - i, e)), on_block_ready = Some (\<lambda>key e. (1 - i, e))\<rparr>"

definition swap_machine :: "(unit, unit) state_machine" where
  "swap_machine = \<lparr>stm_initial = 0, stm_states = [swap_state 0, swap_state 1], stm_max_state = 1, stm_current = None\<rparr>"

theorem stm_init_exact_witness: "stm_init swap_machine = Inr swap_machine \<and> stm_initial swap_machine < 1"
proof -
  have two: "i \<le> Suc 0 \<longleftrightarrow> i = 0 \<or> i = Suc 0" for i by auto
  show ?thesis by (simp add: stm_init_exact two swap_machine_def swap_state_def all_conj_distrib)
qed

theorem stm_protocol_witness:
  "\<exists>stm' ss. stm_run [Ready_Read, Ready_Write] () swap_machine () = Inr (stm', ()) \<and> ss \<noteq> [] \<and> hd ss = 0
     \<and> stm_state stm' = Inr (last ss)"
proof -
  have two: "i \<le> Suc 0 \<longleftrightarrow> i = 0 \<or> i = Suc 0" for i by auto
  have init: "stm_init swap_machine = Inr swap_machine"
    unfolding stm_init_iff by (simp add: stm_table_ok_def swap_machine_def swap_state_def two all_conj_distrib)
  have ok: "stm_callbacks_ok swap_machine"
    by (auto simp: stm_callbacks_ok_def swap_machine_def swap_state_def callback_of_def two split: stm_event.splits)
  from stm_protocol [OF init ok, of "[Ready_Read, Ready_Write]" "()" "()"] show ?thesis
    by (auto simp: swap_machine_def)
qed

end
