(* ===== verification/Sockets.thy ===== *)
theory Sockets
  imports Prelude
begin

text \<open>
  How the programs obtain their sockets: \<open>create_passive_socket\<close> of
  \<^verbatim>\<open>src/src/server/server.c\<close> and the start of its \<open>server_run\<close>. The operating system's answers
  for each address that \<open>getaddrinfo\<close> found are an argument; the result carries the steps
  that open and close descriptors, in order.

  Both programs walk a list of addresses until one can be used and close the sockets of the
  others. The locale \<open>address_walk\<close> is the contract of such a loop; the server's loop is one
  here, the management client's in \<open>Client\<close>.
\<close>

section \<open>Answers of the operating system\<close>

text \<open>
  One call of \<open>send\<close> or \<open>recv\<close>. \<open>Takes n\<close>: the system accepts \<open>n\<close> bytes, or all that are
  offered if these are fewer. \<open>Delivers n\<close>: at most \<open>n\<close>, and at least one, of the bytes that the
  peer has sent are there; when it has closed and all are read, \<open>recv\<close> returns 0. A loop of
  calls takes its answers from a list; when it has used them up it has not ended, which is
  the fault \<open>LoopBound\<close>.
\<close>

datatype send_answer = Takes nat | Send_Error int

datatype recv_answer = Delivers nat | Recv_Error int

text \<open>\<open>ended_or_waiting r Q\<close>: the only fault is a loop that still waits, and a value satisfies \<open>Q\<close>.\<close>

definition ended_or_waiting :: "'a result \<Rightarrow> ('a \<Rightarrow> bool) \<Rightarrow> bool" where
  "ended_or_waiting r Q \<longleftrightarrow> r = Inl LoopBound \<or> returns r Q"

lemma ended_simps [simp]:
  "ended_or_waiting (Inl LoopBound) Q"
  "ended_or_waiting (Inr x) Q \<longleftrightarrow> Q x"
  by (simp_all add: ended_or_waiting_def)

lemma ended_mono: "ended_or_waiting r P \<Longrightarrow> (\<And>x. P x \<Longrightarrow> Q x) \<Longrightarrow> ended_or_waiting r Q"
  by (cases r) (auto simp: ended_or_waiting_def)

lemma ended_bindE:
  "ended_or_waiting r P \<Longrightarrow> (\<And>x. P x \<Longrightarrow> ended_or_waiting (f x) Q) \<Longrightarrow> ended_or_waiting (bindE r f) Q"
  by (cases r) (auto simp: ended_or_waiting_def)

section \<open>Descriptors that are opened and closed\<close>

datatype socket_step = Opened int | Closed int

fun open_after :: "int set \<Rightarrow> socket_step list \<Rightarrow> int set" where
  "open_after S [] = S"
| "open_after S (Opened fd # steps) = open_after (insert fd S) steps"
| "open_after S (Closed fd # steps) = open_after (S - {fd}) steps"

text \<open>What POSIX promises, a new descriptor is not an open one, and what a program must keep to.\<close>

fun sockets_fresh :: "int set \<Rightarrow> socket_step list \<Rightarrow> bool" where
  "sockets_fresh S [] = True"
| "sockets_fresh S (Opened fd # steps) \<longleftrightarrow> fd \<notin> S \<and> sockets_fresh (insert fd S) steps"
| "sockets_fresh S (Closed fd # steps) \<longleftrightarrow> sockets_fresh (S - {fd}) steps"

fun closes_open :: "int set \<Rightarrow> socket_step list \<Rightarrow> bool" where
  "closes_open S [] = True"
| "closes_open S (Opened fd # steps) \<longleftrightarrow> closes_open (insert fd S) steps"
| "closes_open S (Closed fd # steps) \<longleftrightarrow> fd \<in> S \<and> closes_open (S - {fd}) steps"

lemma steps_append [simp]:
  "open_after S (xs @ ys) = open_after (open_after S xs) ys"
  "sockets_fresh S (xs @ ys) \<longleftrightarrow> sockets_fresh S xs \<and> sockets_fresh (open_after S xs) ys"
  "closes_open S (xs @ ys) \<longleftrightarrow> closes_open S xs \<and> closes_open (open_after S xs) ys"
  by (induction S xs rule: open_after.induct) auto

section \<open>Walking a list of addresses\<close>

text \<open>\<open>attempt\<close> gives the descriptor of \<open>socket\<close>, or -1, and whether the address can be used.\<close>

locale address_walk =
  fixes attempt :: "'a \<Rightarrow> int \<times> bool"
    and walk :: "'a list \<Rightarrow> int \<times> socket_step list"
  assumes walk_Nil: "walk [] = (-1, [])"
    and walk_no_socket: "fst (attempt a) = -1 \<Longrightarrow> walk (a # as) = walk as"
    and walk_usable: "fst (attempt a) \<noteq> -1 \<Longrightarrow> snd (attempt a) \<Longrightarrow> walk (a # as) = (fst (attempt a), [Opened (fst (attempt a))])"
    and walk_unusable: "fst (attempt a) \<noteq> -1 \<Longrightarrow> \<not> snd (attempt a) \<Longrightarrow>
      walk (a # as) = (fst (walk as), Opened (fst (attempt a)) # Closed (fst (attempt a)) # snd (walk as))"
begin

lemma walk_finds_first:
  "fst (walk as) = (case find (\<lambda>a. fst (attempt a) \<noteq> -1 \<and> snd (attempt a)) as of None \<Rightarrow> -1 | Some a \<Rightarrow> fst (attempt a))"
proof (induction as)
  case (Cons a as)
  then show ?case
    by (cases "fst (attempt a) = -1"; cases "snd (attempt a)") (simp_all add: walk_no_socket walk_usable walk_unusable)
qed (simp add: walk_Nil)

lemma walk_finds: "list_ex (\<lambda>a. fst (attempt a) \<noteq> -1 \<and> snd (attempt a)) as \<Longrightarrow> fst (walk as) \<noteq> -1"
proof (induction as)
  case (Cons a as)
  then show ?case
    by (cases "fst (attempt a) = -1"; cases "snd (attempt a)") (simp_all add: walk_no_socket walk_usable walk_unusable)
qed simp

lemma walk_keeps_one:
  "sockets_fresh S (snd (walk as)) \<Longrightarrow>
     open_after S (snd (walk as)) = (if fst (walk as) = -1 then S else insert (fst (walk as)) S)
     \<and> closes_open S (snd (walk as)) \<and> (fst (walk as) \<noteq> -1 \<longrightarrow> fst (walk as) \<notin> S)"
proof (induction as arbitrary: S)
  case (Cons a as)
  then show ?case
    by (cases "fst (attempt a) = -1"; cases "snd (attempt a)") (auto simp: walk_no_socket walk_usable walk_unusable)
qed (simp add: walk_Nil)

end

section \<open>The server's sockets\<close>

record passive_answers =
  pa_socket :: int \<comment> \<open>the descriptor, or -1\<close>
  pa_nonblocking :: bool
  pa_bind :: bool
  pa_listen :: bool

definition give_up :: "int \<Rightarrow> int \<times> socket_step list \<Rightarrow> int \<times> socket_step list" where
  "give_up fd r = (case r of (server_fd, steps) \<Rightarrow> (server_fd, Opened fd # Closed fd # steps))"

fun create_passive_loop :: "passive_answers list \<Rightarrow> int \<times> socket_step list" where
  "create_passive_loop [] = (-1, [])"
| "create_passive_loop (current # rest) =
     (if pa_socket current = -1 then create_passive_loop rest
      else if \<not> pa_nonblocking current then give_up (pa_socket current) (create_passive_loop rest)
      else if \<not> pa_bind current then give_up (pa_socket current) (create_passive_loop rest)
      else if \<not> pa_listen current then give_up (pa_socket current) (create_passive_loop rest)
      else (pa_socket current, [Opened (pa_socket current)]))"

definition create_passive_socket :: "int \<Rightarrow> passive_answers list \<Rightarrow> int \<times> socket_step list" where
  "create_passive_socket addr_status addresses =
     (if addr_status \<noteq> 0 then (-1, []) else create_passive_loop addresses)"

definition passive_attempt :: "passive_answers \<Rightarrow> int \<times> bool" where
  "passive_attempt a = (pa_socket a, pa_nonblocking a \<and> pa_bind a \<and> pa_listen a)"

interpretation passive_walk: address_walk passive_attempt create_passive_loop
  by unfold_locales (auto simp: passive_attempt_def give_up_def split: prod.split)

lemma passive_socket_keeps_one:
  "sockets_fresh S (snd (create_passive_socket status as)) \<Longrightarrow>
     open_after S (snd (create_passive_socket status as))
       = (if fst (create_passive_socket status as) = -1 then S else insert (fst (create_passive_socket status as)) S)
     \<and> closes_open S (snd (create_passive_socket status as))
     \<and> (fst (create_passive_socket status as) \<noteq> -1 \<longrightarrow> fst (create_passive_socket status as) \<notin> S)"
  using passive_walk.walk_keeps_one [of S as] by (cases "status = 0") (simp_all add: create_passive_socket_def)

text \<open>
  \<open>server_run\<close> up to its loop, as far as descriptors go: \<open>Some\<close> of the two sockets when the loop
  is reached, \<open>None\<close> when it returns 1. The three flags say whether \<open>selector_init\<close>,
  \<open>selector_new\<close> and the two calls of \<open>selector_register\<close> succeed; every failure after the
  sockets are there closes both.
\<close>

definition server_sockets ::
  "int \<Rightarrow> passive_answers list \<Rightarrow> int \<Rightarrow> passive_answers list \<Rightarrow> bool \<Rightarrow> bool \<Rightarrow> bool
     \<Rightarrow> (int \<times> int) option \<times> socket_step list" where
  "server_sockets status addresses management_status management_addresses init_ok new_ok register_ok =
     (case create_passive_socket status addresses of
        (server_fd, steps) \<Rightarrow>
          if server_fd = -1 then (None, steps)
          else
            (case create_passive_socket management_status management_addresses of
               (management_fd, steps') \<Rightarrow>
                 if management_fd = -1 then (None, steps @ steps' @ [Closed server_fd])
                 else if \<not> init_ok then (None, steps @ steps' @ [Closed management_fd, Closed server_fd])
                 else if \<not> new_ok then (None, steps @ steps' @ [Closed management_fd, Closed server_fd])
                 else if \<not> register_ok then (None, steps @ steps' @ [Closed management_fd, Closed server_fd])
                 else (Some (server_fd, management_fd), steps @ steps')))"

section \<open>Properties\<close>

text \<open>
  C35. The server listens on the first address for which \<open>socket\<close>, \<open>fcntl\<close>, \<open>bind\<close> and \<open>listen\<close> all
  succeed, and on no other.
\<close>

theorem passive_socket_first:
  "fst (create_passive_socket status addresses) =
     (if status \<noteq> 0 then -1
      else case find (\<lambda>a. pa_socket a \<noteq> -1 \<and> pa_nonblocking a \<and> pa_bind a \<and> pa_listen a) addresses of
             None \<Rightarrow> -1 | Some a \<Rightarrow> pa_socket a)"
  by (simp add: create_passive_socket_def passive_walk.walk_finds_first passive_attempt_def cong: option.case_cong)

text \<open>
  C34. Starting the server leaks no descriptor and closes none twice: whatever the operating
  system answers, and wherever the start fails, only open descriptors are closed; when the
  loop is reached, exactly its two distinct sockets are open, and otherwise none is.
\<close>

theorem server_sockets_no_leak:
  assumes "server_sockets s as ms mas i n r = (result, steps)" "sockets_fresh {} steps"
  shows "closes_open {} steps \<and> (case result of
      None \<Rightarrow> open_after {} steps = {}
    | Some (server_fd, management_fd) \<Rightarrow> open_after {} steps = {server_fd, management_fd} \<and> server_fd \<noteq> management_fd)"
proof -
  obtain fd st mfd mst where p: "create_passive_socket s as = (fd, st)" "create_passive_socket ms mas = (mfd, mst)"
    by (meson surj_pair)
  show ?thesis
    using assms passive_socket_keeps_one [of "{}" s as] passive_socket_keeps_one [of "{fd}" ms mas] unfolding p
    by (auto simp: server_sockets_def p split: if_splits)
qed

theorem server_sockets_no_leak_witness:
  "closes_open {} [Opened 3, Closed 3, Opened 3, Opened 4]
   \<and> open_after {} [Opened 3, Closed 3, Opened 3, Opened 4] = {3, 4}"
  using server_sockets_no_leak [of 0 "[\<lparr>pa_socket = 3, pa_nonblocking = True, pa_bind = False, pa_listen = True\<rparr>,
      \<lparr>pa_socket = 3, pa_nonblocking = True, pa_bind = True, pa_listen = True\<rparr>]" 0
      "[\<lparr>pa_socket = -1, pa_nonblocking = True, pa_bind = True, pa_listen = True\<rparr>,
      \<lparr>pa_socket = 4, pa_nonblocking = True, pa_bind = True, pa_listen = True\<rparr>]" True True True
      "Some (3, 4)" "[Opened 3, Closed 3, Opened 3, Opened 4]"]
  by (simp add: server_sockets_def create_passive_socket_def give_up_def)

end
