(* ===== verification/Args.thy ===== *)
theory Args
  imports Users
begin

text \<open>
  \<^verbatim>\<open>src/src/utils/args.c\<close> and \<open>main\<close> of \<^verbatim>\<open>src/src/server/server.c\<close>: the command line. What
  \<open>getopt_long\<close> returns, the options in order with their arguments, is the parameter; an
  argument is the C string it points to. A result \<open>Inl s\<close> is the program's end with
  \<open>exit (s)\<close>, after a message.

  The properties: a port is accepted exactly if it is a numeral of its range, the ports that
  \<open>main\<close> prints are read back, and the users of the command line are those that can log in.
\<close>

section \<open>Numbers\<close>

definition LONG_MIN :: int where "LONG_MIN = - (2 ^ 63)"
definition LONG_MAX :: int where "LONG_MAX = 2 ^ 63 - 1"
definition ERANGE :: int where "ERANGE = 34"

definition isspace :: "byte \<Rightarrow> bool" where
  "isspace c \<longleftrightarrow> c = 32 \<or> 9 \<le> c \<and> c \<le> 13"

definition isdigit :: "byte \<Rightarrow> bool" where
  "isdigit c \<longleftrightarrow> 48 \<le> c \<and> c \<le> 57"

definition numeral_value :: "byte list \<Rightarrow> nat" where
  "numeral_value ds = foldl (\<lambda>v d. 10 * v + (unat d - 48)) 0 ds"

text \<open>
  \<open>strtol (s, &end, 10)\<close> for the string \<open>s\<close> and \<open>errno\<close>: the value, the offset of \<open>end\<close> and
  the new \<open>errno\<close>, as the C standard defines them.
\<close>

definition sign_length :: "byte list \<Rightarrow> nat" where
  "sign_length s = (if s \<noteq> [] \<and> (hd s = 43 \<or> hd s = 45) then 1 else 0)"

definition strtol :: "byte list \<Rightarrow> int \<Rightarrow> int \<times> nat \<times> int" where
  "strtol s err =
     (let blanks = length (takeWhile isspace s);
          t = drop blanks s;
          ds = takeWhile isdigit (drop (sign_length t) t);
          end = blanks + sign_length t + length ds;
          v = (if t \<noteq> [] \<and> hd t = 45 then - int (numeral_value ds) else int (numeral_value ds))
      in
        if ds = [] then (0, 0, err)
        else if v < LONG_MIN then (LONG_MIN, end, ERANGE)
        else if v > LONG_MAX then (LONG_MAX, end, ERANGE)
        else (v, end, err))"

section \<open>Reading the options\<close>

definition MAX_USERS :: nat where "MAX_USERS = 10"
definition USHRT_MAX :: int where "USHRT_MAX = 65535"

record socks5args =
  socks_addr :: "byte list"
  socks_port :: "16 word"
  mng_addr :: "byte list"
  mng_port :: "16 word"
  args_users :: "(byte list option \<times> byte list option) list"

text \<open>\<open>None\<close> is \<open>exit (1)\<close>; the second component is \<open>errno\<close> afterwards.\<close>

definition port :: "byte list \<Rightarrow> int \<Rightarrow> (16 word \<times> int) option" where
  "port s err =
     (case strtol s err of (sl, end, err) \<Rightarrow>
        if end = 0 \<or> end < length s \<or> ((LONG_MIN = sl \<or> LONG_MAX = sl) \<and> ERANGE = err)
           \<or> sl < 0 \<or> sl > USHRT_MAX
        then None
        else Some (of_int sl, err))"

text \<open>The argument is cut at the first colon, whose place takes a NUL.\<close>

definition user :: "byte list \<Rightarrow> (byte list \<times> byte list) option" where
  "user s =
     (if 58 \<notin> set s then None
      else Some (takeWhile (\<lambda>c. c \<noteq> 58) s, tl (dropWhile (\<lambda>c. c \<noteq> 58) s)))"

fun parse_options ::
  "(char \<times> byte list) list \<Rightarrow> nat \<Rightarrow> int \<Rightarrow> socks5args \<Rightarrow> (int + socks5args) result" where
  "parse_options [] nusers err args = Inr (Inr args)"
| "parse_options ((c, optarg) # rest) nusers err args =
     (if c = CHR ''h'' then Inr (Inl 1)
      else if c = CHR ''l'' then parse_options rest nusers err (args\<lparr>socks_addr := optarg\<rparr>)
      else if c = CHR ''L'' then parse_options rest nusers err (args\<lparr>mng_addr := optarg\<rparr>)
      else if c = CHR ''p'' then
        (case port optarg err of
           None \<Rightarrow> Inr (Inl 1)
         | Some (p, err) \<Rightarrow> parse_options rest nusers err (args\<lparr>socks_port := p\<rparr>))
      else if c = CHR ''P'' then
        (case port optarg err of
           None \<Rightarrow> Inr (Inl 1)
         | Some (p, err) \<Rightarrow> parse_options rest nusers err (args\<lparr>mng_port := p\<rparr>))
      else if c = CHR ''u'' then
        (if nusers \<ge> MAX_USERS then Inr (Inl 1)
         else
           case user optarg of
             None \<Rightarrow> Inr (Inl 1)
           | Some (name, pass) \<Rightarrow>
               bindE (array_put (args_users args) nusers (Some name, Some pass)) (\<lambda>us.
               parse_options rest (nusers + 1) err (args\<lparr>args_users := us\<rparr>)))
      else if c = CHR ''v'' then Inr (Inl 0)
      else Inr (Inl 1))"

definition default_args :: socks5args where
  "default_args = \<lparr>socks_addr = bytes ''0.0.0.0'', socks_port = 1080,
     mng_addr = bytes ''127.0.0.1'', mng_port = 8080, args_users = replicate MAX_USERS (None, None)\<rparr>"

text \<open>\<open>operands\<close> is the number of words behind the options.\<close>

definition parse_args :: "(char \<times> byte list) list \<Rightarrow> nat \<Rightarrow> int \<Rightarrow> (int + socks5args) result" where
  "parse_args options operands err =
     bindE (parse_options options 0 err default_args) (\<lambda>r.
     case r of
       Inl status \<Rightarrow> Inr (Inl status)
     | Inr args \<Rightarrow> if operands > 0 then Inr (Inl 1) else Inr (Inr args))"

text \<open>
  \<open>main\<close> up to the call of \<open>server_run\<close>: the table of users and the four strings of that call.
\<close>

record server_call =
  sc_users :: "managed_user list"
  sc_host :: "byte list"
  sc_port :: "byte list"
  sc_management_host :: "byte list"
  sc_management_port :: "byte list"

definition count_users :: "(byte list option \<times> byte list option) list \<Rightarrow> nat" where
  "count_users us = length (takeWhile (\<lambda>u. fst u \<noteq> None) (take MAX_USERS us))"

definition main_args :: "(char \<times> byte list) list \<Rightarrow> nat \<Rightarrow> int \<Rightarrow> (int + server_call) result" where
  "main_args options operands err =
     bindE (parse_args options operands err) (\<lambda>r.
     case r of
       Inl status \<Rightarrow> Inr (Inl status)
     | Inr args \<Rightarrow>
         bindE (users_init_from_args (Some (args_users args)) (count_users (args_users args))) (\<lambda>us.
         bindE (c_snprintf (replicate 6 0) 0 6 (dec (unat (socks_port args)))) (\<lambda>p.
         bindE (c_snprintf (replicate 6 0) 0 6 (dec (unat (mng_port args)))) (\<lambda>mp.
         Inr (Inr \<lparr>sc_users = us, sc_host = socks_addr args, sc_port = p,
                   sc_management_host = mng_addr args, sc_management_port = mp\<rparr>)))))"

section \<open>Numerals are read back\<close>

text \<open>A numeral as \<open>strtol\<close> takes it: blanks, a sign and digits.\<close>

definition is_numeral :: "byte list \<Rightarrow> byte list \<Rightarrow> byte list \<Rightarrow> bool" where
  "is_numeral ws sg ds \<longleftrightarrow> list_all isspace ws \<and> sg \<in> {[], [43], [45]} \<and> ds \<noteq> [] \<and> list_all isdigit ds"

lemma takeWhile_all: "list_all P xs \<Longrightarrow> takeWhile P xs = xs"
  by (induction xs) auto

lemma takeWhile_prefix: "list_all P xs \<Longrightarrow> ys = [] \<or> \<not> P (hd ys) \<Longrightarrow> takeWhile P (xs @ ys) = xs"
  by (induction xs) (cases ys; simp)+

lemma digit_no_blank: "isdigit c \<Longrightarrow> \<not> isspace c \<and> c \<noteq> 43 \<and> c \<noteq> 45"
  unfolding isdigit_def isspace_def by (auto simp: word_le_nat_alt)

lemma strtol_numeral:
  assumes "is_numeral ws sg ds"
  defines "v \<equiv> (if sg = [45] then - int (numeral_value ds) else int (numeral_value ds))"
  shows "strtol (ws @ sg @ ds) err =
     (if v < LONG_MIN then (LONG_MIN, length (ws @ sg @ ds), ERANGE)
      else if v > LONG_MAX then (LONG_MAX, length (ws @ sg @ ds), ERANGE)
      else (v, length (ws @ sg @ ds), err))"
proof -
  have d: "list_all isdigit ds" "ds \<noteq> []" "sg \<in> {[], [43], [45]}" "list_all isspace ws"
    using assms(1) by (simp_all add: is_numeral_def)
  from d(1,2) have "isdigit (hd ds)" by (cases ds) auto
  note h = digit_no_blank [OF this]
  have "\<not> isspace (hd (sg @ ds))" using d(3) h by (auto simp: isspace_def)
  then have ws: "takeWhile isspace (ws @ sg @ ds) = ws" using d by (intro takeWhile_prefix) auto
  have sg: "sign_length (sg @ ds) = length sg" using d h by (auto simp: sign_length_def)
  have neg: "sg @ ds \<noteq> [] \<and> hd (sg @ ds) = 45 \<longleftrightarrow> sg = [45]" using d h by auto
  have dr: "drop (length ws) (ws @ sg @ ds) = sg @ ds" by simp
  have ds: "takeWhile isdigit (drop (length sg) (sg @ ds)) = ds" using takeWhile_all [OF d(1)] by simp
  show ?thesis
    by (simp only: strtol_def Let_def ws dr sg ds neg v_def d(2) if_False length_append add.assoc)
qed

lemma strtol_offset: "fst (snd (strtol s err)) \<le> length s"
proof -
  define t where "t = drop (length (takeWhile isspace s)) s"
  define u where "u = drop (sign_length t) t"
  have "length (takeWhile isspace s) \<le> length s" "length (takeWhile isdigit u) \<le> length u" "sign_length t \<le> length t"
    by (auto simp: length_takeWhile_le sign_length_def Suc_le_eq)
  then have "length (takeWhile isspace s) + sign_length t + length (takeWhile isdigit u) \<le> length s"
    unfolding u_def t_def by simp
  then show ?thesis
    by (simp only: strtol_def Let_def t_def [symmetric] u_def [symmetric] split: if_split) simp
qed

lemma strtol_end:
  assumes "strtol s err = (v, length s, err')" "s \<noteq> []"
  obtains ws sg ds where "s = ws @ sg @ ds" "is_numeral ws sg ds"
proof -
  define ws where "ws = takeWhile isspace s"
  define t where "t = dropWhile isspace s"
  define sg where "sg = take (sign_length t) t"
  define ds where "ds = takeWhile isdigit (drop (sign_length t) t)"
  have t: "drop (length ws) s = t" by (simp add: ws_def t_def dropWhile_eq_drop)
  have s: "s = ws @ t" by (simp add: ws_def t_def)
  have sl: "sign_length t \<le> length t" by (cases t) (auto simp: sign_length_def)
  have sg: "sg \<in> {[], [43], [45]}" by (cases t) (auto simp: sg_def sign_length_def)
  have ne: "ds \<noteq> []" and len: "length s = length ws + sign_length t + length ds"
    using assms by (auto simp: strtol_def Let_def t ws_def [symmetric] ds_def [symmetric] split: if_splits)
  have "length ds = length (drop (sign_length t) t)" using len s sl by simp
  then have "drop (sign_length t) t = ds"
    unfolding ds_def by (metis takeWhile_eq_take take_all order_refl)
  then have "t = sg @ ds" unfolding sg_def by (metis append_take_drop_id)
  moreover have "is_numeral ws sg ds"
    using sg ne by (auto simp: is_numeral_def ws_def ds_def list_all_iff dest: set_takeWhileD)
  ultimately show thesis using s by (intro that [of ws sg ds]) simp_all
qed

lemma port_iff:
  "(\<exists>err'. port s err = Some (p, err')) \<longleftrightarrow>
     (\<exists>ws sg ds. s = ws @ sg @ ds \<and> is_numeral ws sg ds \<and> numeral_value ds \<le> 65535
        \<and> (sg \<noteq> [45] \<or> numeral_value ds = 0) \<and> p = of_nat (numeral_value ds))"
    (is "?L \<longleftrightarrow> ?R")
proof
  assume ?L
  then obtain err' v e where st: "strtol s err = (v, e, err')" "0 < e" "length s \<le> e" "0 \<le> v" "v \<le> 65535"
    and p: "p = of_int v"
    by (auto simp: port_def USHRT_MAX_def split: prod.splits if_splits)
  have "e = length s" "s \<noteq> []" using st(1-3) strtol_offset [of s err] by auto
  with st(1) obtain ws sg ds where n: "s = ws @ sg @ ds" "is_numeral ws sg ds"
    using strtol_end [of s err v err'] by blast
  then have "v = (if sg = [45] then - int (numeral_value ds) else int (numeral_value ds))"
    using st strtol_numeral [OF n(2), of err] by (auto simp: LONG_MIN_def LONG_MAX_def split: if_splits)
  then show ?R using n st(4,5) p
    by (intro exI [of _ ws] exI [of _ sg] exI [of _ ds]) (auto split: if_splits)
next
  assume ?R
  then obtain ws sg ds where "s = ws @ sg @ ds" "is_numeral ws sg ds" "numeral_value ds \<le> 65535"
    "sg \<noteq> [45] \<or> numeral_value ds = 0" "p = of_nat (numeral_value ds)" by blast
  then show ?L
    by (auto simp: port_def strtol_numeral LONG_MIN_def LONG_MAX_def USHRT_MAX_def is_numeral_def)
qed

text \<open>\<open>errno\<close> plays no part, since the values it is looked at for are out of range.\<close>

definition port_value :: "byte list \<Rightarrow> 16 word option" where
  "port_value s = map_option fst (port s 0)"

lemma port_no_errno: "port s err = map_option (\<lambda>p. (p, err)) (port_value s)"
  by (auto simp: port_def port_value_def strtol_def Let_def LONG_MIN_def LONG_MAX_def USHRT_MAX_def ERANGE_def)

lemma port_value_iff: "port_value s = Some p \<longleftrightarrow> (\<exists>err'. port s err = Some (p, err'))"
  by (auto simp: port_no_errno [of s err])

section \<open>Decimal numerals\<close>

lemma digit_value: "d < 10 \<Longrightarrow> unat (of_nat (48 + d) :: byte) = 48 + d"
proof -
  assume "d < 10"
  moreover have "unat (of_nat (48 + d) :: byte) = (48 + d) mod 2 ^ LENGTH(8)" by (rule unat_of_nat)
  ultimately show ?thesis by simp
qed

lemma isdigit_digit: "d < 10 \<Longrightarrow> isdigit (of_nat (48 + d))"
  using digit_value [of d] unfolding isdigit_def word_le_nat_alt by simp

lemma numeral_value_snoc: "numeral_value (ds @ [d]) = 10 * numeral_value ds + (unat d - 48)"
  by (simp add: numeral_value_def)

lemma dec_numeral: "numeral_value (dec n) = n \<and> list_all isdigit (dec n) \<and> dec n \<noteq> []"
proof (induction n rule: dec.induct)
  case (1 n)
  show ?case
  proof (cases "n < 10")
    case True
    then show ?thesis
      using digit_value [of n] isdigit_digit [of n] by (subst (1 2 3) dec.simps) (simp add: numeral_value_def)
  next
    case False
    then show ?thesis
      using 1 digit_value [of "n mod 10"] isdigit_digit [of "n mod 10"]
      by (subst (1 2 3) dec.simps) (simp add: numeral_value_snoc)
  qed
qed

lemma length_dec: "n < 10 ^ k \<Longrightarrow> 0 < k \<Longrightarrow> length (dec n) \<le> k"
proof (induction k arbitrary: n)
  case (Suc k)
  show ?case
  proof (cases "n < 10")
    case True
    then show ?thesis by (subst dec.simps) simp
  next
    case False
    with Suc.prems have "n div 10 < 10 ^ k" "0 < k" by (auto intro: gr0I)
    from Suc.IH [OF this] False show ?thesis by (subst dec.simps) simp
  qed
qed simp

lemma port_dec: "port_value (dec (unat p)) = Some p"
proof -
  have n: "is_numeral [] [] (dec (unat p))" using dec_numeral by (simp add: is_numeral_def)
  have "unat p < 2 ^ LENGTH(16)" by (rule unsigned_less)
  then have "unat p \<le> 65535" by simp
  with n show ?thesis
    unfolding port_value_iff [of _ _ 0] port_iff
    by (intro exI [of _ "[]"] exI [of _ "dec (unat p)"]) (simp add: dec_numeral)
qed

lemma port_string:
  "returns (c_snprintf (replicate 6 0) 0 6 (dec (unat (p :: 16 word)))) (\<lambda>b. terminated b \<and> cstr b = dec (unat p))"
proof -
  have "unat p < 2 ^ LENGTH(16)" by (rule unsigned_less)
  then have "unat p < 10 ^ 5" by simp
  then have l: "length (dec (unat p)) \<le> 5" by (rule length_dec) simp
  have "returns (c_snprintf (replicate 6 0) 0 6 (dec (unat p))) (\<lambda>b. cstr b = take (6 - 1) (dec (unat p)))"
    by (rule c_snprintf_string) simp_all
  moreover have "returns (c_snprintf (replicate 6 0) 0 6 (dec (unat p))) (\<lambda>b. length b = 6)"
    by (rule returns_mono [OF returns_c_snprintf]) simp_all
  ultimately show ?thesis using l by (auto simp: returns_iff intro!: terminatedI)
qed

section \<open>What the options amount to\<close>

definition option_ok :: "char \<times> byte list \<Rightarrow> bool" where
  "option_ok opt \<longleftrightarrow> fst opt \<in> {CHR ''l'', CHR ''L''} \<or> fst opt \<in> {CHR ''p'', CHR ''P''} \<and> port_value (snd opt) \<noteq> None
     \<or> fst opt = CHR ''u'' \<and> user (snd opt) \<noteq> None"

definition user_entries :: "(char \<times> byte list) list \<Rightarrow> (byte list \<times> byte list) list" where
  "user_entries options = map (\<lambda>opt. the (user (snd opt))) (filter (\<lambda>opt. fst opt = CHR ''u'') options)"

definition last_of :: "char \<Rightarrow> (byte list \<Rightarrow> 'a) \<Rightarrow> 'a \<Rightarrow> (char \<times> byte list) list \<Rightarrow> 'a" where
  "last_of c f d options = foldl (\<lambda>d opt. if fst opt = c then f (snd opt) else d) d options"

definition users_array :: "(byte list \<times> byte list) list \<Rightarrow> (byte list option \<times> byte list option) list" where
  "users_array es = map (\<lambda>(n, p). (Some n, Some p)) es @ replicate (MAX_USERS - length es) (None, None)"

text \<open>The arguments that the options, read from \<open>args\<close> with the users \<open>es\<close>, lead to.\<close>

definition args_after :: "(char \<times> byte list) list \<Rightarrow> (byte list \<times> byte list) list \<Rightarrow> socks5args \<Rightarrow> socks5args" where
  "args_after options es args =
     \<lparr>socks_addr = last_of CHR ''l'' id (socks_addr args) options,
      socks_port = last_of CHR ''p'' (\<lambda>a. the (port_value a)) (socks_port args) options,
      mng_addr = last_of CHR ''L'' id (mng_addr args) options,
      mng_port = last_of CHR ''P'' (\<lambda>a. the (port_value a)) (mng_port args) options,
      args_users = users_array (es @ user_entries options)\<rparr>"

lemma users_array_put:
  "length es < MAX_USERS \<Longrightarrow> array_put (users_array es) (length es) (Some n, Some p) = Inr (users_array (es @ [(n, p)]))"
proof -
  assume l: "length es < MAX_USERS"
  have "replicate (MAX_USERS - length es) (None :: byte list option, None :: byte list option) = (None, None) # replicate (MAX_USERS - length (es @ [(n, p)])) (None, None)"
    using l by (simp add: replicate_Suc [symmetric] Suc_diff_Suc del: replicate_Suc)
  with l show ?thesis by (simp add: array_put_def users_array_def list_update_append)
qed

lemma parse_options_refused:
  "\<not> (option_ok (c, a) \<and> (c = CHR ''u'' \<longrightarrow> n < MAX_USERS)) \<Longrightarrow>
     parse_options ((c, a) # options) n err args \<in> {Inr (Inl 0), Inr (Inl 1)}"
proof -
  assume bad: "\<not> (option_ok (c, a) \<and> (c = CHR ''u'' \<longrightarrow> n < MAX_USERS))"
  then consider "c = CHR ''u''" "MAX_USERS \<le> n \<or> user a = None" | "c \<in> {CHR ''p'', CHR ''P''}" "port_value a = None"
    | "c \<notin> {CHR ''l'', CHR ''L'', CHR ''p'', CHR ''P'', CHR ''u''}"
    unfolding option_ok_def fst_conv snd_conv insert_iff empty_iff not_less [symmetric] by blast
  then show ?thesis
    by cases (auto simp: port_no_errno)
qed

lemma user_entries_simps [simp]:
  "user_entries [] = []"
  "user_entries ((c, a) # options) = (if c = CHR ''u'' then the (user a) # user_entries options else user_entries options)"
  by (simp_all add: user_entries_def)

lemma last_of_simps [simp]:
  "last_of c f d [] = d"
  "last_of c f d ((c', a) # options) = last_of c f (if c' = c then f a else d) options"
  by (simp_all add: last_of_def)

lemma parse_options_accepted:
  assumes "option_ok (c, a)" "c = CHR ''u'' \<longrightarrow> length es < MAX_USERS" "args_users args = users_array es"
  obtains args' es' where
    "parse_options ((c, a) # options) (length es) err args = parse_options options (length es') err args'"
    "args_users args' = users_array es'" "args_after options es' args' = args_after ((c, a) # options) es args"
    "es' @ user_entries options = es @ user_entries ((c, a) # options)" "length es' \<le> MAX_USERS \<or> es' = es"
proof -
  from assms(1) consider "c = CHR ''l''" | "c = CHR ''L''" | p where "c = CHR ''p''" "port_value a = Some p"
    | p where "c = CHR ''P''" "port_value a = Some p" | n p where "c = CHR ''u''" "user a = Some (n, p)"
    by (auto simp: option_ok_def)
  then show thesis
  proof cases
    case 1
    with assms show ?thesis by (intro that [of es "args\<lparr>socks_addr := a\<rparr>"]) (simp_all add: args_after_def)
  next
    case 2
    with assms show ?thesis by (intro that [of es "args\<lparr>mng_addr := a\<rparr>"]) (simp_all add: args_after_def)
  next
    case 3
    with assms show ?thesis
      by (intro that [of es "args\<lparr>socks_port := p\<rparr>"]) (simp_all add: args_after_def port_no_errno)
  next
    case 4
    with assms show ?thesis
      by (intro that [of es "args\<lparr>mng_port := p\<rparr>"]) (simp_all add: args_after_def port_no_errno)
  next
    case 5
    with assms show ?thesis
      by (intro that [of "es @ [(n, p)]" "args\<lparr>args_users := users_array (es @ [(n, p)])\<rparr>"])
        (simp_all add: args_after_def users_array_put not_le)
  qed
qed

lemma parse_options_exact:
  assumes "args_users args = users_array es" "length es \<le> MAX_USERS"
  shows "\<exists>r. parse_options options (length es) err args = Inr r \<and>
    (if list_all option_ok options \<and> length (es @ user_entries options) \<le> MAX_USERS
     then r = Inr (args_after options es args) else r \<in> {Inl 0, Inl 1})"
  using assms
proof (induction options arbitrary: es args)
  case Nil
  then show ?case by (simp add: args_after_def)
next
  case (Cons opt options)
  obtain c a where opt: "opt = (c, a)" by (cases opt)
  show ?case
  proof (cases "option_ok opt \<and> (c = CHR ''u'' \<longrightarrow> length es < MAX_USERS)")
    case False
    then have "parse_options ((c, a) # options) (length es) err args \<in> {Inr (Inl 0), Inr (Inl 1)}"
      unfolding opt by (rule parse_options_refused)
    moreover have "\<not> (list_all option_ok (opt # options) \<and> length (es @ user_entries (opt # options)) \<le> MAX_USERS)"
      using False by (auto simp: opt)
    ultimately show ?thesis unfolding opt by (simp only: if_False) blast
  next
    case True
    then have ok: "option_ok (c, a)" "c = CHR ''u'' \<longrightarrow> length es < MAX_USERS" by (simp_all add: opt)
    obtain args' es' where p: "parse_options ((c, a) # options) (length es) err args = parse_options options (length es') err args'"
      "args_users args' = users_array es'" "args_after options es' args' = args_after ((c, a) # options) es args"
      "es' @ user_entries options = es @ user_entries ((c, a) # options)" "length es' \<le> MAX_USERS \<or> es' = es"
      by (rule parse_options_accepted [OF ok Cons.prems(1), of options err])
    have "length es' \<le> MAX_USERS" using p(5) Cons.prems(2) by auto
    from Cons.IH [OF p(2) this] show ?thesis
      unfolding opt p(1) p(3) [symmetric] p(4) [symmetric] by (simp only: list.pred_inject(2) ok(1) simp_thms)
  qed
qed

section \<open>The users of the command line\<close>

definition valid_entries :: "(byte list \<times> byte list) list \<Rightarrow> (byte list \<times> byte list) list" where
  "valid_entries es =
     map (\<lambda>(n, p). (cstr n, cstr p)) (filter (\<lambda>(n, p). field_is_valid (Some n) \<and> field_is_valid (Some p)) es)"

text \<open>A table with room for all entries keeps the first password of each name.\<close>

lemma add_each_map:
  assumes "users_wf us" "card (dom (users_map us)) + length es \<le> USERS_MAX"
  shows "returns (add_each (map (\<lambda>(n, p). (Some n, Some p)) es) us)
    (\<lambda>us'. users_wf us' \<and> users_map us' = map_of (valid_entries es) ++ users_map us)"
  using assms
proof (induction es arbitrary: us)
  case Nil
  then show ?case by (simp add: valid_entries_def)
next
  case (Cons e es)
  obtain n p where e: "e = (n, p)" by (cases e)
  obtain ret us1 where a: "users_add (Some n) (Some p) us = Inr (ret, us1)" "users_wf us1"
    "(ret, users_map us1) = store_add (Some n) (Some p) (users_map us)"
    by (rule returnsE [OF users_add_store [OF Cons.prems(1), of "Some n" "Some p"]]) auto
  let ?valid = "field_is_valid (Some n) \<and> field_is_valid (Some p)"
  have m: "users_map us1 = (if ?valid \<and> users_map us (cstr n) = None then (users_map us)(cstr n \<mapsto> cstr p) else users_map us)"
    using a(3) Cons.prems(2) by (auto simp: store_add_def split: if_splits)
  have fin: "finite (dom (users_map us))" by (simp add: dom_users_map)
  have "card (dom (users_map us1)) \<le> Suc (card (dom (users_map us)))"
    unfolding m using fin by (simp add: card_insert_if)
  then have "card (dom (users_map us1)) + length es \<le> USERS_MAX" using Cons.prems(2) by simp
  note ih = Cons.IH [OF a(2) this]
  have "map_of (valid_entries es) ++ users_map us1 = map_of (valid_entries (e # es)) ++ users_map us"
    unfolding m by (auto simp: e valid_entries_def map_add_def fun_eq_iff split: option.splits)
  with ih show ?case by (auto simp: e a(1) elim: returns_mono)
qed

lemma users_array_add:
  assumes "length es \<le> MAX_USERS"
  shows "returns (users_init_from_args (Some (users_array es)) (count_users (users_array es)))
    (\<lambda>us. users_wf us \<and> users_map us = map_of (valid_entries es))"
proof -
  let ?some = "map (\<lambda>(n, p). (Some n, Some p)) es"
  have "takeWhile (\<lambda>u. fst u \<noteq> None) ?some = ?some" by (induction es) auto
  moreover have "takeWhile (\<lambda>u. fst u \<noteq> None) (replicate k (None, None)) = []" for k by (cases k) auto
  ultimately have c: "count_users (users_array es) = length es"
    using assms by (simp add: count_users_def users_array_def takeWhile_append)
  have "users_init_from_args (Some (users_array es)) (length es) = add_each ?some zero_users"
    using assms by (simp add: users_init_from_args_def users_array_def USERS_MAX_def MAX_USERS_def min_absorb1)
  moreover have "card (dom (users_map zero_users)) + length es \<le> USERS_MAX"
    using assms by (simp add: USERS_MAX_def MAX_USERS_def)
  ultimately show ?thesis
    unfolding c using add_each_map [OF users_wf_zero(1), of es] by simp
qed

definition accepted :: "(char \<times> byte list) list \<Rightarrow> nat \<Rightarrow> bool" where
  "accepted options operands \<longleftrightarrow> list_all option_ok options \<and> length (user_entries options) \<le> MAX_USERS \<and> operands = 0"

lemma parse_args_cases:
  "\<exists>r. parse_args options operands err = Inr r \<and>
    (if accepted options operands then r = Inr (args_after options [] default_args) else r \<in> {Inl 0, Inl 1})"
proof -
  have "args_users default_args = users_array []" by (simp add: default_args_def users_array_def)
  from parse_options_exact [OF this, of options err] obtain r where r: "parse_options options 0 err default_args = Inr r"
    "if list_all option_ok options \<and> length (user_entries options) \<le> MAX_USERS
     then r = Inr (args_after options [] default_args) else r \<in> {Inl 0, Inl 1}" by auto
  show ?thesis
    using r(2) by (auto simp: parse_args_def r(1) accepted_def split: if_splits)
qed

lemma main_args_cases:
  "returns (main_args options operands err) (\<lambda>r.
    if accepted options operands then
      (case r of
         Inl status \<Rightarrow> False
       | Inr call \<Rightarrow> users_wf (sc_users call) \<and> users_map (sc_users call) = map_of (valid_entries (user_entries options))
           \<and> sc_host call = last_of CHR ''l'' id (bytes ''0.0.0.0'') options
           \<and> sc_management_host call = last_of CHR ''L'' id (bytes ''127.0.0.1'') options
           \<and> terminated (sc_port call) \<and> terminated (sc_management_port call)
           \<and> port_value (cstr (sc_port call)) = Some (last_of CHR ''p'' (\<lambda>a. the (port_value a)) 1080 options)
           \<and> port_value (cstr (sc_management_port call)) = Some (last_of CHR ''P'' (\<lambda>a. the (port_value a)) 8080 options))
    else r \<in> {Inl 0, Inl 1})"
proof -
  obtain r where r: "parse_args options operands err = Inr r"
    "if accepted options operands then r = Inr (args_after options [] default_args) else r \<in> {Inl 0, Inl 1}"
    using parse_args_cases by blast
  show ?thesis
  proof (cases "accepted options operands")
    case False
    with r show ?thesis by (auto simp: main_args_def)
  next
    case True
    let ?a = "args_after options [] default_args"
    have es: "length (user_entries options) \<le> MAX_USERS" using True by (simp add: accepted_def)
    obtain us where us: "users_init_from_args (Some (args_users ?a)) (count_users (args_users ?a)) = Inr us"
      "users_wf us" "users_map us = map_of (valid_entries (user_entries options))"
      by (rule returnsE [OF users_array_add [OF es]]) (auto simp: args_after_def)
    obtain sp mp where p: "c_snprintf (replicate 6 0) 0 6 (dec (unat (socks_port ?a))) = Inr sp"
      "c_snprintf (replicate 6 0) 0 6 (dec (unat (mng_port ?a))) = Inr mp"
      "terminated sp" "cstr sp = dec (unat (socks_port ?a))" "terminated mp" "cstr mp = dec (unat (mng_port ?a))"
      using port_string [of "socks_port ?a"] port_string [of "mng_port ?a"] unfolding returns_iff by blast
    show ?thesis
      using True r(2) us(2,3) p(3-6)
      by (simp add: main_args_def r(1) us(1) p(1,2) port_dec) (simp add: args_after_def default_args_def)
  qed
qed

lemma field_length: "field_is_valid (Some f) \<longleftrightarrow> length (cstr f) \<in> {1..255}"
  by (simp add: field_is_valid_def USERS_FIELD_MAX_def Suc_le_eq)

lemma configured_valid:
  assumes "users_wf us" "users_map us = map_of (valid_entries es)"
  shows "users_are_configured us \<longleftrightarrow> list_ex (\<lambda>(n, p). length (cstr n) \<in> {1..255} \<and> length (cstr p) \<in> {1..255}) es"
  using assms
  by (auto simp: configured_iff valid_entries_def list_ex_iff filter_empty_conv field_length split_def)

section \<open>Properties\<close>

text \<open>
  C40. A port is accepted exactly if the argument is a numeral between 0 and 65535: blanks, at most
  one sign and at least one decimal digit, with nothing behind them; \<open>-0\<close> is one of them, and
  neither an overflow of \<open>long\<close> nor what \<open>errno\<close> was makes a difference.
\<close>

theorem port_exact:
  "(\<exists>err'. port s err = Some (p, err')) \<longleftrightarrow>
     (\<exists>ws sg ds. s = ws @ sg @ ds \<and> is_numeral ws sg ds \<and> numeral_value ds \<le> 65535
        \<and> (sg \<in> {[], [43]} \<or> sg = [45] \<and> numeral_value ds = 0) \<and> p = of_nat (numeral_value ds))"
proof -
  have "is_numeral ws sg ds \<and> numeral_value ds \<le> 65535 \<and> (sg \<noteq> [45] \<or> numeral_value ds = 0) \<and> p = of_nat (numeral_value ds)
      \<longleftrightarrow> is_numeral ws sg ds \<and> numeral_value ds \<le> 65535 \<and> (sg \<in> {[], [43]} \<or> sg = [45] \<and> numeral_value ds = 0)
        \<and> p = of_nat (numeral_value ds)" for ws sg ds
    by (auto simp: is_numeral_def)
  then show ?thesis by (simp only: port_iff)
qed

text \<open>
  C39. The command line is read as documented: \<open>main\<close> goes on exactly if every option is known and
  well-formed, there are at most ten users and no further words; then the last address and
  port of each kind count, with the documented defaults, and the two strings handed to
  \<open>server_run\<close> are NUL-terminated in their six bytes and read back as those ports. Otherwise
  the program ends with status 0 or 1. No array is left in either case.
\<close>

theorem command_line_exact:
  "returns (main_args options operands err) (\<lambda>r.
    if accepted options operands then
      (case r of
         Inl status \<Rightarrow> False
       | Inr call \<Rightarrow> sc_host call = last_of CHR ''l'' id (bytes ''0.0.0.0'') options
           \<and> sc_management_host call = last_of CHR ''L'' id (bytes ''127.0.0.1'') options
           \<and> terminated (sc_port call) \<and> terminated (sc_management_port call)
           \<and> port_value (cstr (sc_port call)) = Some (last_of CHR ''p'' (\<lambda>a. the (port_value a)) 1080 options)
           \<and> port_value (cstr (sc_management_port call)) = Some (last_of CHR ''P'' (\<lambda>a. the (port_value a)) 8080 options))
    else r \<in> {Inl 0, Inl 1})"
  by (rule returns_mono [OF main_args_cases]) (auto split: if_splits sum.splits)

text \<open>
  C31. When the server runs open to everybody: after a command line that is accepted,
  authentication is asked for exactly if one of the \<open>-u\<close> entries has a name and a password of 1 to
  255 bytes. \<open>users_add\<close> rejects all others and \<open>users_init_from_args\<close> drops what it returns, so
  that \<open>-u name:\<close> alone is accepted without a message and nobody has to authenticate.
\<close>

theorem auth_required_exact:
  "returns (main_args options operands err) (\<lambda>r.
    case r of
      Inl status \<Rightarrow> \<not> accepted options operands
    | Inr call \<Rightarrow> accepted options operands
        \<and> (users_are_configured (sc_users call) \<longleftrightarrow>
             list_ex (\<lambda>(n, p). length (cstr n) \<in> {1..255} \<and> length (cstr p) \<in> {1..255}) (user_entries options)))"
  by (rule returns_mono [OF main_args_cases]) (auto simp: configured_valid split: if_splits sum.splits)

text \<open>
  C38. The users of the command line, and no others, can log in when the server starts: the table
  accepts a name and a password exactly if the first valid \<open>-u\<close> entry of that name has that
  password. Entries with an empty or too long part do not count, and there is room for all.
\<close>

theorem command_line_users:
  "returns (main_args options operands err) (\<lambda>r.
    case r of
      Inl status \<Rightarrow> \<not> accepted options operands
    | Inr call \<Rightarrow> accepted options operands \<and> users_wf (sc_users call)
        \<and> (users_credentials_are_valid n p (sc_users call) \<longleftrightarrow> map_of (valid_entries (user_entries options)) n = Some p))"
  by (rule returns_mono [OF main_args_cases]) (auto simp: credentials_users_map split: if_splits sum.splits)

end
