(* ===== verification/Client.thy ===== *)
theory Client
  imports Management Sockets "HOL-Library.Sublist"
begin

text \<open>
  \<^verbatim>\<open>src/src/client/client.c\<close>: the management client. It joins its words to a line, connects,
  sends the line and prints what comes back until the server closes. The operating system's
  answers are arguments: one list per loop of calls. A loop that has used up its answers has
  not ended, which is the fault \<open>LoopBound\<close>.

  Beside the client's own properties, the line it sends is shown to be taken apart by
  \<open>Management\<close> into the words it was given.
\<close>

section \<open>The line\<close>

definition CLIENT_BUFFER_SIZE :: nat where "CLIENT_BUFFER_SIZE = 1024"

text \<open>The loop of \<open>build_command\<close>; \<open>first\<close> is \<open>i == start\<close>.\<close>

fun build_loop :: "byte list list \<Rightarrow> bool \<Rightarrow> nat \<Rightarrow> byte list \<Rightarrow> nat \<Rightarrow> (bool \<times> byte list) result" where
  "build_loop [] first used buffer buffer_size = Inr (True, buffer)"
| "build_loop (arg # rest) first used buffer buffer_size =
     (let printed_text = (if first then [] else [32]) @ cstr arg in
      bindE (c_snprintf buffer used (buffer_size - used) printed_text) (\<lambda>buffer.
      if length printed_text \<ge> buffer_size - used then Inr (False, buffer)
      else build_loop rest False (used + length printed_text) buffer buffer_size))"

definition build_command :: "byte list list \<Rightarrow> nat \<Rightarrow> byte list \<Rightarrow> nat \<Rightarrow> (bool \<times> byte list) result" where
  "build_command argv start buffer buffer_size =
     (if start \<ge> length argv then
        bindE (c_snprintf buffer 0 buffer_size (bytes ''STATS'')) (\<lambda>buffer. Inr (True, buffer))
      else build_loop (drop start argv) True 0 buffer buffer_size)"

section \<open>Talking to the server\<close>

fun send_bytes :: "byte list \<Rightarrow> nat \<Rightarrow> nat \<Rightarrow> send_answer list \<Rightarrow> byte list \<Rightarrow> (bool \<times> byte list) result" where
  "send_bytes buffer sent len [] wire = (if sent < len then Inl LoopBound else Inr (True, wire))"
| "send_bytes buffer sent len (answer # answers) wire =
     (if sent < len then
        (case answer of
           Takes k \<Rightarrow>
             let n = min k (len - sent) in
             if n > 0 then
               bindE (array_read buffer sent n) (\<lambda>bs.
               send_bytes buffer (sent + n) len answers (wire @ bs))
             else Inr (False, wire)
         | Send_Error e \<Rightarrow>
             if e = EINTR then send_bytes buffer sent len answers wire else Inr (False, wire))
      else Inr (True, wire))"

definition send_command :: "byte list \<Rightarrow> send_answer list \<Rightarrow> (bool \<times> byte list) result" where
  "send_command command answers =
     (let line = cstr command @ [10] in
      bindE (c_snprintf (replicate CLIENT_BUFFER_SIZE 0) 0 CLIENT_BUFFER_SIZE line) (\<lambda>buffer.
      if length line \<ge> CLIENT_BUFFER_SIZE then Inr (False, [])
      else send_bytes buffer 0 (length line) answers []))"

text \<open>\<open>output\<close> is what was printed.\<close>

fun print_loop :: "recv_answer list \<Rightarrow> byte list \<Rightarrow> byte list \<Rightarrow> byte list \<Rightarrow> (bool \<times> byte list) result" where
  "print_loop [] buffer incoming output = Inl LoopBound"
| "print_loop (answer # answers) buffer incoming output =
     (case answer of
        Delivers n \<Rightarrow>
          let bs = take (min (max 1 n) CLIENT_BUFFER_SIZE) incoming in
          if length bs > 0 then
            bindE (array_write buffer 0 bs) (\<lambda>buffer.
            bindE (array_read buffer 0 (length bs)) (\<lambda>shown.
            print_loop answers buffer (drop (length bs) incoming) (output @ shown)))
          else Inr (True, output)
      | Recv_Error e \<Rightarrow> if e = EINTR then print_loop answers buffer incoming output else Inr (False, output))"

definition print_response :: "recv_answer list \<Rightarrow> byte list \<Rightarrow> (bool \<times> byte list) result" where
  "print_response answers incoming = print_loop answers (replicate CLIENT_BUFFER_SIZE 0) incoming []"

section \<open>Connecting\<close>

record connect_answers =
  ca_socket :: int
  ca_connect :: bool

fun connect_loop :: "connect_answers list \<Rightarrow> int \<times> socket_step list" where
  "connect_loop [] = (-1, [])"
| "connect_loop (current # rest) =
     (if ca_socket current = -1 then connect_loop rest
      else if ca_connect current then (ca_socket current, [Opened (ca_socket current)])
      else give_up (ca_socket current) (connect_loop rest))"

definition connect_to_management :: "int \<Rightarrow> connect_answers list \<Rightarrow> int \<times> socket_step list" where
  "connect_to_management status addresses = (if status \<noteq> 0 then (-1, []) else connect_loop addresses)"

definition connect_attempt :: "connect_answers \<Rightarrow> int \<times> bool" where
  "connect_attempt a = (ca_socket a, ca_connect a)"

interpretation client_walk: address_walk connect_attempt connect_loop
  by unfold_locales (auto simp: connect_attempt_def give_up_def split: prod.split)

section \<open>The program\<close>

text \<open>The options with their arguments: the address and port to connect to, or the exit status.\<close>

fun client_options :: "(char \<times> byte list) list \<Rightarrow> byte list \<Rightarrow> byte list \<Rightarrow> int + (byte list \<times> byte list)" where
  "client_options [] host port = Inr (host, port)"
| "client_options ((c, optarg) # rest) host port =
     (if c = CHR ''h'' then Inl 0
      else if c = CHR ''L'' then client_options rest optarg port
      else if c = CHR ''P'' then client_options rest host optarg
      else Inl 1)"

text \<open>
  The network as the client meets it: what \<open>getaddrinfo\<close> and each call return for an address
  and port, and what the server sends back when it has received a line.
\<close>

record network =
  net_status :: "byte list \<Rightarrow> byte list \<Rightarrow> int"
  net_addresses :: "byte list \<Rightarrow> byte list \<Rightarrow> connect_answers list"
  net_sends :: "send_answer list"
  net_recvs :: "recv_answer list"
  net_reply :: "byte list \<Rightarrow> byte list"

text \<open>\<open>main\<close>: the exit status, what was sent and printed, and the sockets opened and closed.\<close>

definition client_main ::
  "(char \<times> byte list) list \<Rightarrow> byte list list \<Rightarrow> nat \<Rightarrow> network
     \<Rightarrow> (int \<times> byte list \<times> byte list \<times> socket_step list) result" where
  "client_main options argv optind net =
     (case client_options options (bytes ''127.0.0.1'') (bytes ''8080'') of
        Inl status \<Rightarrow> Inr (status, [], [], [])
      | Inr (host, port) \<Rightarrow>
          bindE (build_command argv optind (replicate CLIENT_BUFFER_SIZE 0) CLIENT_BUFFER_SIZE) (\<lambda>(built, command).
          if \<not> built then Inr (1, [], [], [])
          else
            (case connect_to_management (net_status net host port) (net_addresses net host port) of
               (fd, steps) \<Rightarrow>
                 if fd = -1 then Inr (1, [], [], steps)
                 else
                   bindE (send_command command (net_sends net)) (\<lambda>(sent, wire).
                   bindE (if sent then print_response (net_recvs net) (net_reply net wire) else Inr (False, []))
                     (\<lambda>(ok, output).
                     Inr (if ok then 0 else 1, wire, output, steps @ [Closed fd]))))))"

section \<open>The line is joined\<close>

definition spaced :: "byte list list \<Rightarrow> byte list" where
  "spaced ws = concat (map (\<lambda>w. 32 # cstr w) ws)"

fun joined :: "byte list list \<Rightarrow> byte list" where
  "joined [] = []"
| "joined (w # ws) = cstr w @ spaced ws"

lemma spaced_simps [simp]:
  "spaced [] = []"
  "spaced (w # ws) = 32 # cstr w @ spaced ws"
  by (simp_all add: spaced_def)

lemma joined_no_nul [simp]: "0 \<notin> set (spaced ws)" "0 \<notin> set (joined ws)"
  by (induction ws) auto

lemma build_loop_exact:
  assumes "cstr buf = p" "length p < sz" "sz \<le> length buf"
  shows "returns (build_loop ws first (length p) buf sz) (\<lambda>(ok, buf').
    ok = (length (p @ (if first then joined ws else spaced ws)) < sz)
    \<and> (ok \<longrightarrow> cstr buf' = p @ (if first then joined ws else spaced ws)))"
  using assms
proof (induction ws arbitrary: first p buf)
  case Nil
  then show ?case by simp
next
  case (Cons w ws)
  let ?t = "(if first then [] else [32]) @ cstr w"
  have "0 \<notin> set ?t" by simp
  from c_snprintf_append [OF Cons.prems this] obtain b where b: "c_snprintf buf (length p) (sz - length p) ?t = Inr b"
    "length b = length buf" "cstr b = take (sz - 1) (p @ ?t)" by (rule returnsE) blast
  show ?case
  proof (cases "length ?t \<ge> sz - length p")
    case True
    then show ?thesis using Cons.prems b by (auto simp: Let_def)
  next
    case False
    then have "cstr b = p @ ?t" "length (p @ ?t) < sz" "sz \<le> length b" using b Cons.prems by auto
    note ih = Cons.IH [OF this, of False]
    have l: "length p + length ?t = length (p @ ?t)" by simp
    show ?thesis
      using False ih unfolding build_loop.simps Let_def b(1) bindE_simps l by (cases first) simp_all
  qed
qed

definition line_text :: "byte list list \<Rightarrow> nat \<Rightarrow> byte list" where
  "line_text argv start = (if start \<ge> length argv then bytes ''STATS'' else joined (drop start argv))"

lemma line_text_no_nul [simp]: "0 \<notin> set (line_text argv start)"
  by (simp add: line_text_def bytes_def)

lemma build_command_exact:
  assumes "length buffer = CLIENT_BUFFER_SIZE" "cstr buffer = []"
  shows "returns (build_command argv start buffer CLIENT_BUFFER_SIZE) (\<lambda>(ok, command).
    ok = (length (line_text argv start) < CLIENT_BUFFER_SIZE) \<and> (ok \<longrightarrow> cstr command = line_text argv start))"
proof (cases "start \<ge> length argv")
  case True
  have "returns (c_snprintf buffer 0 CLIENT_BUFFER_SIZE (bytes ''STATS'')) (\<lambda>b. cstr b = take (CLIENT_BUFFER_SIZE - 1) (bytes ''STATS''))"
    using assms by (intro c_snprintf_string) (simp_all add: CLIENT_BUFFER_SIZE_def bytes_def)
  with True show ?thesis
    by (simp add: build_command_def line_text_def CLIENT_BUFFER_SIZE_def bytes_def returns_mono)
next
  case False
  then show ?thesis
    using build_loop_exact [of buffer "[]" CLIENT_BUFFER_SIZE "drop start argv" True] assms
    by (simp add: build_command_def line_text_def CLIENT_BUFFER_SIZE_def)
qed

section \<open>The line is sent and the answer printed\<close>

lemma send_bytes_prefix:
  assumes "sent \<le> len" "len \<le> length buffer" "wire = take sent buffer"
  shows "ended_or_waiting (send_bytes buffer sent len answers wire) (\<lambda>(ok, wire').
    \<exists>k \<le> len. wire' = take k buffer \<and> ok = (k = len))"
  using assms
proof (induction answers arbitrary: sent wire)
  case Nil
  then show ?case by auto
next
  case (Cons a as)
  show ?case
  proof (cases "sent < len")
    case False
    with Cons.prems show ?thesis by auto
  next
    case True
    show ?thesis
    proof (cases a)
      case (Takes k)
      let ?n = "min k (len - sent)"
      have "sent + ?n \<le> len" "sent + ?n \<le> length buffer" using True Cons.prems by auto
      moreover have "wire @ take ?n (drop sent buffer) = take (sent + ?n) buffer"
        using Cons.prems(3) by (simp add: take_add)
      ultimately show ?thesis
        using True Takes Cons.prems Cons.IH [of "sent + ?n" "take (sent + ?n) buffer"] by (auto simp: Let_def)
    next
      case (Send_Error e)
      with True Cons.prems Cons.IH [of sent wire] show ?thesis by (auto intro: exI [of _ sent])
    qed
  qed
qed

text \<open>A system that takes at least one byte in each call that is not interrupted.\<close>

definition patient_sends :: "send_answer list \<Rightarrow> bool" where
  "patient_sends answers \<longleftrightarrow> list_all (\<lambda>a. case a of Takes k \<Rightarrow> k > 0 | Send_Error e \<Rightarrow> e = EINTR) answers"

definition takes :: "send_answer list \<Rightarrow> nat" where
  "takes answers = length (filter (\<lambda>a. a \<noteq> Send_Error EINTR) answers)"

lemma send_bytes_ends:
  assumes "sent \<le> len" "len \<le> length buffer" "patient_sends answers" "len - sent \<le> takes answers"
  shows "returns (send_bytes buffer sent len answers wire) fst"
  using assms
proof (induction answers arbitrary: sent wire)
  case Nil
  then show ?case by (simp add: takes_def)
next
  case (Cons a as)
  have as: "patient_sends as" using Cons.prems(3) by (simp add: patient_sends_def)
  show ?case
  proof (cases "sent < len")
    case False
    then show ?thesis by simp
  next
    case True
    show ?thesis
    proof (cases a)
      case (Takes k)
      let ?n = "min k (len - sent)"
      have "k > 0" using Cons.prems(3) Takes by (simp add: patient_sends_def)
      moreover have "takes (a # as) = Suc (takes as)" using Takes by (simp add: takes_def)
      ultimately show ?thesis
        using True Takes Cons.prems as Cons.IH [of "sent + ?n"] by (simp add: Let_def)
    next
      case (Send_Error e)
      then have "e = EINTR" "takes (a # as) = takes as"
        using Cons.prems(3) by (simp_all add: patient_sends_def takes_def)
      with True Send_Error Cons.prems as Cons.IH [of sent] show ?thesis by simp
    qed
  qed
qed

lemma send_command_exact:
  "ended_or_waiting (send_command command answers) (\<lambda>(ok, wire). prefix wire (cstr command @ [10])
     \<and> (ok \<longleftrightarrow> wire = cstr command @ [10] \<and> length (cstr command) + 1 < CLIENT_BUFFER_SIZE))"
  "length (cstr command) + 1 < CLIENT_BUFFER_SIZE \<Longrightarrow> patient_sends answers
     \<Longrightarrow> length (cstr command) + 1 \<le> takes answers
     \<Longrightarrow> returns (send_command command answers) (\<lambda>(ok, wire). ok \<and> wire = cstr command @ [10])"
proof -
  let ?line = "cstr command @ [10]"
  have nul: "0 \<notin> set ?line" by simp
  obtain b where b: "c_snprintf (replicate CLIENT_BUFFER_SIZE 0) 0 CLIENT_BUFFER_SIZE ?line = Inr b"
    "cstr b = take (CLIENT_BUFFER_SIZE - 1) ?line" "length b = CLIENT_BUFFER_SIZE"
    using c_snprintf_string [OF _ _ nul, of CLIENT_BUFFER_SIZE "replicate CLIENT_BUFFER_SIZE 0"]
      returns_c_snprintf [of 0 CLIENT_BUFFER_SIZE "replicate CLIENT_BUFFER_SIZE 0" ?line]
    by (auto simp: returns_iff CLIENT_BUFFER_SIZE_def)
  show prefix: "ended_or_waiting (send_command command answers) (\<lambda>(ok, wire). prefix wire ?line
     \<and> (ok \<longleftrightarrow> wire = ?line \<and> length (cstr command) + 1 < CLIENT_BUFFER_SIZE))"
  proof (cases "length ?line \<ge> CLIENT_BUFFER_SIZE")
    case True
    then show ?thesis by (auto simp: send_command_def b(1) Let_def)
  next
    case False
    then have cb: "cstr b = ?line" using b(2) by simp
    have t: "take k b = take k ?line \<and> (take k b = ?line \<longleftrightarrow> k = length ?line)" if "k \<le> length ?line" for k
    proof -
      have "take k b = take k ?line" using that take_length_cstr [of b] cb by (metis min_absorb1 take_take)
      then show ?thesis using that by (simp only: take_all_iff) auto
    qed
    have "ended_or_waiting (send_bytes b 0 (length ?line) answers []) (\<lambda>(ok, wire).
        \<exists>k \<le> length ?line. wire = take k b \<and> ok = (k = length ?line))"
      using False b(3) by (intro send_bytes_prefix) simp_all
    then have "ended_or_waiting (send_bytes b 0 (length ?line) answers []) (\<lambda>(ok, wire).
        prefix wire ?line \<and> (ok \<longleftrightarrow> wire = ?line))"
      by (rule ended_mono) (use t take_is_prefix in fastforce)
    then show ?thesis
      using False unfolding send_command_def Let_def b(1) bindE_simps by (auto elim!: ended_mono)
  qed
  assume short: "length (cstr command) + 1 < CLIENT_BUFFER_SIZE" and p: "patient_sends answers"
    and n: "length (cstr command) + 1 \<le> takes answers"
  have "returns (send_bytes b 0 (length ?line) answers []) fst"
    using short n b(3) by (intro send_bytes_ends [OF _ _ p]) simp_all
  then have "returns (send_command command answers) fst"
    using short by (simp add: send_command_def b(1) Let_def)
  with prefix show "returns (send_command command answers) (\<lambda>(ok, wire). ok \<and> wire = ?line)"
    by (auto simp: ended_or_waiting_def returns_iff)
qed

lemma print_loop_prefix:
  assumes "length buffer = CLIENT_BUFFER_SIZE"
  shows "ended_or_waiting (print_loop answers buffer incoming out) (\<lambda>(ok, out').
    \<exists>k. out' = out @ take k incoming \<and> (ok \<longrightarrow> out' = out @ incoming))"
  using assms
proof (induction answers arbitrary: buffer incoming out)
  case Nil
  then show ?case by simp
next
  case (Cons a as)
  show ?case
  proof (cases a)
    case (Delivers n)
    define m where "m = min (max 1 n) CLIENT_BUFFER_SIZE"
    let ?bs = "take m incoming"
    have m: "0 < m" "m \<le> length buffer" using Cons.prems by (auto simp: m_def CLIENT_BUFFER_SIZE_def)
    show ?thesis
    proof (cases "incoming = []")
      case True
      with Delivers show ?thesis by simp
    next
      case False
      let ?b = "overwrite buffer 0 ?bs"
      have w: "array_write buffer 0 ?bs = Inr ?b" "length ?b = CLIENT_BUFFER_SIZE"
        "array_read ?b 0 (length ?bs) = Inr ?bs"
        using m Cons.prems by (simp_all add: overwrite_def min_def)
      have bs: "?bs \<noteq> []" "drop (length ?bs) incoming = drop m incoming" using m False by (auto simp: min_def)
      have "ended_or_waiting (print_loop as ?b (drop m incoming) (out @ ?bs)) (\<lambda>(ok, out').
          \<exists>k. out' = out @ take k incoming \<and> (ok \<longrightarrow> out' = out @ incoming))"
      proof (rule ended_mono [OF Cons.IH [OF w(2), of "drop m incoming" "out @ ?bs"]])
        fix x :: "bool \<times> byte list"
        assume "case x of (ok, out') \<Rightarrow> \<exists>k. out' = (out @ ?bs) @ take k (drop m incoming)
            \<and> (ok \<longrightarrow> out' = (out @ ?bs) @ drop m incoming)"
        then obtain ok out' k where x: "x = (ok, out')" "out' = (out @ ?bs) @ take k (drop m incoming)"
          "ok \<longrightarrow> out' = (out @ ?bs) @ drop m incoming" by (cases x) auto
        then show "case x of (ok, out') \<Rightarrow> \<exists>k. out' = out @ take k incoming \<and> (ok \<longrightarrow> out' = out @ incoming)"
          by (auto simp: take_add intro!: exI [of _ "m + k"])
      qed
      then show ?thesis
        using bs(1) unfolding Delivers print_loop.simps recv_answer.case Let_def m_def [symmetric] bs(2) w bindE_simps by simp
    qed
  next
    case (Recv_Error e)
    with Cons.IH [OF Cons.prems] show ?thesis by (auto)
  qed
qed

definition patient_recvs :: "recv_answer list \<Rightarrow> bool" where
  "patient_recvs answers \<longleftrightarrow> list_all (\<lambda>a. case a of Delivers n \<Rightarrow> True | Recv_Error e \<Rightarrow> e = EINTR) answers"

definition deliveries :: "recv_answer list \<Rightarrow> nat" where
  "deliveries answers = length (filter (\<lambda>a. a \<noteq> Recv_Error EINTR) answers)"

lemma print_loop_ends:
  assumes "length buffer = CLIENT_BUFFER_SIZE" "patient_recvs answers" "length incoming < deliveries answers"
  shows "returns (print_loop answers buffer incoming out) fst"
  using assms
proof (induction answers arbitrary: buffer incoming out)
  case Nil
  then show ?case by (simp add: deliveries_def)
next
  case (Cons a as)
  have as: "patient_recvs as" using Cons.prems(2) by (simp add: patient_recvs_def)
  show ?case
  proof (cases a)
    case (Delivers n)
    define bs where "bs = take (min (max 1 n) CLIENT_BUFFER_SIZE) incoming"
    let ?b = "overwrite buffer 0 bs"
    have bs: "length bs \<le> CLIENT_BUFFER_SIZE" "incoming = [] \<longleftrightarrow> bs = []" "length (drop (length bs) incoming) = length incoming - length bs"
      by (auto simp: bs_def CLIENT_BUFFER_SIZE_def)
    have "deliveries (a # as) = Suc (deliveries as)" using Delivers by (simp add: deliveries_def)
    then have "bs \<noteq> [] \<Longrightarrow> length (drop (length bs) incoming) < deliveries as"
      using Cons.prems(3) bs(2,3) length_greater_0_conv [of incoming] length_greater_0_conv [of bs] by linarith
    from Cons.IH [OF _ as this, of ?b] show ?thesis
      using Delivers bs(1) Cons.prems(1) unfolding Delivers print_loop.simps recv_answer.case Let_def bs_def [symmetric]
      by simp
  next
    case (Recv_Error e)
    then have "e = EINTR" "deliveries (a # as) = deliveries as"
      using Cons.prems(2) by (simp_all add: patient_recvs_def deliveries_def)
    with Recv_Error Cons.prems as Cons.IH [of buffer incoming] show ?thesis by simp
  qed
qed

lemma print_response_exact:
  "ended_or_waiting (print_response answers incoming) (\<lambda>(ok, out). prefix out incoming \<and> (ok \<longrightarrow> out = incoming))"
  "patient_recvs answers \<Longrightarrow> length incoming < deliveries answers
     \<Longrightarrow> print_response answers incoming = Inr (True, incoming)"
proof -
  show p: "ended_or_waiting (print_response answers incoming) (\<lambda>(ok, out). prefix out incoming \<and> (ok \<longrightarrow> out = incoming))"
    unfolding print_response_def using print_loop_prefix [of "replicate CLIENT_BUFFER_SIZE 0" answers incoming "[]"]
    by (auto elim!: ended_mono simp: take_is_prefix)
  assume "patient_recvs answers" "length incoming < deliveries answers"
  then have "returns (print_response answers incoming) fst"
    unfolding print_response_def by (intro print_loop_ends) simp_all
  with p show "print_response answers incoming = Inr (True, incoming)"
    by (auto simp: ended_or_waiting_def returns_iff)
qed

section \<open>The server's words are the client's\<close>

definition word_ok :: "byte list \<Rightarrow> bool" where
  "word_ok w \<longleftrightarrow> w \<noteq> [] \<and> set w \<inter> {0, 9, 10, 13, 32} = {}"

lemma words_spaced:
  assumes "word_ok w" "s = [] \<or> hd s = 32"
  shows "words [32, 9] (w @ s) = w # words [32, 9] s"
proof -
  let ?D = "\<lambda>b :: byte. b \<in> set [32, 9]"
  have w: "w \<noteq> []" "\<forall>b \<in> set w. \<not> ?D b" using assms(1) by (auto simp: word_ok_def)
  have "dropWhile ?D (w @ s) = w @ s" using w by (cases w) auto
  moreover have "takeWhile (\<lambda>b. \<not> ?D b) (w @ s) = w" "dropWhile (\<lambda>b. \<not> ?D b) (w @ s) = s"
    using w(2) assms(2) by (cases s; simp add: takeWhile_append dropWhile_append)+
  ultimately show ?thesis using w(1) by (subst words.simps) (simp only: Let_def if_False)
qed

lemma words_joined: "list_all word_ok ws \<Longrightarrow> words [32, 9] (joined ws) = ws"
proof (induction ws)
  case (Cons w ws)
  have c: "cstr v = v" if "word_ok v" for v using that by (auto simp: word_ok_def intro: cstr_id)
  have "words [32, 9] (spaced ws) = words [32, 9] (joined ws)"
    by (cases ws) (simp_all add: words_skip)
  moreover have "spaced ws = [] \<or> hd (spaced ws) = 32" by (cases ws) simp_all
  ultimately show ?case using Cons c words_spaced [of w "spaced ws"] by simp
qed simp

lemma line_of_joined: "list_all word_ok ws \<Longrightarrow> line_of (joined ws @ [10]) = joined ws"
proof -
  assume ok: "list_all word_ok ws"
  have "set (spaced vs) \<inter> {0, 10, 13} = {}" if "list_all word_ok vs" for vs
    using that by (induction vs) (auto simp: word_ok_def cstr_def dest: set_takeWhileD)
  with ok have "\<forall>b \<in> set (joined ws). b \<noteq> 0 \<and> b \<noteq> 13 \<and> b \<noteq> 10"
    by (cases ws) (auto simp: word_ok_def cstr_def dest: set_takeWhileD)
  then show ?thesis by (simp add: line_of_def takeWhile_append)
qed

lemma connect_keeps_one:
  "sockets_fresh {} (snd (connect_to_management status as)) \<Longrightarrow>
     open_after {} (snd (connect_to_management status as))
       = (if fst (connect_to_management status as) = -1 then {} else {fst (connect_to_management status as)})
     \<and> closes_open {} (snd (connect_to_management status as))"
  using client_walk.walk_keeps_one [of "{}" as] by (cases "status = 0") (simp_all add: connect_to_management_def)

lemma build_start:
  "returns (build_command argv start (replicate CLIENT_BUFFER_SIZE 0) CLIENT_BUFFER_SIZE) (\<lambda>(ok, command).
    ok = (length (line_text argv start) < CLIENT_BUFFER_SIZE) \<and> (ok \<longrightarrow> cstr command = line_text argv start))"
  by (rule build_command_exact) (simp_all add: CLIENT_BUFFER_SIZE_def cstr_def)

lemma client_options_exit: "client_options options host port = Inl status \<Longrightarrow> status = 0 \<Longrightarrow> CHR ''h'' \<in> fst ` set options"
  by (induction options host port rule: client_options.induct) (auto split: if_splits)

section \<open>Properties\<close>

text \<open>
  C21. The client is safe with any network: it never leaves its buffers, and whenever it ends it has
  sent a prefix of its line and printed a prefix of the server's reply; it reports success
  only when the whole line was sent and the whole reply printed, or for \<open>-h\<close>; every socket
  it opened is closed, once. What it may do instead of ending is wait for the network.
\<close>

theorem client_safe:
  "ended_or_waiting (client_main options argv optind net) (\<lambda>(status, wire, out, steps).
    prefix wire (line_text argv optind @ [10]) \<and> prefix out (net_reply net wire)
    \<and> (status = 0 \<longrightarrow> wire = line_text argv optind @ [10] \<and> out = net_reply net wire \<or> CHR ''h'' \<in> fst ` set options \<and> steps = [])
    \<and> (sockets_fresh {} steps \<longrightarrow> closes_open {} steps \<and> open_after {} steps = {}))"
proof (cases "client_options options (bytes ''127.0.0.1'') (bytes ''8080'')")
  case (Inl status)
  then have "status = 0 \<longrightarrow> CHR ''h'' \<in> fst ` set options" by (blast intro: client_options_exit)
  then show ?thesis by (auto simp: client_main_def Inl)
next
  case (Inr hp)
  then obtain host port where o: "client_options options (bytes ''127.0.0.1'') (bytes ''8080'') = Inr (host, port)"
    by (cases hp) simp
  obtain built command where b: "build_command argv optind (replicate CLIENT_BUFFER_SIZE 0) CLIENT_BUFFER_SIZE = Inr (built, command)"
    "built = (length (line_text argv optind) < CLIENT_BUFFER_SIZE)" "built \<longrightarrow> cstr command = line_text argv optind"
    by (rule returnsE [OF build_start [of argv optind]]) auto
  obtain fd steps where c: "connect_to_management (net_status net host port) (net_addresses net host port) = (fd, steps)"
    by fastforce
  have k: "sockets_fresh {} steps \<longrightarrow> open_after {} steps = (if fd = -1 then {} else {fd}) \<and> closes_open {} steps"
    using connect_keeps_one [of "net_status net host port" "net_addresses net host port"] by (simp add: c)
  show ?thesis
  proof (cases "built \<and> fd \<noteq> -1")
    case False
    with k show ?thesis by (auto simp: client_main_def o b(1) c)
  next
    case True
    then have "cstr command = line_text argv optind" using b(3) by simp
    note send = send_command_exact(1) [of command "net_sends net", unfolded this]
    have "ended_or_waiting (if sent then print_response (net_recvs net) (net_reply net wire) else Inr (False, []))
        (\<lambda>(ok, out). prefix out (net_reply net wire) \<and> (ok \<longrightarrow> sent \<and> out = net_reply net wire))" for sent wire
      using print_response_exact(1) [of "net_recvs net" "net_reply net wire"] by (cases sent) (auto elim: ended_mono)
    note recv = this
    show ?thesis
      using True k unfolding client_main_def o b(1) c sum.case prod.case bindE_simps
      by (auto intro!: ended_bindE [OF send] ended_bindE [OF recv])
  qed
qed

text \<open>A network with an address that connects, which takes and delivers some bytes in each call.\<close>

definition good_network :: "byte list \<Rightarrow> byte list \<Rightarrow> byte list \<Rightarrow> network \<Rightarrow> bool" where
  "good_network host port line net \<longleftrightarrow>
     net_status net host port = 0 \<and> list_ex (\<lambda>a. ca_socket a \<noteq> -1 \<and> ca_connect a) (net_addresses net host port)
     \<and> patient_sends (net_sends net) \<and> length line \<le> takes (net_sends net)
     \<and> patient_recvs (net_recvs net) \<and> length (net_reply net line) < deliveries (net_recvs net)"

text \<open>A network to try it on: the second address connects, calls are interrupted and cut.\<close>

definition demo_network :: network where
  "demo_network = \<lparr>net_status = (\<lambda>_ _. 0),
     net_addresses = (\<lambda>_ _. [\<lparr>ca_socket = 3, ca_connect = False\<rparr>, \<lparr>ca_socket = 3, ca_connect = True\<rparr>]),
     net_sends = [Takes 2, Send_Error EINTR, Takes 1, Takes 9, Takes 9, Takes 9, Takes 9],
     net_recvs = [Recv_Error EINTR, Delivers 2, Delivers 1, Delivers 0, Delivers 1], net_reply = (\<lambda>line. take 3 line)\<rparr>"

theorem client_safe_witness:
  "returns (client_main [] [[99], [117]] 1 demo_network) (\<lambda>(status, wire, out, steps).
     closes_open {} steps \<and> open_after {} steps = {} \<and> prefix wire [117, 10])"
proof -
  have "ended_or_waiting (client_main [] [[99], [117]] 1 demo_network) (\<lambda>(status, wire, out, steps).
      prefix wire [117, 10] \<and> (sockets_fresh {} steps \<longrightarrow> closes_open {} steps \<and> open_after {} steps = {}))"
    by (rule ended_mono [OF client_safe [of "[]" "[[99], [117]]" 1 demo_network]]) (auto simp: line_text_def)
  moreover have "returns (client_main [] [[99], [117]] 1 demo_network) (\<lambda>(status, wire, out, steps). sockets_fresh {} steps)"
    by (simp add: client_main_def demo_network_def build_command_def CLIENT_BUFFER_SIZE_def c_snprintf_def overwrite_def
        connect_to_management_def give_up_def send_command_def print_response_def EINTR_def)
  ultimately show ?thesis by (auto simp: ended_or_waiting_def returns_iff)
qed

text \<open>
  C22. With a network that answers, the client ends, however its bytes are cut and its calls
  interrupted: it exits with 0, has sent its whole line and printed the whole reply. One call
  for each byte, and one for the end, is enough. The longest line has 1022 bytes.
\<close>

theorem client_completes:
  assumes options: "client_options options (bytes ''127.0.0.1'') (bytes ''8080'') = Inr (host, port)"
    and short: "length (line_text argv optind) \<le> 1022"
    and net: "good_network host port (line_text argv optind @ [10]) net"
  shows "\<exists>steps. client_main options argv optind net
    = Inr (0, line_text argv optind @ [10], net_reply net (line_text argv optind @ [10]), steps)"
proof -
  have len: "length (line_text argv optind) + 1 < CLIENT_BUFFER_SIZE" using short by (simp add: CLIENT_BUFFER_SIZE_def)
  obtain command where b: "build_command argv optind (replicate CLIENT_BUFFER_SIZE 0) CLIENT_BUFFER_SIZE = Inr (True, command)"
    "cstr command = line_text argv optind"
    by (rule returnsE [OF build_start [of argv optind]]) (use len in auto)
  obtain fd steps where c: "connect_to_management (net_status net host port) (net_addresses net host port) = (fd, steps)"
    by fastforce
  have "fd \<noteq> -1"
    using net client_walk.walk_finds [of "net_addresses net host port"] c
    by (simp add: good_network_def connect_to_management_def connect_attempt_def)
  moreover have "send_command command (net_sends net) = Inr (True, line_text argv optind @ [10])"
    using send_command_exact(2) [of command "net_sends net"] net len by (auto simp: b(2) good_network_def returns_iff)
  moreover have "print_response (net_recvs net) (net_reply net (line_text argv optind @ [10]))
      = Inr (True, net_reply net (line_text argv optind @ [10]))"
    using net by (intro print_response_exact(2)) (simp_all add: good_network_def)
  ultimately show ?thesis by (simp add: client_main_def options b(1) c)
qed

theorem client_completes_witness:
  "\<exists>steps. client_main [] [[99], [117]] 1 demo_network = Inr (0, [117, 10], [117, 10], steps)"
  using client_completes [of "[]" "bytes ''127.0.0.1''" "bytes ''8080''" "[[99], [117]]" 1 demo_network]
  by (simp add: line_text_def good_network_def demo_network_def patient_sends_def takes_def patient_recvs_def
      deliveries_def EINTR_def)

text \<open>
  C20. Client and server agree: words without blanks, line ends and NULs, typed behind the client's
  options and sent as its line, are the words that the management service acts on and answers,
  once it has received that line; the line fits its read buffer and ends it.
\<close>

theorem client_words_answered:
  assumes ws: "ws \<noteq> []" "list_all word_ok ws"
    and built: "build_command (program # ws) 1 (replicate CLIENT_BUFFER_SIZE 0) CLIENT_BUFFER_SIZE = Inr (True, command)"
    and sent: "send_command command answers = Inr (True, wire)"
    and st: "length (mg_read_buffer st) = MANAGEMENT_BUFFER_SIZE" "length (mg_write_buffer st) = MANAGEMENT_BUFFER_SIZE"
      "mg_read_len st = length wire" "take (length wire) (mg_read_buffer st) = wire"
    and us: "users_wf us"
  shows "10 \<in> set wire \<and> length wire < MANAGEMENT_BUFFER_SIZE \<and> (\<exists>answer us'. command_answer ws m us = Inr (answer, us')
    \<and> returns (management_prepare_response st m us) (\<lambda>(st', us2). us2 = us'
         \<and> take (mg_write_len st') (mg_write_buffer st') = take 1023 answer))"
proof -
  have "cstr command = joined ws"
    using build_start [of "program # ws" 1, unfolded built] ws(1) by (simp add: line_text_def)
  then have w: "wire = joined ws @ [10]" "length wire < CLIENT_BUFFER_SIZE"
    using send_command_exact(1) [of command answers] by (auto simp: sent)
  have len: "length wire < MANAGEMENT_BUFFER_SIZE" using w(2) by (simp add: CLIENT_BUFFER_SIZE_def MANAGEMENT_BUFFER_SIZE_def)
  have "words [32, 9] (line_of (take (mg_read_len st) (mg_read_buffer st))) = ws"
    using st(4) by (simp only: st(3) w(1) line_of_joined [OF ws(2)] words_joined [OF ws(2)])
  with prepare_exact [OF st(1) _ st(2) us, of m] len have r: "returns (command_answer ws m us) (\<lambda>(answer, us').
      returns (management_prepare_response st m us) (\<lambda>(st', us2). us2 = us'
         \<and> cstr (mg_write_buffer st') = take 1023 answer \<and> mg_write_len st' = length (cstr (mg_write_buffer st'))))"
    by (auto simp: st(3) MANAGEMENT_BUFFER_SIZE_def elim!: returns_mono)
  then obtain answer us' st' where a: "command_answer ws m us = Inr (answer, us')"
    "management_prepare_response st m us = Inr (st', us')" "cstr (mg_write_buffer st') = take 1023 answer"
    and n: "mg_write_len st' = length (cstr (mg_write_buffer st'))"
    by (auto simp: returns_iff)
  have "take (mg_write_len st') (mg_write_buffer st') = take 1023 answer"
    unfolding n take_length_cstr by (rule a(3))
  then show ?thesis using w(1) len a(1,2) by simp
qed

text \<open>The word \<open>help\<close>.\<close>

theorem client_words_answered_witness:
  "\<exists>command st. build_command [[99], bytes ''help''] 1 (replicate CLIENT_BUFFER_SIZE 0) CLIENT_BUFFER_SIZE = Inr (True, command)
     \<and> returns (management_prepare_response st zero_metrics zero_users) (\<lambda>(st', us).
         take (mg_write_len st') (mg_write_buffer st')
           = bytes ''commands=STATS,METRICS,USERS,ADDUSER,DELUSER,HELP,QUIT'' @ [10])"
proof -
  let ?ws = "[bytes ''help'']"
  let ?st = "zero_management_state\<lparr>mg_read_buffer := overwrite (mg_read_buffer zero_management_state) 0
     (bytes ''help'' @ [10]), mg_read_len := 5\<rparr>"
  obtain command where b: "build_command ([99] # ?ws) 1 (replicate CLIENT_BUFFER_SIZE 0) CLIENT_BUFFER_SIZE = Inr (True, command)"
    "cstr command = bytes ''help''"
    by (rule returnsE [OF build_start [of "[99] # ?ws" 1]]) (auto simp: line_text_def CLIENT_BUFFER_SIZE_def bytes_def)
  have s: "send_command command [Takes 9] = Inr (True, bytes ''help'' @ [10])"
    by (simp add: send_command_def b(2) CLIENT_BUFFER_SIZE_def c_snprintf_def overwrite_def bytes_def)
  have ws: "?ws \<noteq> []" "list_all word_ok ?ws" by (simp_all add: word_ok_def bytes_def)
  have st: "length (mg_read_buffer ?st) = MANAGEMENT_BUFFER_SIZE" "length (mg_write_buffer ?st) = MANAGEMENT_BUFFER_SIZE"
    "mg_read_len ?st = length (bytes ''help'' @ [10])" "take (length (bytes ''help'' @ [10])) (mg_read_buffer ?st) = bytes ''help'' @ [10]"
    by (simp_all add: zero_management_state_def MANAGEMENT_BUFFER_SIZE_def overwrite_def bytes_def)
  have c: "command_answer ?ws zero_metrics zero_users
      = Inr (bytes ''commands=STATS,METRICS,USERS,ADDUSER,DELUSER,HELP,QUIT'' @ [10], zero_users)"
    by (simp add: command_answer_def same_word_def bytes_def tolower_def)
  from client_words_answered [OF ws b(1) s st users_wf_zero(1), of zero_metrics] b(1) show ?thesis
    unfolding c by (intro exI [of _ command] exI [of _ ?st]) (auto elim!: returns_mono simp: bytes_def)
qed

end
