(* ===== verification/Netutils.thy ===== *)
theory Netutils
  imports Buffer Sockets "HOL-Library.Sublist"
begin

text \<open>
  \<^verbatim>\<open>src/src/utils/netutils.c\<close>: an address as text, and the two blocking copies. What
  \<open>inet_ntop\<close> prints for an address is a parameter; so are the answers of \<open>send\<close> and \<open>recv\<close>.
\<close>

section \<open>Addresses as text\<close>

text \<open>\<open>strncpy\<close> fills up with NULs and may leave out the last; \<open>strncat\<close> appends at most \<open>n\<close> bytes, and a NUL.\<close>

definition strncpy :: "byte list \<Rightarrow> byte list \<Rightarrow> nat \<Rightarrow> byte list result" where
  "strncpy buf s n = array_write buf 0 (take n (s @ replicate n 0))"

definition strncat :: "byte list \<Rightarrow> byte list \<Rightarrow> nat \<Rightarrow> byte list result" where
  "strncat buf s n = bindE (strlen buf) (\<lambda>len. array_write buf len (take n s @ [0]))"

text \<open>An address of the two families, with its port in host order, or of another family.\<close>

datatype sock_address = Inet "byte list" "16 word" | Inet6 "byte list" "16 word" | Other_Family

fun handled :: "sock_address \<Rightarrow> bool" where
  "handled Other_Family = False"
| "handled _ = True"

fun address_port :: "sock_address \<Rightarrow> 16 word" where
  "address_port (Inet a p) = p"
| "address_port (Inet6 a p) = p"
| "address_port Other_Family = 0"

text \<open>\<open>inet_ntop\<close>: the text if there is one and the array has room for it and a NUL, else NULL.\<close>

definition inet_ntop ::
  "(sock_address \<Rightarrow> byte list option) \<Rightarrow> sock_address \<Rightarrow> byte list \<Rightarrow> nat \<Rightarrow> byte list option result" where
  "inet_ntop ip_text addr buf sz =
     (case ip_text addr of
        None \<Rightarrow> Inr None
      | Some t \<Rightarrow>
          if length t < sz then bindE (array_write buf 0 (t @ [0])) (\<lambda>buf. Inr (Some buf)) else Inr None)"

text \<open>\<open>buff[buffsize - 1] = 0\<close>; for size 0 the index wraps around.\<close>

definition end_string :: "byte list \<Rightarrow> nat \<Rightarrow> byte list result" where
  "end_string buff buffsize = (if buffsize = 0 then Inl OutOfBounds else array_put buff (buffsize - 1) 0)"

definition write_address ::
  "(sock_address \<Rightarrow> byte list option) \<Rightarrow> byte list \<Rightarrow> nat \<Rightarrow> sock_address \<Rightarrow> byte list result" where
  "write_address ip_text buff buffsize addr =
     (if handled addr then
        bindE (inet_ntop ip_text addr buff buffsize) (\<lambda>r.
        case r of
          Some buff \<Rightarrow> Inr buff
        | None \<Rightarrow> bindE (strncpy buff (bytes ''unknown ip'') buffsize) (\<lambda>buff. end_string buff buffsize))
      else strncpy buff (bytes ''unknown'') buffsize)"

definition sockaddr_to_human ::
  "(sock_address \<Rightarrow> byte list option) \<Rightarrow> byte list \<Rightarrow> nat \<Rightarrow> sock_address option \<Rightarrow> byte list result" where
  "sockaddr_to_human ip_text buff buffsize addr =
     (case addr of
        None \<Rightarrow> strncpy buff (bytes ''null'') buffsize
      | Some addr \<Rightarrow>
          bindE (write_address ip_text buff buffsize addr) (\<lambda>buff.
          bindE (strncat buff [58] buffsize) (\<lambda>buff.
          bindE (end_string buff buffsize) (\<lambda>buff.
          bindE (strlen buff) (\<lambda>len.
          bindE (if handled addr then c_snprintf buff len (buffsize - len) (dec (unat (address_port addr)))
                 else Inr buff) (\<lambda>buff.
          end_string buff buffsize))))))"

section \<open>Blocking copies\<close>


definition COPY_SIZE :: nat where "COPY_SIZE = 4096"

text \<open>The inner loop: \<open>Some e\<close> if a \<open>send\<close> failed, else \<open>None\<close>, and the answers that are left.\<close>

fun copy_out ::
  "send_answer list \<Rightarrow> int \<Rightarrow> byte list \<Rightarrow> byte list \<Rightarrow> (int option \<times> send_answer list \<times> byte list) result" where
  "copy_out [] errno out wire = Inl LoopBound"
| "copy_out (answer # answers) errno out wire =
     (case answer of
        Takes k \<Rightarrow>
          let nwritten = min k (length out) in
          if nwritten > 0 then
            (if length out - nwritten > 0
             then copy_out answers errno (drop nwritten out) (wire @ take nwritten out)
             else Inr (None, answers, wire @ take nwritten out))
          else Inr (Some errno, answers, wire)
      | Send_Error e \<Rightarrow> Inr (Some e, answers, wire))"

fun copy_loop ::
  "recv_answer list \<Rightarrow> send_answer list \<Rightarrow> int \<Rightarrow> byte list \<Rightarrow> byte list \<Rightarrow> byte list \<Rightarrow> (int \<times> byte list) result" where
  "copy_loop [] sends errno buf incoming wire = Inl LoopBound"
| "copy_loop (answer # answers) sends errno buf incoming wire =
     (case answer of
        Delivers n \<Rightarrow>
          let bs = take (min (max 1 n) COPY_SIZE) incoming in
          if length bs > 0 then
            bindE (array_write buf 0 bs) (\<lambda>buf.
            bindE (array_read buf 0 (length bs)) (\<lambda>out.
            bindE (copy_out sends errno out wire) (\<lambda>(failed, sends, wire).
            case failed of
              Some e \<Rightarrow> Inr (e, wire)
            | None \<Rightarrow> copy_loop answers sends errno buf (drop (length bs) incoming) wire)))
          else Inr (0, wire)
      | Recv_Error e \<Rightarrow> Inr (0, wire))"

definition sock_blocking_copy ::
  "recv_answer list \<Rightarrow> send_answer list \<Rightarrow> int \<Rightarrow> byte list \<Rightarrow> (int \<times> byte list) result" where
  "sock_blocking_copy recvs sends errno incoming =
     copy_loop recvs sends errno (replicate COPY_SIZE 0) incoming []"

section \<open>The text of an address\<close>

definition address_text :: "(sock_address \<Rightarrow> byte list option) \<Rightarrow> nat \<Rightarrow> sock_address \<Rightarrow> byte list" where
  "address_text ip_text sz addr =
     (if \<not> handled addr then bytes ''unknown''
      else case ip_text addr of
             None \<Rightarrow> bytes ''unknown ip''
           | Some t \<Rightarrow> if length t < sz then t else bytes ''unknown ip'')"

definition port_text :: "sock_address \<Rightarrow> byte list" where
  "port_text addr = (if handled addr then dec (unat (address_port addr)) else [])"

text \<open>
  After the first step the array starts with the address, as far as it fits, and the string
  ends in the array unless the family is unknown and the text too long.
\<close>

lemma strncpy_string:
  assumes "length buff = sz" "0 \<notin> set s"
  shows "strncpy buff s sz = Inr (take sz (s @ replicate sz 0))"
  using assms by (simp add: strncpy_def overwrite_def)

lemma take_no_nul: "0 \<notin> set s \<Longrightarrow> 0 \<notin> set (take n s)"
  by (auto dest: in_set_takeD)

lemma cstr_padded: "0 \<notin> set s \<Longrightarrow> cstr (take sz (s @ replicate sz 0)) = take sz s"
  by (cases "sz - length s") (simp_all add: cstr_append_nul cstr_id take_no_nul)

lemma cstr_cut: "i < length xs \<Longrightarrow> cstr (xs[i := 0]) = take i (cstr xs) \<and> terminated (xs[i := 0])"
proof (induction xs arbitrary: i)
  case (Cons x xs)
  then show ?case by (cases i) (auto simp: terminated_def)
qed simp

lemma write_address_exact:
  assumes sz: "length buff = sz" "0 < sz" and nul: "\<And>t. ip_text addr = Some t \<Longrightarrow> 0 \<notin> set t"
  shows "returns (write_address ip_text buff sz addr) (\<lambda>b. length b = sz \<and>
    (if length (address_text ip_text sz addr) + 1 < sz
     then terminated b \<and> cstr b = address_text ip_text sz addr
     else \<not> terminated b \<or> length (cstr b) + 1 = sz))"
proof -
  have no: "0 \<notin> set (bytes ''unknown'')" "0 \<notin> set (bytes ''unknown ip'')" by (simp_all add: bytes_def)
  consider "\<not> handled addr" | t where "handled addr" "ip_text addr = Some t" "length t < sz"
    | "handled addr" "\<And>t. ip_text addr = Some t \<Longrightarrow> \<not> length t < sz" by blast
  then show ?thesis
  proof cases
    case 1
    let ?b = "take sz (bytes ''unknown'' @ replicate sz 0)"
    have "terminated ?b \<longleftrightarrow> 7 < sz" using no(1) by (auto simp: terminated_def dest: in_set_takeD)
    then show ?thesis
      using 1 cstr_padded [OF no(1), of sz] by (auto simp: write_address_def strncpy_string [OF sz(1) no(1)] address_text_def)
  next
    case 2
    have "0 \<notin> set t" using nul 2 by blast
    then show ?thesis
      using 2 sz by (auto simp: write_address_def inet_ntop_def address_text_def overwrite_def cstr_append_nul terminated_def)
  next
    case 3
    let ?b = "take sz (bytes ''unknown ip'' @ replicate sz 0)"
    have tx: "address_text ip_text sz addr = bytes ''unknown ip''"
      and i: "inet_ntop ip_text addr buff sz = Inr None"
      using 3 by (auto simp: address_text_def inet_ntop_def split: option.splits)
    have l: "length ?b = sz" by simp
    have "write_address ip_text buff sz addr = Inr (?b[sz - 1 := 0])"
      using 3(1) sz by (simp add: write_address_def i strncpy_string [OF sz(1) no(2)] end_string_def)
    with cstr_cut [of "sz - 1" ?b] cstr_padded [OF no(2), of sz] sz(2) show ?thesis by (auto simp: tx)
  qed
qed

lemma sockaddr_to_human_fits:
  assumes b: "write_address ip_text buff sz addr = Inr b" "length b = sz" "terminated b"
      "cstr b = address_text ip_text sz addr"
    and fits: "length (address_text ip_text sz addr) + 1 < sz"
  shows "returns (sockaddr_to_human ip_text buff sz (Some addr)) (\<lambda>b. length b = sz \<and>
    cstr b = take (sz - 1) (address_text ip_text sz addr @ [58] @ port_text addr))"
proof -
  let ?t = "address_text ip_text sz addr"
  have t: "terminated b" "cstr b = ?t" using b(3,4) by simp_all
  have nul: "0 \<notin> set (?t @ [58])" using cstr_no_nul [of b] by (simp add: t(2))
  let ?b2 = "overwrite b (length ?t) [58, 0]"
  have b2: "strncat b [58] sz = Inr ?b2" "length ?b2 = sz"
    using fits b(2) by (simp_all add: strncat_def strlen_def t take_Cons')
  have "take (length ?t) b = ?t" using take_length_cstr [of b] by (simp add: t(2))
  then have "?b2 = (?t @ [58]) @ 0 # drop (length ?t + 2) b" by (simp add: overwrite_def)
  then have c2: "cstr ?b2 = ?t @ [58]" using cstr_append_nul [OF nul] by simp
  let ?b3 = "?b2[sz - 1 := 0]"
  have b3: "end_string ?b2 sz = Inr ?b3" "length ?b3 = sz" "cstr ?b3 = ?t @ [58]" "terminated ?b3"
    using b2(2) cstr_cut [of "sz - 1" ?b2] fits by (simp_all add: end_string_def c2)
  have len: "strlen ?b3 = Inr (length (?t @ [58]))" using b3 by (simp add: strlen_def)
  obtain b4 where b4: "(if handled addr then c_snprintf ?b3 (length (?t @ [58])) (sz - length (?t @ [58])) (dec (unat (address_port addr)))
      else Inr ?b3) = Inr b4" "length b4 = sz" "cstr b4 = take (sz - 1) ((?t @ [58]) @ port_text addr)"
  proof (cases "handled addr")
    case False
    with that [of ?b3] b3 fits show ?thesis by (simp add: port_text_def)
  next
    case h: True
    show ?thesis
      by (rule returnsE [OF c_snprintf_append [OF b3(3) _ _ dec_no_nul [of "unat (address_port addr)"], of sz]])
        (use that h fits b3(2) in \<open>auto simp: port_text_def\<close>)
  qed
  have b5: "end_string b4 sz = Inr (b4[sz - 1 := 0])" "cstr (b4[sz - 1 := 0]) = cstr b4"
  proof -
    have "take (sz - 1) (cstr b4) = cstr b4" unfolding b4(3) by (simp only: take_take min.idem)
    then show "end_string b4 sz = Inr (b4[sz - 1 := 0])" "cstr (b4[sz - 1 := 0]) = cstr b4"
      using fits b4(2) cstr_cut [of "sz - 1" b4] by (simp_all add: end_string_def)
  qed
  show ?thesis
    using fits b4(2,3) b5(2)
    unfolding sockaddr_to_human_def option.case b(1) bindE_simps b2(1) b3(1) len b4(1) b5(1) by simp
qed

text \<open>
  C28. \<open>sockaddr_to_human\<close> prints the address, a colon and the port, cut to the array, if the address
  leaves room for two more bytes; otherwise it reads or writes behind the array. With
  \<open>INET6_ADDRSTRLEN\<close> bytes, the size made for the longest address, that can happen.
\<close>

theorem sockaddr_to_human_exact:
  assumes "length buff = sz" "0 < sz" "\<And>t. ip_text addr = Some t \<Longrightarrow> 0 \<notin> set t"
  shows "if length (address_text ip_text sz addr) + 1 < sz
     then returns (sockaddr_to_human ip_text buff sz (Some addr)) (\<lambda>b. length b = sz \<and>
       cstr b = take (sz - 1) (address_text ip_text sz addr @ [58] @ port_text addr))
     else sockaddr_to_human ip_text buff sz (Some addr) = Inl OutOfBounds"
proof -
  let ?t = "address_text ip_text sz addr"
  obtain b where b: "write_address ip_text buff sz addr = Inr b" "length b = sz"
    "if length ?t + 1 < sz then terminated b \<and> cstr b = ?t else \<not> terminated b \<or> length (cstr b) + 1 = sz"
    by (rule returnsE [OF write_address_exact [OF assms]]) auto
  show ?thesis
  proof (cases "length ?t + 1 < sz")
    case False
    with b show ?thesis
      by (auto simp: sockaddr_to_human_def strncat_def strlen_def array_write_def)
  next
    case True
    with b sockaddr_to_human_fits [OF b(1,2)] show ?thesis by simp
  qed
qed

text \<open>The loopback address, in arrays with and without room for the colon.\<close>

theorem sockaddr_to_human_exact_witness:
  "returns (sockaddr_to_human (\<lambda>_. Some (bytes ''::1'')) (replicate 9 0) 9 (Some (Inet6 [] 1080)))
     (\<lambda>b. cstr b = bytes ''::1:1080'')
   \<and> sockaddr_to_human (\<lambda>_. Some (bytes ''::1'')) (replicate 4 0) 4 (Some (Inet6 [] 1080)) = Inl OutOfBounds"
proof -
  have d: "dec 1080 = bytes ''1080''" by (simp add: dec.simps bytes_def)
  show ?thesis
    using sockaddr_to_human_exact [of "replicate 9 0" 9 "\<lambda>_. Some (bytes ''::1'')" "Inet6 [] 1080"]
      sockaddr_to_human_exact [of "replicate 4 0" 4 "\<lambda>_. Some (bytes ''::1'')" "Inet6 [] 1080"]
    by (simp add: address_text_def port_text_def d) (auto simp: bytes_def elim: returns_mono)
qed

section \<open>The copies keep the bytes\<close>

text \<open>A socket that takes at least one byte, or fails with an error that has a number.\<close>

definition taking_or_failing :: "send_answer list \<Rightarrow> bool" where
  "taking_or_failing answers \<longleftrightarrow> list_all (\<lambda>a. case a of Takes k \<Rightarrow> k > 0 | Send_Error e \<Rightarrow> e \<noteq> 0) answers"


text \<open>What a socket that never errs in between has taken of \<open>out\<close>.\<close>

lemma copy_out_prefix:
  assumes "out \<noteq> []" "taking_or_failing sends"
  shows "ended_or_waiting (copy_out sends errno out wire) (\<lambda>(failed, sends', wire').
    taking_or_failing sends' \<and> prefix wire' (wire @ out)
    \<and> (case failed of None \<Rightarrow> wire' = wire @ out | Some e \<Rightarrow> e \<noteq> 0))"
  using assms
proof (induction sends arbitrary: out wire)
  case Nil
  then show ?case by simp
next
  case (Cons a as)
  have as: "taking_or_failing as" using Cons.prems(2) by (simp add: taking_or_failing_def)
  show ?case
  proof (cases a)
    case (Send_Error e)
    with Cons.prems as show ?thesis by (auto simp: taking_or_failing_def )
  next
    case (Takes k)
    define m where "m = min k (length out)"
    have m: "0 < k" "0 < m" "m \<le> length out" using Cons.prems Takes by (auto simp: m_def taking_or_failing_def)
    show ?thesis
    proof (cases "drop m out = []")
      case True
      then have "take m out = out" "length out - m = 0" by simp_all
      with m(1,2) as show ?thesis by (simp add: Takes Let_def m_def [symmetric])
    next
      case False
      have "length out - m > 0" using False by simp
      moreover have "ended_or_waiting (copy_out as errno (drop m out) (wire @ take m out)) (\<lambda>(failed, sends', wire').
          taking_or_failing sends' \<and> prefix wire' (wire @ out)
          \<and> (case failed of None \<Rightarrow> wire' = wire @ out | Some e \<Rightarrow> e \<noteq> 0))"
        by (rule ended_mono [OF Cons.IH [OF False as, of "wire @ take m out"]]) (auto split: option.splits)
      ultimately show ?thesis using m(1,2) by (simp add: Takes Let_def m_def [symmetric])
    qed
  qed
qed

lemma copy_loop_prefix:
  assumes "length buf = COPY_SIZE" "taking_or_failing sends"
  shows "ended_or_waiting (copy_loop recvs sends errno buf incoming wire) (\<lambda>(ret, wire').
    prefix wire' (wire @ incoming) \<and> (ret = 0 \<and> list_all (\<lambda>a. \<exists>n. a = Delivers n) recvs \<longrightarrow> wire' = wire @ incoming))"
  using assms
proof (induction recvs arbitrary: sends buf incoming wire)
  case Nil
  then show ?case by simp
next
  case (Cons a as)
  show ?case
  proof (cases a)
    case (Recv_Error e)
    then show ?thesis by simp
  next
    case (Delivers n)
    define m where "m = min (max 1 n) COPY_SIZE"
    let ?bs = "take m incoming"
    have m: "0 < m" "m \<le> length buf" using Cons.prems by (auto simp: m_def COPY_SIZE_def)
    show ?thesis
    proof (cases "incoming = []")
      case True
      with Delivers show ?thesis by simp
    next
      case False
      let ?b = "overwrite buf 0 ?bs"
      have w: "array_write buf 0 ?bs = Inr ?b" "length ?b = COPY_SIZE" "array_read ?b 0 (length ?bs) = Inr ?bs"
        using m Cons.prems by (simp_all add: overwrite_def min_def)
      have bs: "?bs \<noteq> []" "drop (length ?bs) incoming = drop m incoming" using m False by (auto simp: min_def)
      have whole: "prefix w (wire @ ?bs) \<Longrightarrow> prefix w (wire @ incoming)" for w
        by (metis append_take_drop_id prefix_append prefix_order.trans prefixI append.assoc)
      have "ended_or_waiting (bindE (copy_out sends errno ?bs wire) (\<lambda>(failed, sends, wire).
            case failed of
              Some e \<Rightarrow> Inr (e, wire)
            | None \<Rightarrow> copy_loop as sends errno ?b (drop m incoming) wire))
          (\<lambda>(ret, wire'). prefix wire' (wire @ incoming)
             \<and> (ret = 0 \<and> list_all (\<lambda>a. \<exists>n. a = Delivers n) as \<longrightarrow> wire' = wire @ incoming))"
      proof (rule ended_bindE [OF copy_out_prefix [OF bs(1) Cons.prems(2)]], clarify, goal_cases)
        case (1 failed sends' wire1)
        then show ?case
        proof (cases failed)
          case None
          with 1 have "wire1 @ drop m incoming = wire @ incoming" by simp
          with Cons.IH [OF w(2) 1(1), of "drop m incoming" wire1] None show ?thesis by simp
        qed (use whole in auto)
      qed
      then show ?thesis
        using bs(1) Delivers unfolding Delivers copy_loop.simps recv_answer.case Let_def m_def [symmetric] bs(2) w bindE_simps
        by simp
    qed
  qed
qed



text \<open>
  C30. \<open>sock_blocking_copy\<close> forwards a prefix of what comes in, in order, whatever the sizes of the
  pieces; if it returns 0 and no \<open>recv\<close> has failed, it has forwarded everything.
\<close>

theorem blocking_copy_exact:
  assumes "taking_or_failing sends"
  shows "ended_or_waiting (sock_blocking_copy recvs sends errno incoming) (\<lambda>(ret, wire).
    prefix wire incoming \<and> (ret = 0 \<and> list_all (\<lambda>a. \<exists>n. a = Delivers n) recvs \<longrightarrow> wire = incoming))"
  unfolding sock_blocking_copy_def
  using copy_loop_prefix [OF _ assms, of "replicate COPY_SIZE 0" recvs errno incoming "[]"] by simp

theorem blocking_copy_exact_witness:
  "returns (sock_blocking_copy [Delivers 2, Delivers 9, Delivers 1] [Takes 1, Takes 1, Takes 7] 0 [1, 2, 3])
     (\<lambda>(ret, wire). ret = 0 \<and> wire = [1, 2, 3])"
proof -
  have "ended_or_waiting (sock_blocking_copy [Delivers 2, Delivers 9, Delivers 1] [Takes 1, Takes 1, Takes 7] 0 [1, 2, 3])
      (\<lambda>(ret, wire). ret = 0 \<longrightarrow> wire = [1, 2, 3])"
    by (rule ended_mono [OF blocking_copy_exact]) (auto simp: taking_or_failing_def)
  moreover have "returns (sock_blocking_copy [Delivers 2, Delivers 9, Delivers 1] [Takes 1, Takes 1, Takes 7] 0 [1, 2, 3])
      (\<lambda>(ret, wire). ret = 0)"
    by (simp add: sock_blocking_copy_def COPY_SIZE_def overwrite_def)
  ultimately show ?thesis by (auto simp: ended_or_waiting_def returns_iff)
qed

end
