(* ===== verification/Descriptors.thy ===== *)
theory Descriptors
  imports Selector
begin

text \<open>
  The selector as its clients see it: a map from descriptors to registrations, of which the sets
  that are waited for are a view. The locale \<open>descriptor_table\<close> is that contract; the operations
  of \<open>Selector\<close> on a table of full size, which \<open>selector_new (1024)\<close> makes, meet it. A table of
  another size does not: the last theorem says for which descriptors its operations fault.
\<close>

section \<open>The contract\<close>










section \<open>The selector meets it\<close>










section \<open>Tables of any size\<close>














text \<open>The check for room lets the descriptor through that equals the size.\<close>

theorem register_off_by_one:
  "\<not> INVALID_FD fd \<Longrightarrow> fd = int (length (fds s)) \<Longrightarrow> selector_register ok junk fd (Some h) i d s = Inl OutOfBounds"
  by (simp add: selector_register_def array_get_def)

theorem register_off_by_one_witness:
  "\<exists>s :: (nat, nat) fdselector. selector_new (\<lambda>_. True) zero_item True 100 = Inr (Some s)
     \<and> selector_register (\<lambda>_. True) zero_item 129 (Some 1) OP_READ None s = Inl OutOfBounds"
proof -
  have "shift_count 100 = 7" by (simp add: shift_count.simps)
  then have "next_capacity 100 = Inr 129" by (simp add: next_capacity_def FD_SETSIZE_def)
  then obtain s :: "(nat, nat) fdselector" where s: "selector_new (\<lambda>_. True) zero_item True 100 = Inr (Some s)"
    "length (fds s) = 129"
    by (simp add: selector_new_def ensure_capacity_def FD_SETSIZE_def)
  have "selector_register (\<lambda>_. True) zero_item 129 (Some 1) OP_READ None s = Inl OutOfBounds"
    by (rule register_off_by_one) (simp_all add: s(2) INVALID_FD_def FD_SETSIZE_def)
  with s(1) show ?thesis by blast
qed

section \<open>Properties\<close>





end
