(* ===== verification/Gate.thy ===== *)
theory Gate
  imports Demo
begin

text \<open>
  Who gets past authentication. Every change of a session happens in a callback of the server's
  tables of handlers. \<open>moves m0 m\<close> relates two heaps of sessions when no session of \<open>m\<close> is new,
  has another name than in \<open>m0\<close> or got past authentication since; all functions of the server
  respect it but \<open>client_read\<close> and \<open>accept_connection\<close>, and for these \<open>gate\<close> says what decides.
\<close>

section \<open>Moves between stages\<close>

type_synonym sessions = "nat \<Rightarrow> client_state option"

definition past_auth :: "client_stage \<Rightarrow> bool" where
  "past_auth s \<longleftrightarrow> s \<in> {CLIENT_STAGE_REQUEST, CLIENT_STAGE_RESOLVING, CLIENT_STAGE_CONNECTING, CLIENT_STAGE_RELAY}"

lemma past_auth_simps [simp]:
  "past_auth CLIENT_STAGE_REQUEST" "past_auth CLIENT_STAGE_RESOLVING" "past_auth CLIENT_STAGE_CONNECTING"
  "past_auth CLIENT_STAGE_RELAY" "\<not> past_auth CLIENT_STAGE_GREETING" "\<not> past_auth CLIENT_STAGE_AUTH"
  "\<not> past_auth CLIENT_STAGE_CLOSING"
  by (simp_all add: past_auth_def)

definition authed :: "sessions \<Rightarrow> ref option \<Rightarrow> bool" where
  "authed m d \<longleftrightarrow> (\<forall>c st. d = Some (ClientRef c) \<longrightarrow> m c = Some st \<longrightarrow> past_auth (stage st))"

definition moves :: "sessions \<Rightarrow> sessions \<Rightarrow> bool" where
  "moves m0 m \<longleftrightarrow> (\<forall>x st. m x = Some st \<longrightarrow>
     (\<exists>st0. m0 x = Some st0 \<and> username st = username st0 \<and> (past_auth (stage st) \<longrightarrow> past_auth (stage st0))))"

lemma moves_refl [simp]: "moves m m"
  by (simp add: moves_def)

lemma moves_put [intro!]:
  "moves m0 m \<Longrightarrow> \<exists>s. m c = Some s \<and> username st = username s \<and>
     (past_auth (stage st) \<longrightarrow> past_auth (stage s) \<or> authed m0 (Some (ClientRef c))) \<Longrightarrow> moves m0 (m(c \<mapsto> st))"
  by (fastforce simp: moves_def authed_def)

lemma moves_free [intro!]: "moves m0 m \<Longrightarrow> moves m0 (m(c := None))"
  by (simp add: moves_def)

lemma moves_trans [elim!]: "moves m1 m2 \<Longrightarrow> moves m0 m1 \<Longrightarrow> moves m0 m2"
  by (fastforce simp: moves_def)

lemma moves_authed: "moves m0 m \<Longrightarrow> m c = Some st \<Longrightarrow> past_auth (stage st) \<Longrightarrow> authed m0 (Some (ClientRef c))"
  by (fastforce simp: moves_def authed_def)

lemma get_client_Inr: "get_client d w = Inr st \<longleftrightarrow> (\<exists>c. d = Some (ClientRef c) \<and> clients w c = Some st)"
  by (cases "(d, w)" rule: get_client.cases) (auto simp: get_client.simps split: option.splits)

lemma clients_put: "clients (put_client (Some (ClientRef c)) st w) = (clients w)(c \<mapsto> st)"
  by (simp add: put_client.simps)

text \<open>How a result is reached, for each construct of the operations.\<close>

lemma Inr_inversion:
  "(case p of (a, b) \<Rightarrow> f a b) = Inr x \<longleftrightarrow> (\<exists>a b. p = (a, b) \<and> f a b = Inr x)"
  "(case z of None \<Rightarrow> r | Some v \<Rightarrow> g v) = Inr x \<longleftrightarrow> z = None \<and> r = Inr x \<or> (\<exists>v. z = Some v \<and> g v = Inr x)"
  "(if b then r else r') = Inr x \<longleftrightarrow> b \<and> r = Inr x \<or> \<not> b \<and> r' = Inr x"
  "(case e of SendDone \<Rightarrow> r1 | SendAgain \<Rightarrow> r2 | SendFailed \<Rightarrow> r3) = Inr x \<longleftrightarrow>
     e = SendDone \<and> r1 = Inr x \<or> e = SendAgain \<and> r2 = Inr x \<or> e = SendFailed \<and> r3 = Inr x"
  "drop_status q = Inr w' \<longleftrightarrow> (\<exists>s. q = Inr (s, w'))"
  by (auto simp: drop_status_def bindE_eq_Inr split: prod.splits option.splits send_end.splits)

lemmas Inr_steps = Inr_inversion bindE_eq_Inr get_client_Inr clients_put Let_def

section \<open>What leaves the sessions alone\<close>

named_theorems same_clients \<open>operations that leave the heap of sessions as it is\<close>

lemma system_clients [same_clients]:
  "sys_recv os fd n ch w = (r1, w') \<Longrightarrow> clients w' = clients w"
  "sys_send os fd bs ch w = (r2, w') \<Longrightarrow> clients w' = clients w"
  "sys_accept os fd w = (r3, w') \<Longrightarrow> clients w' = clients w"
  "sys_socket os af w = (r4, w') \<Longrightarrow> clients w' = clients w"
  "sys_connect os fd a n w = (r5, w') \<Longrightarrow> clients w' = clients w"
  "sys_so_error os fd w = (r6, w') \<Longrightarrow> clients w' = clients w"
  "set_nonblocking os fd w = (r7, w') \<Longrightarrow> clients w' = clients w"
  "ask f w = (r8, w') \<Longrightarrow> clients w' = clients w"
  by (auto simp: sys_recv_def sys_send_def sys_accept_def sys_socket_def sys_connect_def sys_so_error_def
      set_nonblocking_def ask_def split: prod.splits sum.splits option.splits)

lemma close_clients [simp]: "clients (sys_close os fd w) = clients w"
  by (simp add: sys_close_def)

lemma update_clients [same_clients]: "items_update_fdset_for_fd it w = Inr w' \<Longrightarrow> clients w' = clients w"
  by (auto simp: items_update_fdset_for_fd_def Let_def split: if_splits)

lemma interest_clients [same_clients]:
  "selector_set_interest fd i w = Inr (r, w') \<Longrightarrow> clients w' = clients w"
  "selector_set_interest_key key i w = Inr (r, w') \<Longrightarrow> clients w' = clients w"
  by (auto simp: selector_set_interest_def selector_set_interest_key_def Let_def bindE_eq_Inr
      dest!: update_clients split: if_splits)

lemma register_clients [same_clients]:
  "selector_register ok junk fd h i d w = Inr (r, w') \<Longrightarrow> clients w' = clients w"
  by (auto simp: selector_register_def ensure_capacity_def Let_def bindE_eq_Inr dest!: update_clients split: if_splits)

lemma send_loop_clients [same_clients]:
  "send_loop os count ch fd buffer off len w = Inr (e, off', w') \<Longrightarrow> clients w' = clients w"
proof (induction os count ch fd buffer off len w arbitrary: e off' w' rule: send_loop.induct)
  case (1 os count ch fd buffer off len w)
  show ?case
  proof (cases "off < len")
    case False
    with "1.prems" show ?thesis by (simp add: send_loop.simps)
  next
    case True
    with "1.prems" obtain region where region: "array_read buffer off (len - off) = Inr region"
      by (auto simp: send_loop.simps bindE_eq_Inr)
    obtain sent w1 where s: "sys_send os fd region ch w = (sent, w1)" by fastforce
    note w1 = system_clients(2) [OF s]
    show ?thesis
    proof (cases sent)
      case None
      with True "1.prems" region s w1 show ?thesis by (auto simp: send_loop.simps split: if_splits)
    next
      case (Some n)
      with True "1.prems" region s w1 "1.IH" [OF True s [symmetric] Some] show ?thesis
        by (auto simp: send_loop.simps [of os count ch fd buffer off len w] split: if_splits)
    qed
  qed
qed

lemma access_log_clients [simp]: "clients (access_log_connection os u h p ok w) = clients w"
  by (auto simp: access_log_connection_def Let_def dest!: same_clients split: prod.splits)

section \<open>Closing\<close>

text \<open>Unregistering changes the sessions only in the callback it makes.\<close>

named_theorems moving \<open>operations that no session gets past authentication in\<close>

lemma unregister_moves:
  assumes cb: "\<And>h f key w w'. close_cb h = Some f \<Longrightarrow> f key w = Inr w' \<Longrightarrow> moves (clients w) (clients w')"
    and u: "selector_unregister_fd close_cb fd w = Inr (r, w')"
  shows "moves (clients w) (clients w')"
  using u
  by (auto simp: selector_unregister_fd_def Let_def bindE_eq_Inr dest!: update_clients dest: cb
      split: if_splits option.splits)

lemma target_close_moves: "target_close os key w = Inr w' \<Longrightarrow> moves (clients w) (clients w')"
  by (auto simp: target_close_def Inr_steps)

lemma management_close_clients: "management_close os key w = Inr w' \<Longrightarrow> clients w' = clients w"
  by (cases "(key_data key, w)" rule: get_mgmt.cases) (auto simp: management_close_def Inr_steps)

lemma close_inner_moves: "handle_close_inner os h = Some f \<Longrightarrow> f key w = Inr w' \<Longrightarrow> moves (clients w) (clients w')"
  by (cases h) (auto dest: target_close_moves management_close_clients)

lemma unregister_inner_moves:
  "selector_unregister_fd (handle_close_inner os) fd w = Inr (r, w') \<Longrightarrow> moves (clients w) (clients w')"
  by (rule unregister_moves) (rule close_inner_moves)

lemma close_target_moves: "close_target os d w = Inr w' \<Longrightarrow> moves (clients w) (clients w')"
  by (auto simp: close_target_def Inr_steps dest!: unregister_inner_moves)

lemma detach_moves [moving]: "target_connection_detach_resolver d w = Inr w' \<Longrightarrow> moves (clients w) (clients w')"
  by (auto simp: target_connection_detach_resolver_def Inr_steps)

lemma free_addresses_moves [moving]: "target_connection_free_addresses d w = Inr w' \<Longrightarrow> moves (clients w) (clients w')"
  by (auto simp: target_connection_free_addresses_def Inr_steps)

lemma client_close_moves: "client_close os key w = Inr w' \<Longrightarrow> moves (clients w) (clients w')"
  by (auto simp: client_close_def free_session_def Inr_steps dest!: close_target_moves moving)

lemma handle_close_moves: "handle_close os h = Some f \<Longrightarrow> f key w = Inr w' \<Longrightarrow> moves (clients w) (clients w')"
  by (cases h) (auto dest: target_close_moves client_close_moves management_close_clients)

lemma unregister_close_moves [moving]:
  "selector_unregister_fd (handle_close os) fd w = Inr (r, w') \<Longrightarrow> moves (clients w) (clients w')"
  by (rule unregister_moves) (rule handle_close_moves)

lemma close_connection_moves [moving]: "client_session_close_connection os d w = Inr w' \<Longrightarrow> moves (clients w) (clients w')"
  by (auto simp: client_session_close_connection_def Inr_steps dest!: moving)

lemma relay_interests_clients [same_clients]:
  "client_session_update_relay_interests d w = Inr w' \<Longrightarrow> clients w' = clients w"
  by (auto simp: client_session_update_relay_interests_def Inr_steps dest!: same_clients)

section \<open>The relay and the replies\<close>

lemma client_write_reply_moves [moving]: "client_write_reply os key w = Inr w' \<Longrightarrow> moves (clients w) (clients w')"
  by (auto simp: client_write_reply_def Inr_steps dest!: moving same_clients)

lemma client_write_relay_moves [moving]: "client_write_relay os key w = Inr w' \<Longrightarrow> moves (clients w) (clients w')"
  by (auto simp: client_write_relay_def Inr_steps dest!: moving same_clients)

lemma client_write_moves [moving]: "client_write os key w = Inr w' \<Longrightarrow> moves (clients w) (clients w')"
  by (auto simp: client_write_def Inr_steps dest!: moving same_clients)

lemma reply_moves [moving]: "reply_to_client d b w = Inr w' \<Longrightarrow> moves (clients w) (clients w')"
  by (auto simp: reply_to_client_def Inr_steps)

lemma access_log_moves [moving]: "access_log_client_connection os d ok w = Inr w' \<Longrightarrow> moves (clients w) (clients w')"
  by (auto simp: access_log_client_connection_def Inr_steps)

lemma closing_moves [moving]: "set_stage d CLIENT_STAGE_CLOSING w = Inr w' \<Longrightarrow> moves (clients w) (clients w')"
  by (auto simp: set_stage_def Inr_steps)

lemma set_stage_moves: "set_stage d s w = Inr w' \<Longrightarrow> authed m d \<Longrightarrow> moves m (clients w) \<Longrightarrow> moves m (clients w')"
  by (auto simp: set_stage_def Inr_steps)

lemma fail_request_moves [moving]: "fail_request os key d b w = Inr w' \<Longrightarrow> moves (clients w) (clients w')"
  by (auto simp: fail_request_def Inr_steps dest!: moving same_clients)

lemma target_read_moves:
  "target_read os key w = Inr w' \<Longrightarrow> moves (clients w) (clients w')"
  by (auto simp: target_read_def Inr_steps dest!: moving same_clients)

section \<open>Reaching the target\<close>

lemma remember_same:
  "remember_request_destination os r st = Inr st' \<Longrightarrow> username st' = username st \<and> stage st' = stage st"
  by (auto simp: remember_request_destination_def Inr_steps)

lemma start_resolution_moves [moving]:
  "start_target_resolution os d h p w = Inr (r, w') \<Longrightarrow> moves (clients w) (clients w')"
  by (auto simp: start_target_resolution_def Inr_steps dest!: same_clients)

lemma register_connecting_moves:
  "register_connecting_socket os d fd w = Inr (r, w') \<Longrightarrow> authed m d \<Longrightarrow> moves m (clients w) \<Longrightarrow> moves m (clients w')"
  by (auto simp: register_connecting_socket_def Inr_steps dest!: same_clients)

lemma start_connection_moves:
  "start_target_connection os d a l w = Inr (r, w') \<Longrightarrow> authed m d \<Longrightarrow> moves m (clients w) \<Longrightarrow> moves m (clients w')"
  by (auto simp: start_target_connection_def Inr_steps dest!: same_clients register_connecting_moves)

lemma next_target_moves:
  "next_target_loop os d as w = Inr (r, w') \<Longrightarrow> authed m d \<Longrightarrow> moves m (clients w) \<Longrightarrow> moves m (clients w')"
proof (induction as arbitrary: w)
  case (Cons a as)
  then show ?case
    by (fastforce simp: Inr_steps dest!: start_connection_moves intro: Cons.IH)
qed simp

lemma start_next_moves:
  "start_next_target_connection os d w = Inr (r, w') \<Longrightarrow> authed m d \<Longrightarrow> moves m (clients w) \<Longrightarrow> moves m (clients w')"
  by (auto simp: start_next_target_connection_def Inr_steps dest: next_target_moves)

lemma target_connection_begin_moves:
  "target_connection_begin os key d q w = Inr w' \<Longrightarrow> authed m d \<Longrightarrow> moves m (clients w) \<Longrightarrow> moves m (clients w')"
  by (auto simp: target_connection_begin_def Inr_steps
      dest!: moving same_clients remember_same
        set_stage_moves [where m = m] start_connection_moves [where m = m])

lemma finish_connecting_moves:
  "finish_connecting os key ok w = Inr w' \<Longrightarrow> authed m (key_data key) \<Longrightarrow> moves m (clients w) \<Longrightarrow> moves m (clients w')"
  by (auto simp: finish_connecting_def Inr_steps dest!: moving same_clients set_stage_moves [where m = m])

lemma on_resolve_moves: "target_connection_on_resolve os key w = Inr w' \<Longrightarrow> moves (clients w) (clients w')"
  by (auto simp: target_connection_on_resolve_def Inr_steps authed_def
      dest!: moving same_clients start_next_moves [where m = "clients w"])

lemma succeeded_clients [same_clients]:
  "target_connection_succeeded os fd w = (ok, e, w') \<Longrightarrow> clients w' = clients w"
  by (auto simp: target_connection_succeeded_def split: prod.splits option.splits dest!: same_clients)

lemma target_write_connecting_moves:
  "target_write_connecting os key w = Inr w' \<Longrightarrow> authed m (key_data key) \<Longrightarrow>
     moves m (clients w) \<Longrightarrow> moves m (clients w')"
  by (auto simp: target_write_connecting_def Inr_steps
      dest!: moving same_clients start_next_moves [where m = m] finish_connecting_moves [where m = m])

lemma target_write_moves: "target_write os key w = Inr w' \<Longrightarrow> moves (clients w) (clients w')"
  by (auto simp: target_write_def Inr_steps authed_def
      dest!: moving same_clients target_write_connecting_moves [where m = "clients w"])

section \<open>Passing the gate\<close>

definition authenticated_as :: "managed_user list \<Rightarrow> client_state \<Rightarrow> bool" where
  "authenticated_as us st \<longleftrightarrow> (\<exists>n p rest. length n < 256 \<and> length p < 256 \<and>
     read_buffer st = encode_auth n p @ rest \<and> users_map us n = Some p \<and> cstr (username st) = cstr n)"

definition passes :: "managed_user list \<Rightarrow> client_state \<Rightarrow> client_state \<Rightarrow> bool" where
  "passes us st st' \<longleftrightarrow>
     past_auth (stage st) \<and> username st' = username st
   \<or> stage st = CLIENT_STAGE_GREETING \<and> username st' = username st \<and> \<not> users_are_configured us
   \<or> stage st = CLIENT_STAGE_AUTH \<and> authenticated_as us st'"

definition gate :: "managed_user list \<Rightarrow> sessions \<Rightarrow> sessions \<Rightarrow> bool" where
  "gate us m0 m \<longleftrightarrow> (\<forall>x st'. m x = Some st' \<longrightarrow> past_auth (stage st') \<longrightarrow>
     (\<exists>st. m0 x = Some st \<and> passes us st st'))"

lemma moves_gate: "moves m0 m \<Longrightarrow> gate us m0 m"
  by (fastforce simp: moves_def gate_def passes_def)

lemma gate_put:
  "m0 c = Some st \<Longrightarrow> past_auth (stage st') \<longrightarrow> passes us st st' \<Longrightarrow> gate us m0 (m0(c \<mapsto> st'))"
  by (auto simp: gate_def passes_def)

lemma auth_frame:
  "auth_parse_request st us = Inr (d, ok, st') \<Longrightarrow> read_buffer st' = read_buffer st \<and> stage st' = stage st"
  by (auto simp: auth_parse_request_def Inr_steps)

lemma authenticates:
  assumes len: "read_len st \<le> length (read_buffer st)" and us: "users_wf us"
    and name: "length (username st) = CLIENT_USERNAME_MAX + 1"
    and r: "auth_parse_request st us = Inr (d, True, st')"
  shows "authenticated_as us st'"
proof (cases rule: auth_request_cases [OF len])
  case 1
  with r auth_parse_other(1) [OF len, of us] show ?thesis by simp
next
  case 2
  with r auth_parse_other(2) [OF len, of us] show ?thesis by simp
next
  case (3 n p rest)
  from auth_parse_encoded [OF len us name 3(3,1,2)] r
  have u: "users_map us n = Some p" and t: "take (length n + 1) (username st') = n @ [0]"
    by (simp_all add: returns_iff)
  have "read_buffer st' = encode_auth n p @ rest @ drop (read_len st) (read_buffer st)"
    using 3(3) append_take_drop_id [of "read_len st" "read_buffer st"] auth_frame [OF r] by simp
  with 3(1,2) u cstr_stored [OF t] show ?thesis
    unfolding authenticated_as_def by blast
qed

section \<open>Reading from the client\<close>

lemma client_read_greeting_gate:
  assumes "client_read_greeting os key st w = Inr w'" "key_data key = Some (ClientRef c)"
    "m0 c = Some st0" "clients w = m0(c \<mapsto> st)" "stage st0 = CLIENT_STAGE_GREETING" "stage st = stage st0"
    "username st = username st0" "managed_users w = us"
  shows "gate us m0 (clients w')"
proof -
  have m: "moves m0 (clients w)" using assms by auto
  then have g: "gate us m0 (clients w)" by (rule moves_gate)
  then show ?thesis
    using assms moves_gate [OF moves_trans [OF _ m]]
    by (auto simp: client_read_greeting_def answer_greeting_def auth_is_required_def Inr_steps passes_def
        dest!: moving same_clients intro!: gate_put)
qed

lemma client_read_auth_gate:
  assumes "client_read_auth os key st w = Inr w'" "key_data key = Some (ClientRef c)"
    "m0 c = Some st0" "clients w = m0(c \<mapsto> st)" "stage st0 = CLIENT_STAGE_AUTH" "stage st = stage st0"
    "username st = username st0" "managed_users w = us" "users_wf us"
    "read_len st \<le> length (read_buffer st)" "length (username st) = CLIENT_USERNAME_MAX + 1"
  shows "gate us m0 (clients w')"
proof -
  have "moves m0 (clients w)" using assms by auto
  then have g: "gate us m0 (clients w)" by (rule moves_gate)
  obtain decided ok st1 where a: "auth_parse_request st us = Inr (decided, ok, st1)"
    using assms(1,8) by (auto simp: client_read_auth_def Inr_steps)
  show ?thesis
  proof (cases decided)
    case False
    with a g assms(1,8) show ?thesis by (simp add: client_read_auth_def)
  next
    case True
    with a assms obtain st' where w': "clients w' = m0(c \<mapsto> st')"
      and st': "stage st' = (if ok then CLIENT_STAGE_REQUEST else CLIENT_STAGE_CLOSING)"
        "read_buffer st' = read_buffer st1" "username st' = username st1"
      by (auto simp: client_read_auth_def Inr_steps dest!: same_clients)
    have "authenticated_as us st'" if ok
      using authenticates [OF assms(10,9,11)] a that st' by (simp add: authenticated_as_def)
    with assms(3,5) st'(1) show ?thesis
      unfolding w' by (intro gate_put) (auto simp: passes_def)
  qed
qed

lemma client_read_request_moves:
  assumes "client_read_request os key st w = Inr w'" "authed m (key_data key)" "moves m (clients w)"
    "key_data key = Some (ClientRef c)" "clients w c = Some st"
  shows "moves m (clients w')"
  using assms
  by (auto simp: client_read_request_def reject_request_def Inr_steps
      dest!: same_clients target_connection_begin_moves [where m = m])

lemma client_read_end_moves [moving]: "client_read_end os key r w = Inr w' \<Longrightarrow> moves (clients w) (clients w')"
  by (auto simp: client_read_end_def Inr_steps dest!: moving)

lemma client_read_relay_moves [moving]: "client_read_relay os key w = Inr w' \<Longrightarrow> moves (clients w) (clients w')"
  by (auto simp: client_read_relay_def Inr_steps dest!: moving same_clients target_write_moves)

lemma client_read_gate:
  assumes read: "client_read os key w = Inr w'" and us: "users_wf (managed_users w)"
    and names: "\<forall>x st. clients w x = Some st \<longrightarrow> length (username st) = CLIENT_USERNAME_MAX + 1"
  shows "gate (managed_users w) (clients w) (clients w')"
proof -
  from read obtain c st where key: "key_data key = Some (ClientRef c)" and st: "clients w c = Some st"
    by (auto simp: client_read_def Inr_steps)
  obtain received w1 where r: "sys_recv os (key_fd key) (length (read_buffer st) - read_len st) Other w = (received, w1)"
    by fastforce
  have w1: "clients w1 = clients w" "managed_users w1 = managed_users w"
    using r by (auto simp: sys_recv_def split: prod.splits sum.splits)
  note read' = read [unfolded client_read_def key get_client.simps option.case st bindE_simps r prod.case]
  show ?thesis
  proof (cases "stage st = CLIENT_STAGE_RELAY \<or> received = None \<or> received = Some []")
    case True
    with read' key st w1 have "moves (clients w) (clients w')"
      by (auto dest!: moving split: if_splits)
    then show ?thesis by (rule moves_gate)
  next
    case False
    then obtain bs where bs: "received = Some bs" "0 < length bs" by auto
    with False read' obtain buf where buf: "array_write (read_buffer st) (read_len st) bs = Inr buf"
      by (auto simp: bindE_eq_Inr)
    define st1 where "st1 = st\<lparr>read_buffer := buf, read_len := read_len st + length bs\<rparr>"
    define w2 where "w2 = put_client (key_data key) st1 w1"
    have len: "read_len st1 \<le> length (read_buffer st1)"
      using buf by (auto simp: st1_def array_write_def overwrite_def split: if_splits)
    have same: "username st1 = username st" "stage st1 = stage st" by (simp_all add: st1_def)
    have w2: "clients w2 = (clients w)(c \<mapsto> st1)" "managed_users w2 = managed_users w"
      using w1 by (simp_all add: w2_def key put_client.simps)
    have m: "moves (clients w) (clients w2)" unfolding w2 using st same by auto
    have "(if stage st = CLIENT_STAGE_GREETING then client_read_greeting os key st1 w2
           else if stage st = CLIENT_STAGE_AUTH then client_read_auth os key st1 w2
           else if stage st = CLIENT_STAGE_REQUEST then client_read_request os key st1 w2
           else client_read_end os key received w2) = Inr w'"
      using read' False bs buf by (simp add: st1_def w2_def key Let_def cong: if_cong)
    with m st key same w2 us len names [rule_format, OF st] show ?thesis
      by (auto split: if_splits simp: authed_def dest!: moving
          intro: client_read_greeting_gate client_read_auth_gate moves_gate
          dest: client_read_request_moves [where m = "clients w"])
  qed
qed

section \<open>Accepting\<close>

definition opens :: "sessions \<Rightarrow> sessions \<Rightarrow> bool" where
  "opens m0 m \<longleftrightarrow> (\<forall>x st. m x = Some st \<longrightarrow> past_auth (stage st) \<longrightarrow> m0 x = Some st)"

lemma opens_gate: "opens m0 m \<Longrightarrow> gate us m0 m"
  by (fastforce simp: opens_def gate_def passes_def)

lemma new_session_stage: "new_session fd = Inr st \<Longrightarrow> stage st = CLIENT_STAGE_GREETING"
  by (auto simp: new_session_def Inr_steps)

lemma accept_loop_opens: "accept_loop os fuel key w = Inr w' \<Longrightarrow> opens m (clients w) \<Longrightarrow> opens m (clients w')"
proof (induction fuel arbitrary: w)
  case (Suc fuel)
  have IH: "accept_loop os fuel key v = Inr w' \<Longrightarrow> opens m (clients v) \<Longrightarrow> opens m (clients w')" for v
    by (rule Suc.IH)
  have put: "opens m (m1(c \<mapsto> st))" "opens m (m1(c := None))" if "opens m m1" "stage st = CLIENT_STAGE_GREETING" for m1 c st
    using that by (auto simp: opens_def)
  from Suc.prems show ?case
    by (fastforce simp: Inr_steps alloc_client_def put split: if_splits dest!: same_clients new_session_stage intro: IH)
qed simp

lemma accept_management_clients: "accept_management_loop os fuel key w = Inr w' \<Longrightarrow> clients w' = clients w"
proof (induction fuel arbitrary: w)
  case (Suc fuel)
  from Suc.prems show ?case
    by (auto simp: Inr_steps alloc_mgmt_def split: if_splits dest!: same_clients Suc.IH)
qed simp

lemma clients_put_mgmt [simp]: "clients (put_mgmt d st w) = clients w"
  by (cases "(d, w)" rule: get_mgmt.cases) (simp_all add: put_mgmt.simps)

lemma management_moves:
  "management_read os key w = Inr w' \<Longrightarrow> moves (clients w) (clients w')"
  "management_write os key w = Inr w' \<Longrightarrow> moves (clients w) (clients w')"
  by (auto simp: management_read_def management_write_def Inr_steps dest!: moving same_clients)

section \<open>Every callback\<close>

lemma callback_gate:
  assumes us: "users_wf (managed_users w)"
    and names: "\<forall>x st. clients w x = Some st \<longrightarrow> length (username st) = CLIENT_USERNAME_MAX + 1"
    and cb: "Some cb \<in> {handle_read os h, handle_write os h, handle_block os h, handle_close os h}"
    and run: "cb key w = Inr w'"
  shows "gate (managed_users w) (clients w) (clients w')"
proof (cases "cb = client_read os \<or> cb = accept_connection os")
  case True
  have "opens (clients w) (clients w')" if "cb = accept_connection os"
    using run that accept_loop_opens [of os _ key w w' "clients w"]
    by (auto simp: accept_connection_def opens_def simp del: accept_loop.simps)
  with True run client_read_gate [OF _ us names] show ?thesis by (auto intro: opens_gate)
next
  case False
  with cb run have "moves (clients w) (clients w')"
    by (cases h)
      (auto simp: accept_management_connection_def simp del: accept_management_loop.simps
        dest!: accept_management_clients dest: target_read_moves target_write_moves management_moves client_write_moves
          on_resolve_moves target_close_moves client_close_moves management_close_clients)
  then show ?thesis by (rule moves_gate)
qed

section \<open>Properties\<close>

text \<open>
  C8. No session gets past authentication without it. Whatever the operating system answers and
  whichever callback of the handlers' tables runs to its end, a session that is then in its
  request, its resolution, its connection attempt or its relay was there before: past
  authentication already and under the same name, or at the greeting while no user is
  configured, or waiting for its credentials, and then the bytes it received are the encoding of
  a name and a password that the table of users maps the name to, and the name is now its own.
\<close>

theorem auth_gate:
  assumes "users_wf (managed_users w)"
    and "\<forall>x st. clients w x = Some st \<longrightarrow> length (username st) = CLIENT_USERNAME_MAX + 1"
    and "Some cb \<in> {handle_read os h, handle_write os h, handle_block os h, handle_close os h}"
    and "cb key w = Inr w'" "clients w' x = Some st'"
    and "stage st' \<in> {CLIENT_STAGE_REQUEST, CLIENT_STAGE_RESOLVING, CLIENT_STAGE_CONNECTING, CLIENT_STAGE_RELAY}"
  shows "\<exists>st. clients w x = Some st \<and>
    (stage st \<in> {CLIENT_STAGE_REQUEST, CLIENT_STAGE_RESOLVING, CLIENT_STAGE_CONNECTING, CLIENT_STAGE_RELAY}
       \<and> username st' = username st
     \<or> stage st = CLIENT_STAGE_GREETING \<and> username st' = username st \<and> \<not> auth_is_required (managed_users w)
     \<or> stage st = CLIENT_STAGE_AUTH \<and> (\<exists>n p rest. length n < 256 \<and> length p < 256
         \<and> read_buffer st' = encode_auth n p @ rest \<and> users_map (managed_users w) n = Some p
         \<and> cstr (username st') = cstr n))"
proof -
  have "\<exists>st. clients w x = Some st \<and> passes (managed_users w) st st'"
    using callback_gate [OF assms(1-4)] assms(5,6) unfolding gate_def past_auth_def by meson
  then show ?thesis unfolding passes_def past_auth_def authenticated_as_def auth_is_required_def .
qed

text \<open>A session that receives the last byte of the credentials of \<open>one_user\<close>.\<close>

definition waiting_session :: client_state where
  "waiting_session = zero_client_state\<lparr>stage := CLIENT_STAGE_AUTH, read_len := 4,
     read_buffer := overwrite (read_buffer zero_client_state) 0 [1, 1, 97, 1]\<rparr>"

definition waiting_world :: "script world" where
  "waiting_world = (initial_world one_user (0, [[98]], []))\<lparr>clients := [0 \<mapsto> waiting_session]\<rparr>"

theorem auth_gate_witness:
  "returns (client_read demo_os \<lparr>key_fd = 5, key_data = Some (ClientRef 0)\<rparr> waiting_world) (\<lambda>w'.
     \<exists>st'. clients w' 0 = Some st' \<and> stage st' = CLIENT_STAGE_REQUEST
       \<and> (\<exists>n p rest. read_buffer st' = encode_auth n p @ rest \<and> users_map one_user n = Some p))"
proof -
  have z: "users_wf one_user" "users_map one_user [97] = Some [98]" by (rule one_user_wf)+
  have c: "users_credentials_are_valid [97] [98] one_user"
    using credentials_users_map [OF z(1)] z(2) by simp
  have n: "\<forall>x st. clients waiting_world x = Some st \<longrightarrow> length (username st) = CLIENT_USERNAME_MAX + 1"
    by (auto simp: waiting_world_def waiting_session_def zero_client_state_def split: if_splits)
  have us: "managed_users waiting_world = one_user" by (simp add: waiting_world_def initial_world_def)
  have e: "returns (client_read demo_os \<lparr>key_fd = 5, key_data = Some (ClientRef 0)\<rparr> waiting_world) (\<lambda>w'.
     \<exists>st'. clients w' 0 = Some st' \<and> stage st' = CLIENT_STAGE_REQUEST)"
    using c by (simp add: waiting_world_def waiting_session_def client_read_auth_def auth_parse_request_def
        socks5_prepare_auth_response_def selector_set_interest_key_def
        eval_selector eval_server eval_sizes eval_client cong: bindE_weak_cong returns_weak_cong)
  then obtain w' st' where r: "client_read demo_os \<lparr>key_fd = 5, key_data = Some (ClientRef 0)\<rparr> waiting_world = Inr w'"
    and st': "clients w' 0 = Some st'" "stage st' = CLIENT_STAGE_REQUEST"
    by (auto simp: returns_iff)
  have "stage waiting_session = CLIENT_STAGE_AUTH" "clients waiting_world 0 = Some waiting_session"
    by (simp_all add: waiting_session_def waiting_world_def)
  with auth_gate [of waiting_world "client_read demo_os" demo_os client_handler, OF _ n _ r st'(1)] z(1) st'
  show ?thesis by (auto simp: us r)
qed

end
