(* ===== verification/Selector_Setup.thy ===== *)
theory Selector_Setup
  imports World
begin

text \<open>
  What \<^verbatim>\<open>src/src/utils/selector.c\<close> does outside the table: \<open>selector_init\<close>, which blocks the signal
  that wakes the selector everywhere but inside \<open>pselect\<close>, \<open>selector_close\<close>, and
  \<open>selector_fd_set_nio\<close>. The calls of the system are parameters; a record of what the system keeps
  of a process and of a descriptor instantiates them.
\<close>

section \<open>Operations\<close>

record selector_conf =
  conf_signal :: int
  conf_timeout :: "int \<times> int" \<comment> \<open>\<open>tv_sec\<close> and \<open>tv_nsec\<close>\<close>

record selector_statics =
  conf :: selector_conf
  emptyset :: "int set"
  blockset :: "int set"

text \<open>\<open>sigaddset\<close> refuses what is not a signal; its result is not looked at.\<close>

definition sigaddset :: "int set \<Rightarrow> int \<Rightarrow> int set" where
  "sigaddset s sig = (if 1 \<le> sig \<and> sig \<le> 64 then insert sig s else s)"

definition selector_init ::
  "(int set \<Rightarrow> 'k \<Rightarrow> bool \<times> 'k) \<Rightarrow> (int \<Rightarrow> 'k \<Rightarrow> bool \<times> 'k) \<Rightarrow> selector_conf \<Rightarrow> selector_statics \<Rightarrow> 'k
     \<Rightarrow> selector_status \<times> selector_statics \<times> 'k" where
  "selector_init sigprocmask sigaction c s k =
     (let s = s\<lparr>conf := c, blockset := {}\<rparr>;
          s = s\<lparr>blockset := sigaddset (blockset s) (conf_signal (conf s))\<rparr>
      in
        case sigprocmask (blockset s) k of (masked, k) \<Rightarrow>
          if \<not> masked then (SELECTOR_IO, s, k)
          else
            case sigaction (conf_signal (conf s)) k of (installed, k) \<Rightarrow>
              if \<not> installed then (SELECTOR_IO, s, k)
              else (SELECTOR_SUCCESS, s\<lparr>emptyset := {}\<rparr>, k))"

definition selector_close :: selector_status where
  "selector_close = SELECTOR_SUCCESS"

text \<open>The flags are read with \<open>F_GETFD\<close> and written with \<open>F_SETFL\<close>; the result is -1 or 0.\<close>

definition selector_fd_set_nio ::
  "(int \<Rightarrow> 'k \<Rightarrow> 32 word option \<times> 'k) \<Rightarrow> (int \<Rightarrow> 32 word \<Rightarrow> 'k \<Rightarrow> bool \<times> 'k) \<Rightarrow> int \<Rightarrow> 'k \<Rightarrow> int \<times> 'k" where
  "selector_fd_set_nio getfd setfl fd k =
     (case getfd fd k of
        (None, k) \<Rightarrow> (-1, k)
      | (Some flags, k) \<Rightarrow>
          case setfl fd (flags OR O_NONBLOCK) k of (done, k) \<Rightarrow> (if done then 0 else -1, k))"

section \<open>The system's side\<close>

record descriptor =
  fd_flags :: "32 word" \<comment> \<open>of \<open>F_GETFD\<close>\<close>
  status_flags :: "32 word" \<comment> \<open>of \<open>F_GETFL\<close> and \<open>F_SETFL\<close>\<close>

record process =
  blocked :: "int set"
  caught :: "int set"
  descriptors :: "int \<Rightarrow> descriptor option"

definition block_signals :: "int set \<Rightarrow> process \<Rightarrow> bool \<times> process" where
  "block_signals s p = (True, p\<lparr>blocked := blocked p \<union> s\<rparr>)"

definition catch_signal :: "int \<Rightarrow> process \<Rightarrow> bool \<times> process" where
  "catch_signal sig p =
     (if 1 \<le> sig \<and> sig \<le> 64 \<and> sig \<noteq> 9 \<and> sig \<noteq> 19 then (True, p\<lparr>caught := insert sig (caught p)\<rparr>) else (False, p))"

definition get_fd_flags :: "int \<Rightarrow> process \<Rightarrow> 32 word option \<times> process" where
  "get_fd_flags fd p = (map_option fd_flags (descriptors p fd), p)"

definition set_status_flags :: "int \<Rightarrow> 32 word \<Rightarrow> process \<Rightarrow> bool \<times> process" where
  "set_status_flags fd flags p =
     (case descriptors p fd of
        None \<Rightarrow> (False, p)
      | Some d \<Rightarrow> (True, p\<lparr>descriptors := (descriptors p)(fd \<mapsto> d\<lparr>status_flags := flags\<rparr>)\<rparr>))"

section \<open>What they do\<close>

text \<open>
  Once initialised, the signal is blocked and caught, and the mask that \<open>pselect\<close> installs lets
  it through: a notification between the loop's test and its wait is not lost. A signal that
  cannot be caught is refused, but stays blocked.
\<close>

lemma selector_init_signal:
  "selector_init block_signals catch_signal c s p = (r, s', p') \<Longrightarrow>
     (r = SELECTOR_SUCCESS \<longleftrightarrow> 1 \<le> conf_signal c \<and> conf_signal c \<le> 64 \<and> conf_signal c \<noteq> 9 \<and> conf_signal c \<noteq> 19)
   \<and> (r = SELECTOR_SUCCESS \<longrightarrow> conf_signal c \<in> blocked p' \<and> conf_signal c \<in> caught p' \<and> conf_signal c \<notin> emptyset s')
   \<and> (r = SELECTOR_SUCCESS \<or> r = SELECTOR_IO) \<and> conf s' = c \<and> blocked p \<subseteq> blocked p'"
  by (auto simp: selector_init_def Let_def block_signals_def catch_signal_def sigaddset_def split: if_splits)

lemma selector_init_failure:
  "\<not> fst (procmask (sigaddset {} (conf_signal c)) k) \<Longrightarrow> fst (selector_init procmask act c s k) = SELECTOR_IO"
  by (cases "procmask (sigaddset {} (conf_signal c)) k") (simp add: selector_init_def Let_def)

text \<open>
  The descriptor does not block afterwards, but its status flags are now its descriptor flags:
  what they were before, \<open>O_APPEND\<close> say, is gone.
\<close>

lemma set_nio_exact:
  "selector_fd_set_nio get_fd_flags set_status_flags fd p =
     (case descriptors p fd of
        None \<Rightarrow> (-1, p)
      | Some d \<Rightarrow> (0, p\<lparr>descriptors := (descriptors p)(fd \<mapsto> d\<lparr>status_flags := fd_flags d OR O_NONBLOCK\<rparr>)\<rparr>))"
  by (simp add: selector_fd_set_nio_def get_fd_flags_def set_status_flags_def split: option.splits)

lemma set_nio_nonblocking:
  assumes "selector_fd_set_nio get_fd_flags set_status_flags fd p = (0, p')"
  shows "\<exists>d. descriptors p' fd = Some d \<and> status_flags d AND O_NONBLOCK = O_NONBLOCK"
proof -
  have "(x OR O_NONBLOCK) AND O_NONBLOCK = O_NONBLOCK" for x
    by (rule bit_eqI) (auto simp: bit_simps)
  with assms show ?thesis by (auto simp: set_nio_exact split: option.splits)
qed

lemma set_nio_forgets_append:
  assumes "descriptors p fd = Some \<lparr>fd_flags = 1, status_flags = 0x401\<rparr>"
  shows "\<exists>p'. selector_fd_set_nio get_fd_flags set_status_flags fd p = (0, p')
    \<and> descriptors p' fd = Some \<lparr>fd_flags = 1, status_flags = 0x801\<rparr>"
  using assms by (simp add: set_nio_exact O_NONBLOCK_def)

end
