(* ===== verification/Admission.thy ===== *)
theory Admission
  imports Gate Reached
begin

text \<open>
  Who gets past authentication in a run. While nobody is connected to the management service no
  callback changes the table of users; with \<open>Gate\<close>, a run in which nobody connects to it lets
  only the users of the command line through.
\<close>

section \<open>What leaves the users alone\<close>

definition calm :: "'k world \<Rightarrow> 'k world \<Rightarrow> bool" where
  "calm w w' \<longleftrightarrow> managed_users w' = managed_users w \<and> slave_r w' = slave_r w
     \<and> (mgmts w = Map.empty \<longrightarrow> mgmts w' = Map.empty)"

lemma calm_put [simp]:
  "managed_users (put_client d st w) = managed_users w" "slave_r (put_client d st w) = slave_r w"
  "mgmts (put_client d st w) = mgmts w"
  "managed_users (free_client d w) = managed_users w" "slave_r (free_client d w) = slave_r w"
  "mgmts (free_client d w) = mgmts w"
  by (cases "(d, w)" rule: get_client.cases; simp add: put_client.simps)+

lemma calm_close [simp]:
  "managed_users (sys_close os fd w) = managed_users w" "slave_r (sys_close os fd w) = slave_r w"
  "mgmts (sys_close os fd w) = mgmts w"
  by (simp_all add: sys_close_def)

named_theorems calming \<open>operations that leave the users alone\<close>

lemma system_calm [calming]:
  "sys_recv os fd n ch w = (r1, w') \<Longrightarrow> calm w w'"
  "sys_send os fd bs ch w = (r2, w') \<Longrightarrow> calm w w'"
  "sys_accept os fd w = (r3, w') \<Longrightarrow> calm w w'"
  "sys_socket os af w = (r4, w') \<Longrightarrow> calm w w'"
  "sys_connect os fd a n w = (r5, w') \<Longrightarrow> calm w w'"
  "sys_so_error os fd w = (r6, w') \<Longrightarrow> calm w w'"
  "set_nonblocking os fd w = (r7, w') \<Longrightarrow> calm w w'"
  "ask f w = (r8, w') \<Longrightarrow> calm w w'"
  by (auto simp: calm_def sys_recv_def sys_send_def sys_accept_def sys_socket_def sys_connect_def sys_so_error_def
      set_nonblocking_def ask_def split: prod.splits sum.splits option.splits)

lemma update_calm [calming]: "items_update_fdset_for_fd it w = Inr w' \<Longrightarrow> calm w w'"
  by (auto simp: items_update_fdset_for_fd_def calm_def Let_def split: if_splits)

lemmas calm_steps = calm_def Inr_inversion bindE_eq_Inr Let_def

lemma interest_calm [calming]:
  "selector_set_interest fd i w = Inr (r, w') \<Longrightarrow> calm w w'"
  "selector_set_interest_key key i w = Inr (r, w') \<Longrightarrow> calm w w'"
  by (auto simp: selector_set_interest_def selector_set_interest_key_def calm_steps dest!: update_calm)

lemma register_calm [calming]: "selector_register ok junk fd h i d w = Inr (r, w') \<Longrightarrow> calm w w'"
  by (auto simp: selector_register_def ensure_capacity_def calm_steps dest!: update_calm)

lemma send_loop_calm [calming]: "send_loop os count ch fd buffer off len w = Inr (e, off', w') \<Longrightarrow> calm w w'"
proof (induction os count ch fd buffer off len w arbitrary: e off' w' rule: send_loop.induct)
  case (1 os count ch fd buffer off len w)
  show ?case
  proof (cases "off < len")
    case False
    with "1.prems" show ?thesis by (simp add: send_loop.simps calm_def)
  next
    case True
    with "1.prems" obtain region where region: "array_read buffer off (len - off) = Inr region"
      by (auto simp: send_loop.simps bindE_eq_Inr)
    obtain sent w1 where s: "sys_send os fd region ch w = (sent, w1)" by fastforce
    note w1 = system_calm(2) [OF s]
    show ?thesis
    proof (cases sent)
      case None
      with True "1.prems" region s w1 show ?thesis by (auto simp: send_loop.simps split: if_splits)
    next
      case (Some n)
      with True "1.prems" region s w1 "1.IH" [OF True s [symmetric] Some] show ?thesis
        by (auto simp: send_loop.simps [of os count ch fd buffer off len w] calm_def split: if_splits)
    qed
  qed
qed

lemma access_log_calm [simp]:
  "managed_users (access_log_connection os u h p ok w) = managed_users w"
  "slave_r (access_log_connection os u h p ok w) = slave_r w"
  "mgmts (access_log_connection os u h p ok w) = mgmts w"
  by (auto simp: access_log_connection_def ask_def Let_def split: prod.splits)

section \<open>Closing\<close>

lemma unregister_calm:
  assumes cb: "\<And>h f key w w'. close_cb h = Some f \<Longrightarrow> f key w = Inr w' \<Longrightarrow> calm w w'"
    and u: "selector_unregister_fd close_cb fd w = Inr (r, w')"
  shows "calm w w'"
  using u by (auto simp: selector_unregister_fd_def calm_steps items_max_fd_def split: option.splits
      dest!: update_calm dest: cb)

lemma target_close_calm: "target_close os key w = Inr w' \<Longrightarrow> calm w w'"
  by (auto simp: target_close_def calm_steps split: if_splits)

lemma management_close_calm: "management_close os key w = Inr w' \<Longrightarrow> calm w w'"
  by (cases "(key_data key, w)" rule: get_mgmt.cases) (auto simp: management_close_def calm_steps)

lemma close_inner_calm: "handle_close_inner os h = Some f \<Longrightarrow> f key w = Inr w' \<Longrightarrow> calm w w'"
  by (cases h) (auto dest: target_close_calm management_close_calm)

lemma unregister_inner_calm: "selector_unregister_fd (handle_close_inner os) fd w = Inr (r, w') \<Longrightarrow> calm w w'"
  by (rule unregister_calm) (rule close_inner_calm)

lemma close_target_calm: "close_target os d w = Inr w' \<Longrightarrow> calm w w'"
  by (auto simp: close_target_def calm_steps split: if_splits dest!: unregister_inner_calm)

lemma detach_calm [calming]: "target_connection_detach_resolver d w = Inr w' \<Longrightarrow> calm w w'"
  by (auto simp: target_connection_detach_resolver_def calm_steps)

lemma free_addresses_calm [calming]: "target_connection_free_addresses d w = Inr w' \<Longrightarrow> calm w w'"
  by (auto simp: target_connection_free_addresses_def calm_steps)

lemma client_close_calm: "client_close os key w = Inr w' \<Longrightarrow> calm w w'"
  by (auto simp: client_close_def free_session_def calm_steps dest!: close_target_calm calming)

lemma handle_close_calm: "handle_close os h = Some f \<Longrightarrow> f key w = Inr w' \<Longrightarrow> calm w w'"
  by (cases h) (auto dest: target_close_calm client_close_calm management_close_calm)

lemma unregister_close_calm [calming]: "selector_unregister_fd (handle_close os) fd w = Inr (r, w') \<Longrightarrow> calm w w'"
  by (rule unregister_calm) (rule handle_close_calm)

lemma close_connection_calm [calming]: "client_session_close_connection os d w = Inr w' \<Longrightarrow> calm w w'"
  by (auto simp: client_session_close_connection_def calm_steps split: if_splits dest!: calming)

lemma relay_interests_calm [calming]: "client_session_update_relay_interests d w = Inr w' \<Longrightarrow> calm w w'"
  by (auto simp: client_session_update_relay_interests_def calm_steps dest!: calming)

section \<open>The relay and the replies\<close>

lemma client_write_reply_calm [calming]: "client_write_reply os key w = Inr w' \<Longrightarrow> calm w w'"
  by (auto simp: client_write_reply_def calm_steps dest!: calming)

lemma client_write_relay_calm [calming]: "client_write_relay os key w = Inr w' \<Longrightarrow> calm w w'"
  by (auto simp: client_write_relay_def calm_steps dest!: calming)

lemma client_write_calm [calming]: "client_write os key w = Inr w' \<Longrightarrow> calm w w'"
  by (auto simp: client_write_def calm_steps dest!: calming)

lemma reply_calm [calming]: "reply_to_client d b w = Inr w' \<Longrightarrow> calm w w'"
  by (auto simp: reply_to_client_def calm_steps)

lemma log_connection_calm [calming]: "access_log_client_connection os d ok w = Inr w' \<Longrightarrow> calm w w'"
  by (auto simp: access_log_client_connection_def calm_steps)

lemma set_stage_calm [calming]: "set_stage d s w = Inr w' \<Longrightarrow> calm w w'"
  by (auto simp: set_stage_def calm_steps)

lemma fail_request_calm [calming]: "fail_request os key d b w = Inr w' \<Longrightarrow> calm w w'"
  by (auto simp: fail_request_def calm_steps dest!: calming)

lemma target_read_calm [calming]: "target_read os key w = Inr w' \<Longrightarrow> calm w w'"
  by (auto simp: target_read_def calm_steps dest!: calming)

section \<open>Reaching the target\<close>

lemma start_resolution_calm [calming]: "start_target_resolution os d h p w = Inr (r, w') \<Longrightarrow> calm w w'"
  by (auto simp: start_target_resolution_def calm_steps dest!: calming)

lemma register_connecting_calm [calming]: "register_connecting_socket os d fd w = Inr (r, w') \<Longrightarrow> calm w w'"
  by (auto simp: register_connecting_socket_def calm_steps split: if_splits dest!: calming)

lemma start_connection_calm [calming]: "start_target_connection os d a l w = Inr (r, w') \<Longrightarrow> calm w w'"
  by (auto simp: start_target_connection_def calm_steps dest!: calming)

lemma next_target_calm [calming]: "next_target_loop os d as w = Inr (r, w') \<Longrightarrow> calm w w'"
proof (induction as arbitrary: w)
  case Nil
  then show ?case by (simp add: calm_def)
next
  case (Cons a as)
  then show ?case by (auto simp: calm_steps dest!: start_connection_calm Cons.IH)
qed

lemma start_next_calm [calming]: "start_next_target_connection os d w = Inr (r, w') \<Longrightarrow> calm w w'"
  by (auto simp: start_next_target_connection_def calm_steps dest!: calming)

lemma target_connection_begin_calm [calming]: "target_connection_begin os key d q w = Inr w' \<Longrightarrow> calm w w'"
  by (auto simp: target_connection_begin_def calm_steps dest!: calming)

lemma finish_connecting_calm [calming]: "finish_connecting os key ok w = Inr w' \<Longrightarrow> calm w w'"
  by (auto simp: finish_connecting_def calm_steps dest!: calming)

lemma on_resolve_calm [calming]: "target_connection_on_resolve os key w = Inr w' \<Longrightarrow> calm w w'"
  by (auto simp: target_connection_on_resolve_def calm_steps dest!: calming)

lemma succeeded_calm [calming]: "target_connection_succeeded os fd w = (ok, e, w') \<Longrightarrow> calm w w'"
  by (auto simp: target_connection_succeeded_def split: prod.splits option.splits dest!: calming)

lemma target_write_connecting_calm [calming]: "target_write_connecting os key w = Inr w' \<Longrightarrow> calm w w'"
  by (auto simp: target_write_connecting_def calm_steps dest!: calming)

lemma target_write_calm [calming]: "target_write os key w = Inr w' \<Longrightarrow> calm w w'"
  by (auto simp: target_write_def calm_steps dest!: calming)

section \<open>The client's handlers\<close>

lemma client_read_relay_calm [calming]: "client_read_relay os key w = Inr w' \<Longrightarrow> calm w w'"
  by (auto simp: client_read_relay_def calm_steps dest!: calming)

lemma answer_greeting_calm [calming]: "answer_greeting key m s st w = Inr w' \<Longrightarrow> calm w w'"
  by (auto simp: answer_greeting_def calm_steps dest!: calming)

lemma client_read_greeting_calm [calming]: "client_read_greeting os key st w = Inr w' \<Longrightarrow> calm w w'"
  by (auto simp: client_read_greeting_def calm_steps dest!: calming)

lemma client_read_auth_calm [calming]: "client_read_auth os key st w = Inr w' \<Longrightarrow> calm w w'"
  by (auto simp: client_read_auth_def calm_steps dest!: calming)

lemma client_read_request_calm [calming]: "client_read_request os key st w = Inr w' \<Longrightarrow> calm w w'"
  by (auto simp: client_read_request_def reject_request_def calm_steps dest!: calming)

lemma client_read_end_calm [calming]: "client_read_end os key r w = Inr w' \<Longrightarrow> calm w w'"
  by (auto simp: client_read_end_def calm_steps dest!: calming)

lemma client_read_calm: "client_read os key w = Inr w' \<Longrightarrow> calm w w'"
  by (auto simp: client_read_def calm_steps dest!: calming)

lemma accept_loop_calm: "accept_loop os fuel key w = Inr w' \<Longrightarrow> calm w w'"
proof (induction fuel arbitrary: w)
  case (Suc fuel)
  from Suc.prems show ?case
    by (auto simp: calm_steps alloc_client_def split: if_splits dest!: calming Suc.IH)
qed simp

text \<open>Without a management session its handlers cannot run to their end.\<close>

lemma management_silent:
  assumes "mgmts w = Map.empty"
  shows "management_read os key w \<noteq> Inr w'" "management_write os key w \<noteq> Inr w'"
  using assms by (cases "(key_data key, w)" rule: get_mgmt.cases;
    auto simp: management_read_def management_write_def get_mgmt.simps bindE_def)+

lemma callback_calm:
  assumes cb: "Some cb \<in> {handle_read os h, handle_write os h, handle_block os h, handle_close os h}"
    and h: "h \<noteq> management_accept_handler" and m: "mgmts w = Map.empty" and run: "cb key w = Inr w'"
  shows "calm w w'"
  using cb run h management_silent [OF m]
  by (cases h)
    (auto simp: accept_connection_def simp del: accept_loop.simps
      dest: client_read_calm accept_loop_calm target_close_calm client_close_calm management_close_calm
        target_read_calm target_write_calm client_write_calm on_resolve_calm)

section \<open>Admitted sessions\<close>

definition granted :: "managed_user list \<Rightarrow> sessions \<Rightarrow> bool" where
  "granted us m \<longleftrightarrow> (\<forall>c st. m c = Some st \<longrightarrow> past_auth (stage st) \<longrightarrow> users_map us (cstr (username st)) \<noteq> None)"

lemma moves_granted: "moves m0 m \<Longrightarrow> granted us m0 \<Longrightarrow> granted us m"
  unfolding moves_def granted_def by metis

lemma users_map_name: "users_wf us \<Longrightarrow> users_map us n = Some p \<Longrightarrow> cstr n = n"
  using credentials_users_map [of us n p] by (auto simp: credentials_iff cstr_id)

lemma gate_granted:
  assumes us: "users_wf us" "users_are_configured us" and g: "gate us m0 m" "granted us m0"
  shows "granted us m"
  unfolding granted_def
proof (intro allI impI)
  fix c st assume st: "m c = Some st" "past_auth (stage st)"
  with g(1) obtain st0 where st0: "m0 c = Some st0" "passes us st0 st" unfolding gate_def by blast
  consider "past_auth (stage st0)" "username st = username st0" | "authenticated_as us st"
    using st0(2) us(2) unfolding passes_def by blast
  then show "users_map us (cstr (username st)) \<noteq> None"
  proof cases
    case 1
    with g(2) st0(1) show ?thesis unfolding granted_def by metis
  next
    case 2
    then obtain n p where "users_map us n = Some p" "cstr (username st) = cstr n"
      unfolding authenticated_as_def by blast
    with users_map_name [OF us(1)] show ?thesis by simp
  qed
qed

definition admitted :: "managed_user list \<Rightarrow> 'k world \<Rightarrow> bool" where
  "admitted us w \<longleftrightarrow> managed_users w = us \<and> mgmts w = Map.empty \<and> granted us (clients w)"

lemma admitted_calm: "admitted us w \<Longrightarrow> calm w w' \<Longrightarrow> granted us (clients w') \<Longrightarrow> admitted us w' \<and> slave_r w' = slave_r w"
  by (simp add: admitted_def calm_def)

lemma inv_names:
  assumes "world_inv ns w"
  shows "\<forall>x st. clients w x = Some st \<longrightarrow> length (username st) = CLIENT_USERNAME_MAX + 1"
    and "users_wf (managed_users w)"
  using world_inv_session(1) [OF assms] assms
  by (auto simp: session_inv_def session_wf_def arrays_ok_def world_inv_def base_def)

lemma callback_admitted:
  assumes inv: "world_inv ns w" and us: "users_are_configured us" and ad: "admitted us w"
    and cb: "Some cb \<in> {handle_read os h, handle_write os h, handle_block os h, handle_close os h}"
    and h: "h \<noteq> management_accept_handler" and run: "cb key w = Inr w'"
  shows "admitted us w' \<and> slave_r w' = slave_r w"
proof (rule admitted_calm [OF ad])
  have m: "mgmts w = Map.empty" and u: "managed_users w = us" using ad by (simp_all add: admitted_def)
  show "calm w w'" by (rule callback_calm [OF cb h m run])
  have "gate us (clients w) (clients w')" using callback_gate [OF inv_names(2,1) [OF inv] cb run] by (simp add: u)
  then show "granted us (clients w')"
    using gate_granted us inv_names(2) [OF inv] ad by (auto simp: u admitted_def)
qed

section \<open>A turn of the server\<close>

lemma item_callback_run:
  assumes "item_callback cbs it f key w = Inr w'"
  obtains h cb where "item_handler it = Some h" "cbs h = Some cb" "cb key w = Inr w'"
  using assms by (auto simp: item_callback_def split: option.splits)

lemma handle_item_admitted:
  fixes w :: "'k world"
  assumes os: "posix_ok os" and inv: "world_inv ns w" and q: "quiet_turn ns" and us: "users_are_configured us"
    and ad: "admitted us w" and off: "\<forall>x. listens ns x = Some management_accept_handler \<longrightarrow> x \<notin> slave_r w"
    and i: "i < length (fds w)" and run: "handle_item (handle_read os) (handle_write os) i w = Inr w'"
  shows "admitted us w' \<and> slave_r w' = slave_r w"
proof (cases "registered w (int i)")
  case None
  then have "\<not> ITEM_USED (fds w ! i)" using i by (simp add: registered_def split: if_splits)
  then show ?thesis using i run ad by (simp add: handle_item_def)
next
  case (Some r)
  then obtain j h d where reg: "registered w (int i) = Some (j, h, d)" by (cases r) simp
  note it = item_of_registered [OF inv_table(1) [OF inv] reg]
  let ?key = "\<lparr>key_fd = int i, key_data = d\<rparr> :: ref selector_key"
  obtain w1 where r1: "(if int i \<in> slave_r w \<and> wants OP_READ j
      then item_callback (handle_read os) (fds w ! i) AssertFailed ?key w else Inr w) = Inr w1"
    and inv1: "world_inv (at_item ns (int i) h d) w1"
    using item_read_inv [OF os inv reg] by (auto simp: returns_iff)
  have l1: "i < length (fds w1)" using i inv_table(2) [OF inv] inv_table(2) [OF inv1] by simp
  have ad1: "admitted us w1 \<and> slave_r w1 = slave_r w"
  proof (cases "int i \<in> slave_r w \<and> wants OP_READ j")
    case False
    with r1 ad show ?thesis by auto
  next
    case True
    with r1 obtain cb where cb: "handle_read os h = Some cb" "cb ?key w = Inr w1"
      by (auto simp: it elim: item_callback_run)
    have "h \<noteq> management_accept_handler"
    proof
      assume "h = management_accept_handler"
      moreover from inv reg have "h = management_accept_handler \<longrightarrow> d = None"
        by (cases rule: registered_cases) auto
      moreover have "guard_ok ns w" using inv by (simp add: world_inv_def base_def)
      ultimately have "listens ns (int i) = Some management_accept_handler"
        using reg by (auto simp: guard_ok_def)
      with off True show False by blast
    qed
    with callback_admitted [OF inv us ad, of cb os h] cb show ?thesis by simp
  qed
  have r2: "(if int i \<in> slave_w w1 \<and> wants OP_WRITE (item_interest (fds w1 ! i))
      then item_callback (handle_write os) (fds w1 ! i) AssertFailed ?key w1 else Inr w1) = Inr w'"
    using run r1 l1 it by (simp add: handle_item_def Let_def)
  show ?thesis
  proof (cases "int i \<in> slave_w w1 \<and> wants OP_WRITE (item_interest (fds w1 ! i))")
    case False
    with r2 ad1 show ?thesis by auto
  next
    case True
    with r2 obtain h' cb where cb: "handle_write os h' = Some cb" "cb ?key w1 = Inr w'"
      by (auto elim: item_callback_run)
    then have "h' \<noteq> management_accept_handler" by auto
    with callback_admitted [OF inv1 us, of cb os h'] cb ad1 show ?thesis by simp
  qed
qed

lemma handle_items_admitted:
  fixes w :: "'k world"
  assumes os: "posix_ok os" and q: "quiet_turn ns" and us: "users_are_configured us"
  shows "handle_items (handle_read os) (handle_write os) is w = Inr w' \<Longrightarrow> world_inv ns w \<Longrightarrow> admitted us w \<Longrightarrow>
    \<forall>x. listens ns x = Some management_accept_handler \<longrightarrow> x \<notin> slave_r w \<Longrightarrow> admitted us w'"
proof (induction "is" arbitrary: w)
  case Nil
  then show ?case by simp
next
  case (Cons i "is")
  from Cons.prems(1) obtain w1 where w1: "handle_item (handle_read os) (handle_write os) i w = Inr w1"
    "handle_items (handle_read os) (handle_write os) is w1 = Inr w'" by (auto simp: bindE_eq_Inr)
  then have i: "i < length (fds w)" by (auto simp: handle_item_def bindE_eq_Inr array_get_def split: if_splits)
  have "world_inv ns w1" using handle_item_inv [OF os Cons.prems(2) q i] w1(1) by (simp add: returns_iff)
  with handle_item_admitted [OF os Cons.prems(2) q us Cons.prems(3,4) i w1(1)] Cons.IH [OF w1(2)] Cons.prems(4)
  show ?case by simp
qed

lemma handle_jobs_admitted:
  "handle_jobs (handle_block os) js w = Inr w' \<Longrightarrow> admitted us w \<Longrightarrow> admitted us w'"
proof (induction js arbitrary: w)
  case (Cons j js)
  have cb: "admitted us w1" if "item_callback (handle_block os) it NullCall key w = Inr w1" for it key w1
  proof (rule item_callback_run [OF that])
    fix h cb assume "handle_block os h = Some cb" "cb key w = Inr w1"
    then have "target_connection_on_resolve os key w = Inr w1" by (cases h) auto
    from on_resolve_moves [OF this] on_resolve_calm [OF this] Cons.prems(2) show ?thesis
      by (auto simp: admitted_def calm_def intro: moves_granted)
  qed
  from Cons.prems show ?case
    by (auto simp: bindE_eq_Inr split: if_splits intro: Cons.IH cb)
qed simp

lemma admitted_update [simp]:
  "admitted us (w\<lparr>slave_r := rs, slave_w := ws\<rparr>) = admitted us w"
  "admitted us (w\<lparr>resolution_jobs := js\<rparr>) = admitted us w"
  "admitted us (sys_close os fd w) = admitted us w"
  "admitted us (w\<lparr>kern := k\<rparr>) = admitted us w"
  by (simp_all add: admitted_def sys_close_def)

lemma notifications_admitted:
  "handle_block_notifications (handle_block os) w = Inr w' \<Longrightarrow> admitted us w \<Longrightarrow> admitted us w'"
  by (auto simp: handle_block_notifications_def bindE_eq_Inr intro: handle_jobs_admitted)

lemma select_admitted:
  fixes w :: "'k world"
  assumes os: "posix_ok os" and inv: "between ls w" and us: "users_are_configured us" and ad: "admitted us w"
    and off: "\<forall>x. ls x = Some management_accept_handler \<longrightarrow> (\<forall>rs ws. ready = Inr (rs, ws) \<longrightarrow> x \<notin> rs)"
    and run: "selector_select (handle_read os) (handle_write os) (handle_block os) ready w = Inr (ret, w')"
  shows "admitted us w'"
proof (cases ready)
  case (Inl err)
  with run ad show ?thesis
    by (auto simp: selector_select_def Let_def bindE_eq_Inr split: if_splits intro: notifications_admitted)
next
  case (Inr p)
  obtain rs ws where p: "p = (rs, ws)" by (cases p)
  let ?w = "w\<lparr>slave_r := rs, slave_w := ws\<rparr>" and ?ns = "idle ls (resolution_jobs w)"
  from run obtain w1 where w1: "handle_iteration (handle_read os) (handle_write os) ?w = Inr w1"
    "handle_block_notifications (handle_block os) w1 = Inr w'"
    by (auto simp: selector_select_def Let_def bindE_eq_Inr Inr p)
  have i: "world_inv ?ns ?w" using inv by (simp add: between_def)
  have q: "quiet_turn ?ns" by (simp add: quiet_turn_def idle_def)
  have "\<forall>x. listens ?ns x = Some management_accept_handler \<longrightarrow> x \<notin> slave_r ?w"
    using off Inr p by (simp add: idle_def)
  from handle_items_admitted [OF os q us w1(1) [unfolded handle_iteration_def] i _ this] ad
  show ?thesis using notifications_admitted [OF w1(2)] by simp
qed

lemma unregister_admitted:
  "selector_unregister_fd (handle_close os) fd w = Inr (r, w') \<Longrightarrow> admitted us w \<Longrightarrow> admitted us w'"
  using unregister_close_moves unregister_close_calm by (metis admitted_calm admitted_def moves_granted)

lemma stop_accepting_admitted:
  "stop_accepting os sv = Inr sv' \<Longrightarrow> admitted us (sv_world sv) \<Longrightarrow> admitted us (sv_world sv')"
  by (auto simp: stop_accepting_def bindE_eq_Inr Inr_inversion dest: unregister_admitted)

lemma server_turn_admitted:
  assumes os: "posix_ok os" and inv: "server_inv sv" and us: "users_are_configured us" and ad: "admitted us (sv_world sv)"
    and off: "\<forall>rs ws. ready = Inr (rs, ws) \<longrightarrow> sv_management_fd sv \<notin> rs"
    and run: "server_turn os ready asked sv = Inr sv'"
  shows "admitted us (sv_world sv')"
proof -
  have b: "between (listening sv) (sv_world sv)" using inv by (simp add: server_inv_def)
  have l: "\<forall>x. listening sv x = Some management_accept_handler \<longrightarrow> (\<forall>rs ws. ready = Inr (rs, ws) \<longrightarrow> x \<notin> rs)"
    using off by (auto simp: listening_def split: if_splits)
  from run obtain ret w where w: "selector_select (handle_read os) (handle_write os) (handle_block os) ready (sv_world sv) = Inr (ret, w)"
    by (auto simp: server_turn_def bindE_eq_Inr)
  have "admitted us w" by (rule select_admitted [OF os b us ad l w])
  with run w show ?thesis
    by (auto simp: server_turn_def Let_def bindE_eq_Inr split: if_splits dest: stop_accepting_admitted)
qed

section \<open>A run of the server\<close>

text \<open>No turn in which somebody connects to the management service.\<close>

fun unmanaged :: "int \<Rightarrow> 'k event \<Rightarrow> bool" where
  "unmanaged fd (Turn (Inr (rs, ws)) n) = (fd \<notin> rs)"
| "unmanaged fd _ = True"

lemma management_fd_kept: "exec os e sv = Inr sv' \<Longrightarrow> sv_management_fd sv' = sv_management_fd sv"
  by (cases e) (auto simp: server_turn_def Let_def bindE_eq_Inr dest!: stop_accepting_world
      split: if_splits option.splits thread.splits)

lemma exec_admitted:
  assumes os: "posix_ok os" and inv: "server_inv sv" and us: "users_are_configured us" and ad: "admitted us (sv_world sv)"
    and off: "unmanaged (sv_management_fd sv) e" and run: "exec os e sv = Inr sv'"
  shows "admitted us (sv_world sv')"
proof (cases e)
  case (Turn ready n)
  then have "\<forall>rs ws. ready = Inr (rs, ws) \<longrightarrow> sv_management_fd sv \<notin> rs" using off by auto
  from server_turn_admitted [OF os inv us ad this] run ad Turn show ?thesis by (auto split: if_splits)
next
  case (Resolved j)
  with run ad show ?thesis
    by (auto simp: resolve_target_def ask_def Let_def bindE_eq_Inr admitted_def split: if_splits prod.splits)
next
  case (Notified j)
  with run ad show ?thesis
    by (auto simp: resolve_notify_def selector_notify_block_def admitted_def split: option.splits thread.splits)
next
  case (Outside k)
  with run ad show ?thesis by auto
qed

lemma run_admitted:
  assumes os: "posix_ok os" and us: "users_are_configured us"
  shows "run os es sv = Inr sv' \<Longrightarrow> server_inv sv \<Longrightarrow> admitted us (sv_world sv) \<Longrightarrow>
    list_all (unmanaged (sv_management_fd sv)) es \<Longrightarrow> admitted us (sv_world sv')"
proof (induction es arbitrary: sv)
  case (Cons e es)
  from Cons.prems(1) obtain sv1 where 1: "exec os e sv = Inr sv1" "run os es sv1 = Inr sv'"
    by (auto simp: bindE_eq_Inr)
  have "server_inv sv1" using exec_inv [OF os Cons.prems(2), of e] 1(1) by (simp add: returns_iff)
  with exec_admitted [OF os Cons.prems(2) us Cons.prems(3) _ 1(1)] Cons.IH [OF 1(2)] Cons.prems(4)
    management_fd_kept [OF 1(1)]
  show ?case by simp
qed simp

lemma register_same:
  "selector_register ok junk fd h i d w = Inr (r, w') \<Longrightarrow> calm w w' \<and> clients w' = clients w"
  using register_calm register_clients by blast

lemma start_admitted:
  "start_server os us server_fd management_fd k = Inr (Some sv) \<Longrightarrow>
     admitted us (sv_world sv) \<and> sv_management_fd sv = management_fd"
  by (auto simp: start_server_def Inr_inversion bindE_eq_Inr admitted_def granted_def initial_world_def calm_def
      dest!: register_same split: if_splits)

section \<open>The whole run\<close>

text \<open>
  Only users get past authentication. When the server starts with a user and nobody connects
  to the management service, then whatever clients, targets, resolver threads and signals do
  and whatever the operating system answers, in every state of the run each session that sends
  requests, is being connected or relays bytes carries the name of a user of the table that the server
  started with.
\<close>

lemma only_users_pass:
  assumes "posix_ok os" "users_wf us" "users_are_configured us"
    and "start_server os us server_fd management_fd k = Inr (Some sv0)" "run os es sv0 = Inr sv"
    and "list_all (unmanaged management_fd) es"
    and "clients (sv_world sv) c = Some st"
    and "stage st \<in> {CLIENT_STAGE_REQUEST, CLIENT_STAGE_RESOLVING, CLIENT_STAGE_CONNECTING, CLIENT_STAGE_RELAY}"
  shows "\<exists>p. users_map us (cstr (username st)) = Some p"
proof -
  have "server_inv sv0" using start_server_inv [OF assms(2), of os server_fd management_fd k] assms(4) by (simp add: returns_iff)
  from run_admitted [OF assms(1,3,5) this] start_admitted [OF assms(4)] assms(6) have "admitted us (sv_world sv)" by simp
  with assms(7,8) show ?thesis by (auto simp: admitted_def granted_def)
qed

text \<open>A client that logs in as the user \<open>a\<close> with the password \<open>b\<close>.\<close>

definition login_script :: script where
  "login_script = (1, [[5, 1, 2], [1, 1, 97, 1, 98]], [2])"

definition login_events :: "script event list" where
  "login_events = [ready_to {3} {}, ready_to {5} {}, ready_to {} {5}, ready_to {5} {}]"

lemma login_run:
  assumes c: "users_credentials_are_valid [97] [98] us" and u: "users_are_configured us"
  obtains sv0 sv st where "start_server demo_os us 3 4 login_script = Inr (Some sv0)" "run demo_os login_events sv0 = Inr sv"
    "clients (sv_world sv) 0 = Some st" "stage st = CLIENT_STAGE_REQUEST" "list_all (unmanaged 4) login_events"
proof -
  have "returns (start_server demo_os us 3 4 login_script) (\<lambda>r. \<exists>sv0. r = Some sv0 \<and>
     returns (run demo_os login_events sv0) (\<lambda>sv. \<exists>st. clients (sv_world sv) 0 = Some st \<and> stage st = CLIENT_STAGE_REQUEST))"
    using c u by (simp add: login_script_def login_events_def ready_to_def auth_parse_request_def client_read_auth_def
        socks5_prepare_auth_response_def selector_set_interest_key_def
        eval_selector eval_server eval_sizes eval_client cong: bindE_weak_cong returns_weak_cong)
  moreover have "list_all (unmanaged 4) login_events" by (simp add: login_events_def ready_to_def)
  ultimately show thesis using that by (auto simp: returns_iff)
qed

end
