(* ===== verification/Spec2Isabelle.thy ===== *)
theory Spec2Isabelle
  imports Prelude Buffer Selector Metrics Users Socks5 World Auth Connection Target_Connection Client_Session
    Management Server Invariant Session Handlers Handshake Accept Manage Turn Runs Reached Shutdown Demo Parser Stm Sockets Args Client
    Netutils Descriptors Gate Selector_Setup Admission
begin

text \<open>
  A SOCKS5 proxy server in C, with its management service and client.

  \<^bold>\<open>The program.\<close> \<^verbatim>\<open>src/src/server\<close> is one process with one thread that loops over a selector
  (\<^verbatim>\<open>src/src/utils/selector.c\<close>): it waits with \<open>pselect\<close>, then calls the handler of every ready
  descriptor. A client's descriptor belongs to a session, \<open>client_state_t\<close>, which goes through the
  greeting, authentication (\<^verbatim>\<open>auth.c\<close>, \<^verbatim>\<open>users.c\<close>), the request (\<^verbatim>\<open>socks5.c\<close>), the resolution of a
  domain name, the connection to the target and the relay of bytes both ways
  (\<^verbatim>\<open>client_session.c\<close>, \<^verbatim>\<open>target_connection.c\<close>). Names are resolved in a thread per request, which
  hands its result over through a job and a notification that wakes the selector. A second listening
  socket serves lines of management commands (\<^verbatim>\<open>management.c\<close>), which read the counters
  (\<^verbatim>\<open>metrics.c\<close>) and change the users; connections are appended to a log (\<^verbatim>\<open>access_log.c\<close>).
  \<^verbatim>\<open>server.c\<close> opens the sockets, runs the loop and handles the two signals; \<^verbatim>\<open>args.c\<close> reads the
  command line. \<^verbatim>\<open>src/src/client/client.c\<close> sends one management command. The byte buffer, the
  table-driven parser, the state machine and the network helpers of \<^verbatim>\<open>src/src/utils\<close> are libraries
  that the server does not use.

  \<^bold>\<open>The model\<close> keeps the names of the code.
  \<^item> \<open>Prelude\<close>: bytes, faults, the type \<open>result\<close>, arrays with bounds, C strings, \<open>snprintf\<close>.
  \<^item> \<open>Buffer\<close>, \<open>Parser\<close>, \<open>Stm\<close>, \<open>Netutils\<close>, \<open>Args\<close>: one file of \<^verbatim>\<open>src/src/utils\<close> each (\<open>Parser\<close>
    also \<^verbatim>\<open>parser_utils.c\<close>, \<open>Args\<close> also \<open>main\<close> of the server).
  \<^item> \<open>Selector\<close>: \<^verbatim>\<open>selector.c\<close>, over any type of handlers' data and a record that can be extended;
    \<open>Descriptors\<close>: its contract, a map of registrations; \<open>Selector_Setup\<close>: \<open>selector_init\<close>,
    \<open>selector_close\<close> and \<open>selector_fd_set_nio\<close>.
  \<^item> \<open>Metrics\<close>, \<open>Users\<close>, \<open>Socks5\<close>, \<open>Auth\<close>, \<open>Management\<close>: the file of \<^verbatim>\<open>src/src/server\<close> of that name.
  \<^item> \<open>World\<close>: the server's state as a record that extends the selector's: the heap objects by
    address (sessions, management sessions, resolver jobs), the resolver threads, counters, users,
    log, \<open>errno\<close>, and the operating system \<open>'k os\<close> with its own state \<open>'k\<close>. The field \<open>io\<close> is a ghost:
    the bytes received and sent in the relay, which no definition reads.
  \<^item> \<open>Connection\<close>, \<open>Target_Connection\<close>, \<open>Client_Session\<close>: \<^verbatim>\<open>client_session.c\<close>,
    \<^verbatim>\<open>target_connection.c\<close> and \<^verbatim>\<open>access_log.c\<close>, in the order in which they call each other; the close
    callbacks, which every handler can reach through \<open>selector_unregister_fd\<close>, come first.
  \<^item> \<open>Server\<close>: the tables of handlers, \<open>server_run\<close> as \<open>start_server\<close>, \<open>server_turn\<close> (one turn of the
    loop) and \<open>server_finish\<close>. \<open>Sockets\<close>: \<open>create_passive_socket\<close> and the descriptors of the start.
  \<^item> \<open>Runs\<close>: the program as a step relation. Between two turns a resolver thread may take a step
    (\<open>resolve_target\<close> up to its critical section, then \<open>resolve_notify\<close>), and the system may change.
  \<^item> \<open>Client\<close>: \<^verbatim>\<open>client.c\<close>.

  \<^bold>\<open>Faults.\<close> An access outside an array, a failed \<open>assert\<close>, \<open>abort\<close>, a call through NULL and the use of
  a freed object are values \<open>Inl f\<close>, so that every theorem \<open>returns r Q\<close> states their absence, and
  that the code returns. Lengths and indices are \<open>nat\<close>, widths that can wrap around are words.

  \<^bold>\<open>Loops.\<close> Loops over data are structural recursions. The relay's \<open>send_loop\<close> decreases the bytes
  left. The two accept loops get \<open>Suc (os_backlog ..)\<close> turns, which is enough because each \<open>accept\<close>
  takes one of the connections that wait; \<open>LoopBound\<close> would be the fault and is proved not to
  happen. Loops of the blocking programs (\<open>Client\<close>, \<open>Netutils\<close>) take the system's answers from a
  list: \<open>ended_or_waiting\<close> says that they have ended or used up the list, and \<open>client_completes\<close> how
  long a list is enough. Callbacks nest three deep (a handler, closing a client, closing its
  target); \<open>StackDepth\<close> is the fault beyond that, and does not happen either.

  \<^bold>\<open>Hypotheses\<close> on what is not in the repository: \<open>posix_ok os\<close> says that \<open>recv\<close> and \<open>send\<close> do not
  exceed the length they are given, that a printed address has fewer than \<open>INET6_ADDRSTRLEN\<close> bytes,
  and that \<open>accept\<close> uses up the backlog; \<open>demo_posix\<close> proves it of the system in \<open>Demo\<close>, on which
  the witnesses run the server. \<open>getaddrinfo\<close>, \<open>getopt\<close>, \<open>inet_ntop\<close>, \<open>gmtime_r\<close> and
  the calls that \<open>selector_init\<close> makes are parameters. The
  \<open>malloc\<close> in \<open>selector_notify_block\<close> is taken to succeed (when it fails the answer is lost); every
  other allocation may fail.

  \<^bold>\<open>The lemmas.\<close> \<open>Invariant\<close> states what holds of the running server (\<open>world_inv\<close>): the stage of a
  session decides its lengths, its buffers, its job and the interests of its two descriptors. A
  handler breaks that of its own session only; \<open>focus\<close> splits the rest off, \<open>Session\<close> says what each
  operation does to the session in focus, and \<open>Handlers\<close>, \<open>Handshake\<close>, \<open>Accept\<close> and \<open>Manage\<close> put it
  together for each handler, \<open>Turn\<close> for \<open>selector_select\<close>, \<open>Runs\<close> for every sequence of steps.
  \<open>Reached\<close> reads the facts off for reachable states and \<open>Shutdown\<close> takes the table down. \<open>Gate\<close>
  follows the stages through every callback: which of them can let a session past authentication;
  \<open>Admission\<close> takes that through whole runs, in which the table of users stays what it was. The
  interfaces between components are locales, interpreted on the model: \<open>byte_queue\<close> (\<open>Buffer\<close>),
  \<open>credential_store\<close> (\<open>Users\<close>), \<open>address_walk\<close> (\<open>Sockets\<close> and \<open>Client\<close>) and \<open>descriptor_table\<close>
  (\<open>Descriptors\<close>).

  \<^bold>\<open>The properties\<close> of this theory span the components: the server never faults; the relay is a pair
  of first-in first-out channels; the selector's sets are exactly what the sessions can use, so
  that no session is stuck; resolver jobs, notifications and registrations belong to live
  sessions; the counters count; only the users of the command line get past authentication; and
  shutting down ends and frees everything. The properties of one
  component stand in its theory.

  \<^bold>\<open>Not modelled.\<close> What is printed for the user, apart from the answers that go over a socket;
  the functions that only free memory (\<open>parser_destroy\<close>, \<open>parser_utils_strcmpi_destroy\<close>); true parallelism of
  the resolver threads inside a turn (their accesses are inside the job's mutex, and a turn reads a
  job in one critical section, so that they are taken to happen between turns); sums of
  lengths beyond the memory. The tests are not modelled.
\<close>

section \<open>Witness states\<close>

text \<open>The evaluated runs of \<open>Demo\<close> as reachable states.\<close>

lemma relay_reached:
  obtains sv0 sv st where "start_server demo_os zero_users 3 4 relay_script = Inr (Some sv0)"
    "run demo_os relay_events sv0 = Inr sv" "reachable demo_os zero_users sv"
    "clients (sv_world sv) 0 = Some st" "stage st = CLIENT_STAGE_RELAY" "relay_started st" "client_fd st = 5"
    "target_fd st = 6" "pending_c2t st = [c2t_buffer st ! 2]" "c2t_buffer st ! 2 = 3" "c2t_len st = 3" "c2t_off st = 2"
    "t2c_len st = 0" "sv_running sv" "\<not> sv_stopped sv"
proof -
  from relay_evaluated obtain sv0 sv st where 1: "start_server demo_os zero_users 3 4 relay_script = Inr (Some sv0)"
    "run demo_os relay_events sv0 = Inr sv" and st: "clients (sv_world sv) 0 = Some st" "stage st = CLIENT_STAGE_RELAY"
    "relay_started st" "client_fd st = 5" "target_fd st = 6" "c2t_buffer st ! 2 = 3" "c2t_len st = 3" "c2t_off st = 2"
    "t2c_len st = 0" "sv_running sv" "\<not> sv_stopped sv"
    by (auto simp: returns_iff)
  have r: "reachable demo_os zero_users sv" by (rule run_reachable [OF 1(2) reachable.started [OF 1(1)]])
  have "length (c2t_buffer st) = SERVER_BUFFER_SIZE"
    using reached_session(1) [OF demo_posix users_wf_zero(1) r st(1)] by (simp add: session_wf_def arrays_ok_def)
  then have "pending_c2t st = [c2t_buffer st ! 2]"
    using st by (simp add: pending_c2t_def SERVER_BUFFER_SIZE_def take_Suc_conv_app_nth hd_drop_conv_nth)
  with 1 r st show thesis by (intro that)
qed

lemma resolver_reached:
  obtains sv st where "reachable demo_os zero_users sv" "clients (sv_world sv) 0 = Some st"
    "stage st = CLIENT_STAGE_RESOLVING" "client_fd st = 5" "resolver_job st = Some 1" "resolution_jobs (sv_world sv) = [5]"
proof -
  from resolver_evaluated obtain sv0 sv st where 1: "start_server demo_os zero_users 3 4 resolver_script = Inr (Some sv0)"
    "run demo_os resolver_events sv0 = Inr sv" and st: "clients (sv_world sv) 0 = Some st"
    "stage st = CLIENT_STAGE_RESOLVING" "client_fd st = 5" "resolver_job st = Some 1" "resolution_jobs (sv_world sv) = [5]"
    by (auto simp: returns_iff)
  have "reachable demo_os zero_users sv" by (rule run_reachable [OF 1(2) reachable.started [OF 1(1)]])
  with st show thesis by (intro that)
qed

section \<open>Properties of the running server\<close>



text \<open>
  C2. The relay is first in, first out, in both directions, and loses, repeats and invents
  nothing: what a session's target has been sent, followed by what is left in the buffer, is
  what its client has sent since the relay began, and the same the other way. When a session is gone, what was
  sent is a beginning of what was received.
\<close>

theorem relay_fifo:
  assumes "posix_ok os" "users_wf us" "reachable os us sv"
  shows "case clients (sv_world sv) c of
      Some st \<Rightarrow> stream (ToTarget c) (io (sv_world sv)) @ pending_c2t st = stream (FromClient c) (io (sv_world sv))
        \<and> stream (ToClient c) (io (sv_world sv)) @ pending_t2c st = stream (FromTarget c) (io (sv_world sv))
    | None \<Rightarrow> (\<exists>p. stream (ToTarget c) (io (sv_world sv)) @ p = stream (FromClient c) (io (sv_world sv)))
        \<and> (\<exists>q. stream (ToClient c) (io (sv_world sv)) @ q = stream (FromTarget c) (io (sv_world sv)))"
  using world_inv_session(1) [OF reachable_world [OF assms], of c]
  by (auto simp: session_inv_def streams_ok_def split: option.splits)

theorem relay_fifo_witness:
  "\<exists>sv st. reachable demo_os zero_users sv \<and> clients (sv_world sv) 0 = Some st \<and> pending_c2t st = [3]
     \<and> stream (ToTarget 0) (io (sv_world sv)) @ [3] = stream (FromClient 0) (io (sv_world sv))"
proof -
  obtain sv st where s: "reachable demo_os zero_users sv" "clients (sv_world sv) 0 = Some st"
    "pending_c2t st = [c2t_buffer st ! 2]" "c2t_buffer st ! 2 = 3" by (rule relay_reached)
  with relay_fifo [OF demo_posix users_wf_zero(1) s(1), of 0] show ?thesis by auto
qed

text \<open>
  C3. The selector waits for exactly what a session can do next. A client is read during the
  handshake while no reply is pending, and in the relay while the buffer towards the target is
  empty; it is written while a reply is pending or the buffer towards it has bytes left. A
  target is written to learn the outcome of its connection and while bytes for it are left,
  and read while the buffer towards the client is empty. So no buffer is overwritten and no
  ready descriptor is waited for in vain.
\<close>

theorem interests_exact:
  assumes a: "posix_ok os" "users_wf us" "reachable os us sv" and st: "clients (sv_world sv) c = Some st"
  shows "(client_fd st \<in> master_r (sv_world sv) \<longleftrightarrow>
        (if relay_started st then c2t_len st = 0 else write_len st = 0 \<and> handshake (stage st)))
    \<and> (client_fd st \<in> master_w (sv_world sv) \<longleftrightarrow>
        (if relay_started st then t2c_off st < t2c_len st else 0 < write_len st))
    \<and> (target_fd st \<noteq> -1 \<longrightarrow>
        (target_fd st \<in> master_r (sv_world sv) \<longleftrightarrow> relay_started st \<and> t2c_len st = 0)
      \<and> (target_fd st \<in> master_w (sv_world sv) \<longleftrightarrow>
          stage st = CLIENT_STAGE_CONNECTING \<or> relay_started st \<and> c2t_off st < c2t_len st))"
proof -
  note r = reached_session [OF a st]
  have "relay_started st \<Longrightarrow> stage st \<noteq> CLIENT_STAGE_CONNECTING"
    using r(1) by (auto simp: session_wf_def stage_ok_def)
  then show ?thesis
    using r(4,5) by (auto simp: reached_sets [OF a] interested_registered client_interest_wants target_interest_wants)
qed

theorem interests_exact_witness:
  "\<exists>sv st. reachable demo_os zero_users sv \<and> clients (sv_world sv) 0 = Some st \<and> 5 \<notin> master_r (sv_world sv)
     \<and> 6 \<in> master_r (sv_world sv) \<and> 6 \<in> master_w (sv_world sv)"
proof -
  obtain sv st where s: "reachable demo_os zero_users sv" "clients (sv_world sv) 0 = Some st" "relay_started st"
    "client_fd st = 5" "target_fd st = 6" "c2t_len st = 3" "c2t_off st = 2" "t2c_len st = 0" by (rule relay_reached)
  with interests_exact [OF demo_posix users_wf_zero(1) s(1,2)] show ?thesis by auto
qed



text \<open>
  C14. The counters are exact: the connections the shutdown counts and the concurrent
  connections the management channel reports are both the number of sessions, which is never
  more than the selector's 1024 descriptors, and the two byte counters are the bytes sent to
  the targets and to the clients of the relays, modulo \<open>2 ^ 64\<close>.
\<close>

theorem counters_exact:
  assumes a: "posix_ok os" "users_wf us" "reachable os us sv"
  defines "w \<equiv> sv_world sv"
  shows "card (dom (clients w)) \<le> 1024
    \<and> unat (active_client_connections w) = card (dom (clients w))
    \<and> unat (concurrent_connections (current_metrics w)) = card (dom (clients w))
    \<and> unat (bytes_client_to_target (current_metrics w)) = sent_total True (io w) mod 2 ^ 64
    \<and> unat (bytes_target_to_client (current_metrics w)) = sent_total False (io w) mod 2 ^ 64"
  using reached_parts(1) [OF a] unfolding w_def counters_inv_def FD_SETSIZE_def
  by (simp_all add: unat_of_nat)

theorem counters_exact_witness:
  "\<exists>sv st. reachable demo_os zero_users sv \<and> clients (sv_world sv) 0 = Some st
     \<and> 0 < card (dom (clients (sv_world sv)))
     \<and> unat (active_client_connections (sv_world sv)) = card (dom (clients (sv_world sv)))"
proof -
  obtain sv st where s: "reachable demo_os zero_users sv" "clients (sv_world sv) 0 = Some st" by (rule relay_reached)
  have "finite (dom (clients (sv_world sv)))"
    using reached_parts(1) [OF demo_posix users_wf_zero(1) s(1)] by (simp add: counters_inv_def)
  then have "0 < card (dom (clients (sv_world sv)))" using s(2) by (auto simp: card_gt_0_iff)
  with s counters_exact [OF demo_posix users_wf_zero(1) s(1)] show ?thesis by blast
qed



text \<open>
  C15. A notification in the selector's list is for a descriptor that is registered with the
  client's handler, the only one with a \<open>handle_block\<close>, and its session is waiting for just
  that answer, which is there; no descriptor is notified twice. So \<open>handle_block_notifications\<close>,
  which checks none of this, never calls a NULL function and never wakes the wrong session.
\<close>

theorem notified_sessions_wait:
  assumes a: "posix_ok os" "users_wf us" "reachable os us sv"
  defines "w \<equiv> sv_world sv"
  shows "distinct (resolution_jobs w) \<and> (\<forall>fd \<in> set (resolution_jobs w). \<exists>c st j job i. registered w fd = Some (i, client_handler, of_session c)
      \<and> clients w c = Some st \<and> client_fd st = fd \<and> stage st = CLIENT_STAGE_RESOLVING \<and> resolver_job st = Some j
      \<and> jobs w j = Some job \<and> job_done job \<and> handle_block os client_handler \<noteq> None)"
proof (intro conjI ballI)
  have inv: "world_inv (idle (listening sv) (resolution_jobs w)) w" unfolding w_def by (rule reachable_world [OF a])
  show "distinct (resolution_jobs w)" using reached_parts(2) [OF a] by (simp add: w_def jobs_inv_def)
  fix fd assume "fd \<in> set (resolution_jobs w)"
  then have fd: "fd \<in> set (unhandled (idle (listening sv) (resolution_jobs w)))" by simp
  from notified_session [OF inv fd] obtain c st j job where s: "clients w c = Some st" "client_fd st = fd"
    "stage st = CLIENT_STAGE_RESOLVING" "resolver_job st = Some j" "jobs w j = Some job" "job_done job" .
  moreover have "registered w fd = Some (client_interest st, client_handler, of_session c)"
    using reached_session(4) [OF a, of c st] s(1,2) by (simp add: w_def)
  ultimately show "\<exists>c st j job i. registered w fd = Some (i, client_handler, of_session c)
      \<and> clients w c = Some st \<and> client_fd st = fd \<and> stage st = CLIENT_STAGE_RESOLVING \<and> resolver_job st = Some j
      \<and> jobs w j = Some job \<and> job_done job \<and> handle_block os client_handler \<noteq> None"
    by auto
qed

theorem notified_sessions_wait_witness:
  "\<exists>sv c i. reachable demo_os zero_users sv \<and> resolution_jobs (sv_world sv) = [5]
     \<and> registered (sv_world sv) 5 = Some (i, client_handler, of_session c)"
proof -
  obtain sv where s: "reachable demo_os zero_users sv" "resolution_jobs (sv_world sv) = [5]" by (rule resolver_reached)
  with notified_sessions_wait [OF demo_posix users_wf_zero(1) s(1)] show ?thesis by auto
qed

text \<open>
  C6. Every registered descriptor has an owner that exists, and a handler of the right kind:
  the two listening sockets, only while accepting has not stopped; a session that has the
  descriptor as its client's or its target's; or a management connection. Conversely every
  session's descriptors are registered, for that session. So no handler is ever called with
  the data of a freed object, and no two sessions share a descriptor.
\<close>

theorem registrations_exact:
  assumes a: "posix_ok os" "users_wf us" "reachable os us sv"
  defines "w \<equiv> sv_world sv"
  shows "(\<forall>fd i h d. registered w fd = Some (i, h, d) \<longrightarrow> (case d of
      None \<Rightarrow> \<not> sv_stopped sv \<and> i = OP_READ \<and> (fd = sv_server_fd sv \<and> h = accept_handler
        \<or> fd = sv_management_fd sv \<and> h = management_accept_handler)
    | Some (ClientRef c) \<Rightarrow> \<exists>st. clients w c = Some st \<and> (fd = client_fd st \<and> h = client_handler
        \<or> fd = target_fd st \<and> h = target_handler)
    | Some (MgmtRef m) \<Rightarrow> mgmts w m \<noteq> None \<and> h = management_client_handler))
    \<and> (\<forall>c st. clients w c = Some st \<longrightarrow> registered w (client_fd st) = Some (client_interest st, client_handler, of_session c)
      \<and> (target_fd st \<noteq> -1 \<longrightarrow> registered w (target_fd st) = Some (target_interest st, target_handler, of_session c)))
    \<and> (\<not> sv_stopped sv \<longrightarrow> registered w (sv_server_fd sv) = Some (OP_READ, accept_handler, None)
      \<and> registered w (sv_management_fd sv) = Some (OP_READ, management_accept_handler, None))"
proof (intro conjI allI impI)
  have inv: "world_inv (idle (listening sv) (resolution_jobs w)) w" unfolding w_def by (rule reachable_world [OF a])
  note g = reached_parts(4) [OF a, folded w_def]
  fix fd i h d assume reg: "registered w fd = Some (i, h, d)"
  from inv reg show "case d of
      None \<Rightarrow> \<not> sv_stopped sv \<and> i = OP_READ \<and> (fd = sv_server_fd sv \<and> h = accept_handler
        \<or> fd = sv_management_fd sv \<and> h = management_accept_handler)
    | Some (ClientRef c) \<Rightarrow> \<exists>st. clients w c = Some st \<and> (fd = client_fd st \<and> h = client_handler
        \<or> fd = target_fd st \<and> h = target_handler)
    | Some (MgmtRef m) \<Rightarrow> mgmts w m \<noteq> None \<and> h = management_client_handler"
  proof (cases rule: registered_cases)
    case listener
    with g reg have "i = OP_READ \<and> listening sv fd = Some h" by (auto simp: guard_ok_def idle_def)
    with listener show ?thesis by (auto simp: listening_def split: if_splits)
  qed auto
next
  fix c st assume st: "clients w c = Some st"
  show "registered w (client_fd st) = Some (client_interest st, client_handler, of_session c)"
    using reached_session(4) [OF a st [unfolded w_def]] by (simp add: w_def)
  assume "target_fd st \<noteq> -1"
  then show "registered w (target_fd st) = Some (target_interest st, target_handler, of_session c)"
    using reached_session(5) [OF a st [unfolded w_def]] by (simp add: w_def)
next
  assume r: "\<not> sv_stopped sv"
  have ne: "sv_server_fd sv \<noteq> sv_management_fd sv" using reachable_inv [OF a] by (simp add: server_inv_def)
  note g = reached_parts(4) [OF a, folded w_def]
  show "registered w (sv_server_fd sv) = Some (OP_READ, accept_handler, None)"
    using g r ne by (simp add: guard_ok_def idle_def listening_def)
  show "registered w (sv_management_fd sv) = Some (OP_READ, management_accept_handler, None)"
    using g r by (simp add: guard_ok_def idle_def listening_def)
qed

theorem registrations_exact_witness:
  "\<exists>sv i j. reachable demo_os zero_users sv \<and> registered (sv_world sv) 5 = Some (i, client_handler, of_session 0)
     \<and> registered (sv_world sv) 6 = Some (j, target_handler, of_session 0)"
proof -
  obtain sv st where s: "reachable demo_os zero_users sv" "clients (sv_world sv) 0 = Some st"
    "client_fd st = 5" "target_fd st = 6" by (rule relay_reached)
  from registrations_exact [OF demo_posix users_wf_zero(1) s(1), THEN conjunct2, THEN conjunct1, rule_format, OF s(2)] s
  show ?thesis by auto
qed

text \<open>
  C16. A session's memory stays in shape: its arrays keep their sizes, the part of each buffer
  that is still to be sent lies inside it, during the handshake fewer than 513 bytes are held,
  so that no request can be too long for the buffer, and the fields agree with the stage.
\<close>

theorem session_bounds:
  assumes a: "posix_ok os" "users_wf us" "reachable os us sv" and st: "clients (sv_world sv) c = Some st"
  shows "length (read_buffer st) = 4096 \<and> length (write_buffer st) = 4096 \<and> length (c2t_buffer st) = 4096
    \<and> length (t2c_buffer st) = 4096 \<and> length (username st) = 256 \<and> length (destination_host st) = 256
    \<and> write_off st \<le> write_len st \<and> write_len st \<le> 4096 \<and> c2t_off st \<le> c2t_len st \<and> c2t_len st \<le> 4096
    \<and> t2c_off st \<le> t2c_len st \<and> t2c_len st \<le> 4096 \<and> read_len st \<le> 4096
    \<and> (stage st \<in> {CLIENT_STAGE_GREETING, CLIENT_STAGE_AUTH, CLIENT_STAGE_REQUEST} \<longrightarrow> read_len st < 513)
    \<and> client_fd st \<noteq> -1 \<and> client_fd st \<noteq> target_fd st
    \<and> (target_fd st \<noteq> -1 \<longleftrightarrow> stage st = CLIENT_STAGE_CONNECTING \<or> stage st = CLIENT_STAGE_RELAY)
    \<and> (relay_started st \<longrightarrow> stage st = CLIENT_STAGE_RELAY)
    \<and> (stage st = CLIENT_STAGE_CLOSING \<longrightarrow> 0 < write_len st)"
proof -
  have wf: "arrays_ok st" "regions_ok st" "stage_ok st" using reached_session(1) [OF a st] by (simp_all add: session_wf_def)
  have r: "region_ok off len \<Longrightarrow> off \<le> len \<and> len \<le> 4096" for off len
    by (simp add: region_ok_def SERVER_BUFFER_SIZE_def split: if_splits)
  have "read_len st \<le> 4096" using wf(3) by (auto simp: stage_ok_def SERVER_BUFFER_SIZE_def split: if_splits)
  moreover have "stage st \<in> {CLIENT_STAGE_GREETING, CLIENT_STAGE_AUTH, CLIENT_STAGE_REQUEST} \<longrightarrow> read_len st < 513"
    using wf(3) by (auto simp: stage_ok_def handshake_def)
  moreover have "client_fd st \<noteq> -1 \<and> client_fd st \<noteq> target_fd st
    \<and> (target_fd st \<noteq> -1 \<longleftrightarrow> stage st = CLIENT_STAGE_CONNECTING \<or> stage st = CLIENT_STAGE_RELAY)
    \<and> (relay_started st \<longrightarrow> stage st = CLIENT_STAGE_RELAY) \<and> (stage st = CLIENT_STAGE_CLOSING \<longrightarrow> 0 < write_len st)"
    using wf(3) unfolding stage_ok_def by (elim conjE) (intro conjI; assumption?; simp)
  ultimately show ?thesis
    using wf(1,2) r [of "write_off st" "write_len st"] r [of "c2t_off st" "c2t_len st"] r [of "t2c_off st" "t2c_len st"]
    by (simp add: arrays_ok_def regions_ok_def SERVER_BUFFER_SIZE_def CLIENT_USERNAME_MAX_def
        CLIENT_DESTINATION_MAX_def)
qed

theorem session_bounds_witness:
  "\<exists>sv st. reachable demo_os zero_users sv \<and> clients (sv_world sv) 0 = Some st \<and> c2t_off st = 2
     \<and> c2t_off st \<le> c2t_len st \<and> length (c2t_buffer st) = 4096"
proof -
  obtain sv st where s: "reachable demo_os zero_users sv" "clients (sv_world sv) 0 = Some st" "c2t_off st = 2"
    by (rule relay_reached)
  with session_bounds [OF demo_posix users_wf_zero(1) s(1,2)] show ?thesis by blast
qed

text \<open>
  C9. Only the users of the command line get through, from \<open>main\<close> to the last turn. When one of the
  \<open>-u\<close> entries is valid and nobody connects to the management service (no turn finds its socket
  ready), then whatever clients, targets, resolver threads and signals do and whatever the
  operating system answers, in every state of the run each session that is past authentication
  carries the name of a valid \<open>-u\<close> entry.
\<close>

theorem command_line_gate:
  assumes "posix_ok os" "main_args options operands err = Inr (Inr sc)" "valid_entries (user_entries options) \<noteq> []"
    and "start_server os (sc_users sc) server_fd management_fd k = Inr (Some sv0)" "run os es sv0 = Inr sv"
    and "list_all (unmanaged management_fd) es"
    and "clients (sv_world sv) c = Some st"
    and "stage st \<in> {CLIENT_STAGE_REQUEST, CLIENT_STAGE_RESOLVING, CLIENT_STAGE_CONNECTING, CLIENT_STAGE_RELAY}"
  shows "cstr (username st) \<in> fst ` set (valid_entries (user_entries options))"
proof -
  have u: "users_wf (sc_users sc)" "users_map (sc_users sc) = map_of (valid_entries (user_entries options))"
    using main_args_cases [of options operands err] assms(2) by (auto split: if_splits)
  then have "users_are_configured (sc_users sc)" using assms(3) by (simp add: configured_iff)
  from only_users_pass [OF assms(1) u(1) this assms(4-8)]
  have "cstr (username st) \<in> dom (map_of (valid_entries (user_entries options)))" by (simp add: u(2) domIff)
  then show ?thesis by (simp only: dom_map_of_conv_image_fst)
qed

theorem command_line_gate_witness:
  "\<exists>sc sv0 sv st. main_args [(CHR ''u'', bytes ''a:b'')] 0 0 = Inr (Inr sc)
     \<and> start_server demo_os (sc_users sc) 3 4 login_script = Inr (Some sv0) \<and> run demo_os login_events sv0 = Inr sv
     \<and> clients (sv_world sv) 0 = Some st \<and> stage st = CLIENT_STAGE_REQUEST \<and> cstr (username st) = bytes ''a''"
proof -
  let ?o = "[(CHR ''u'', bytes ''a:b'')]"
  have e: "user (bytes ''a:b'') = Some (bytes ''a'', bytes ''b'')"
    by (simp add: user_def bytes_def)
  then have a: "accepted ?o 0" by (simp add: accepted_def option_ok_def MAX_USERS_def)
  have v: "valid_entries (user_entries ?o) = [([97], [98])]"
    using e by (simp add: valid_entries_def field_length bytes_def)
  obtain sc where sc: "main_args ?o 0 0 = Inr (Inr sc)" "users_wf (sc_users sc)"
    "users_map (sc_users sc) = map_of (valid_entries (user_entries ?o))"
    by (rule returnsE [OF main_args_cases [of ?o 0 0]]) (auto simp: a split: sum.splits)
  have "users_credentials_are_valid [97] [98] (sc_users sc)" "users_are_configured (sc_users sc)"
    using sc(3) unfolding credentials_users_map [OF sc(2)] configured_iff [OF sc(2)] v by simp_all
  then obtain sv0 sv st where s: "start_server demo_os (sc_users sc) 3 4 login_script = Inr (Some sv0)"
    "run demo_os login_events sv0 = Inr sv" "clients (sv_world sv) 0 = Some st" "stage st = CLIENT_STAGE_REQUEST"
    "list_all (unmanaged 4) login_events"
    by (rule login_run)
  from command_line_gate [OF demo_posix sc(1) _ s(1,2,5,3)] s(4) v have "cstr (username st) = bytes ''a''"
    by (simp add: bytes_def)
  with sc(1) s show ?thesis by blast
qed



text \<open>
  C17. The end frees everything, graceful or forced: from every reachable state, with sessions in
  any stage and resolver jobs in any state, the code behind the loop returns, and then no
  session, no management session, no table and no notification is left; the only jobs that
  remain are those abandoned by their sessions, each with its thread still at work, which
  will free it.
\<close>

theorem finish_frees_all:
  assumes "posix_ok os" "users_wf us" "reachable os us sv"
  shows "returns (server_finish os sv) (\<lambda>sv'. clients (sv_world sv') = Map.empty \<and> mgmts (sv_world sv') = Map.empty
    \<and> fds (sv_world sv') = [] \<and> resolution_jobs (sv_world sv') = []
    \<and> (\<forall>j job. jobs (sv_world sv') j = Some job \<longrightarrow> job_state job = None \<and> threads (sv_world sv') j = Some Resolving))"
  by (rule server_finish_all [OF assms])

theorem finish_frees_all_witness:
  "\<exists>sv sv'. reachable demo_os zero_users sv \<and> clients (sv_world sv) 0 \<noteq> None \<and> server_finish demo_os sv = Inr sv'
     \<and> clients (sv_world sv') = Map.empty"
proof -
  obtain sv st where s: "reachable demo_os zero_users sv" "clients (sv_world sv) 0 = Some st" by (rule relay_reached)
  with finish_frees_all [OF demo_posix users_wf_zero(1) s(1)] show ?thesis by (auto simp: returns_iff)
qed

end
